(* ===== verification/Prelude.thy ===== *)
theory Prelude
  imports Main "HOL-Library.Word"
begin

text \<open>
  Shared vocabulary of the development: the machine types of the simulator (addresses,
  flag words, bytes), the result type of operations that can abort the simulation
  (\<^verbatim>\<open>assert\<close>, \<^verbatim>\<open>panic\<close>, \<^verbatim>\<open>fatal\<close>, an out-of-range \<^verbatim>\<open>at\<close>), byte-array copies
  (\<^verbatim>\<open>std::memcpy\<close>), flag-word operations (src/gem5/src/base/flags.hh) and the
  generic lemmas on lists, options and words the component theories share.
\<close>

unbundle bit_operations_syntax

section \<open>Machine types\<close>

text \<open>
  \<^verbatim>\<open>Addr\<close> and flag words keep their width. Ticks, cycles and byte counts are naturals:
  the code only adds them and compares them, and no property below depends on a tick
  counter wrapping after 2 to the 64 picoseconds; \<open>MaxTick\<close> is the code's sentinel.
\<close>

type_synonym addr = "64 word"
type_synonym flags64 = "64 word"
type_synonym flags32 = "32 word"
type_synonym byte = "8 word"
type_synonym tick = nat
type_synonym cycles = nat

definition MaxAddr :: addr where
  "MaxAddr = - 1"

definition MaxTick :: tick where
  "MaxTick = 2 ^ 64 - 1"

section \<open>Aborting operations\<close>

datatype abort = Assertion | Panic | Fatal | OutOfRange

type_synonym 'a res = "abort + 'a"

definition must :: "bool \<Rightarrow> 'a res \<Rightarrow> 'a res" where
  "must c r = (if c then r else Inl Assertion)"

definition panic_when :: "bool \<Rightarrow> 'a res \<Rightarrow> 'a res" where
  "panic_when c r = (if c then Inl Panic else r)"

definition fatal_when :: "bool \<Rightarrow> 'a res \<Rightarrow> 'a res" where
  "fatal_when c r = (if c then Inl Fatal else r)"

primrec bindR :: "'a res \<Rightarrow> ('a \<Rightarrow> 'b res) \<Rightarrow> 'b res" where
  "bindR (Inl e) f = Inl e"
| "bindR (Inr x) f = f x"

named_theorems res_simps "characteristic equations of the result type"

lemma must_Inr [res_simps, simp]: "must c r = Inr x \<longleftrightarrow> c \<and> r = Inr x"
  by (simp add: must_def)

lemma must_True [res_simps, simp]: "must True r = r"
  by (simp add: must_def)

lemma must_False [res_simps, simp]: "must False r = Inl Assertion"
  by (simp add: must_def)

lemma panic_when_Inr [res_simps, simp]: "panic_when c r = Inr x \<longleftrightarrow> \<not> c \<and> r = Inr x"
  by (simp add: panic_when_def)

lemma panic_when_True [res_simps, simp]: "panic_when True r = Inl Panic"
  by (simp add: panic_when_def)

lemma panic_when_False [res_simps, simp]: "panic_when False r = r"
  by (simp add: panic_when_def)

lemma fatal_when_Inr [res_simps, simp]: "fatal_when c r = Inr x \<longleftrightarrow> \<not> c \<and> r = Inr x"
  by (simp add: fatal_when_def)

lemma fatal_when_True [res_simps, simp]: "fatal_when True r = Inl Fatal"
  by (simp add: fatal_when_def)

lemma fatal_when_False [res_simps, simp]: "fatal_when False r = r"
  by (simp add: fatal_when_def)

lemma bindR_Inr [res_simps, simp]: "bindR m f = Inr y \<longleftrightarrow> (\<exists>x. m = Inr x \<and> f x = Inr y)"
  by (cases m) auto

lemma bindR_Inl: "bindR m f = Inl e \<longleftrightarrow> m = Inl e \<or> (\<exists>x. m = Inr x \<and> f x = Inl e)"
  by (cases m) auto

lemma bindR_assoc: "bindR (bindR m f) g = bindR m (\<lambda>x. bindR (f x) g)"
  by (cases m) auto

text \<open>The value of a run that was evaluated and did not abort.\<close>

lemma ran_pair: "\<not> isl r \<Longrightarrow> r = Inr (fst (projr r), snd (projr r))"
  by (cases r) auto

lemma ran_triple: "\<not> isl r \<Longrightarrow> r = Inr (fst (projr r), fst (snd (projr r)), snd (snd (projr r)))"
  by (cases r) auto

lemma ran_quad: "\<not> isl r \<Longrightarrow>
    r = Inr (fst (projr r), fst (snd (projr r)), fst (snd (snd (projr r))), snd (snd (snd (projr r))))"
  by (cases r) auto

text \<open>Running an aborting operation over a list, left to right (a range-for loop).\<close>

fun foldR :: "('a \<Rightarrow> 's \<Rightarrow> 's res) \<Rightarrow> 'a list \<Rightarrow> 's \<Rightarrow> 's res" where
  "foldR f [] s = Inr s"
| "foldR f (x # xs) s = bindR (f x s) (foldR f xs)"

lemma foldR_append: "foldR f (xs @ ys) s = bindR (foldR f xs s) (foldR f ys)"
proof (induction xs arbitrary: s)
  case (Cons x xs)
  then show ?case by (cases "f x s") auto
qed simp

lemma foldR_invariant:
  assumes "foldR f xs s = Inr t" and "P s"
    and "\<And>x a b. x \<in> set xs \<Longrightarrow> P a \<Longrightarrow> f x a = Inr b \<Longrightarrow> P b"
  shows "P t"
  using assms
proof (induction xs arbitrary: s)
  case Nil
  then show ?case by simp
next
  case (Cons x xs)
  from Cons.prems(1) obtain a where a: "f x s = Inr a" "foldR f xs a = Inr t"
    by auto
  have "P a" using Cons.prems(2,3) a(1) by (meson list.set_intros(1))
  with a(2) show ?case
    using Cons.IH Cons.prems(3) by (meson list.set_intros(2))
qed

text \<open>Mapping over a list and searching it, with operations that may abort.\<close>

fun mapR :: "('a \<Rightarrow> 'b res) \<Rightarrow> 'a list \<Rightarrow> 'b list res" where
  "mapR f [] = Inr []"
| "mapR f (x # xs) = bindR (f x) (\<lambda>y. bindR (mapR f xs) (\<lambda>ys. Inr (y # ys)))"

fun findR :: "('a \<Rightarrow> bool res) \<Rightarrow> 'a list \<Rightarrow> 'a option res" where
  "findR P [] = Inr None"
| "findR P (x # xs) = bindR (P x) (\<lambda>b. if b then Inr (Some x) else findR P xs)"

section \<open>Byte arrays\<close>

text \<open>
  \<open>memcpy dst off src n\<close> is \<^verbatim>\<open>memcpy(dst + off, src, n)\<close> on arrays as lists; the
  calls in the code keep \<open>off + n\<close> within the destination and \<open>n\<close> within the source,
  and the lemmas below state what that needs.
\<close>

definition memcpy :: "'a list \<Rightarrow> nat \<Rightarrow> 'a list \<Rightarrow> nat \<Rightarrow> 'a list" where
  "memcpy dst off src n = take off dst @ take n src @ drop (off + n) dst"

definition slice :: "'a list \<Rightarrow> nat \<Rightarrow> nat \<Rightarrow> 'a list" where
  "slice xs off n = take n (drop off xs)"

lemma length_slice [simp]: "off + n \<le> length xs \<Longrightarrow> length (slice xs off n) = n"
  by (simp add: slice_def)

lemma length_memcpy [simp]:
  "off + n \<le> length dst \<Longrightarrow> n \<le> length src \<Longrightarrow> length (memcpy dst off src n) = length dst"
  by (simp add: memcpy_def)

lemma slice_memcpy_same [simp]:
  "off + n \<le> length dst \<Longrightarrow> n \<le> length src \<Longrightarrow> slice (memcpy dst off src n) off n = take n src"
  by (simp add: memcpy_def slice_def)

lemma nth_memcpy:
  assumes "off + n \<le> length dst" and "n \<le> length src" and "i < length dst"
  shows "memcpy dst off src n ! i = (if off \<le> i \<and> i < off + n then src ! (i - off) else dst ! i)"
proof -
  consider "i < off" | "off \<le> i" "i < off + n" | "off + n \<le> i" by linarith
  then show ?thesis
    using assms by cases (auto simp: memcpy_def nth_append)
qed

lemma nth_slice [simp]: "i < n \<Longrightarrow> off + n \<le> length xs \<Longrightarrow> slice xs off n ! i = xs ! (off + i)"
  by (simp add: slice_def)

lemma slice_full [simp]: "slice xs 0 (length xs) = xs"
  by (simp add: slice_def)

lemma memcpy_full [simp]: "length src = length dst \<Longrightarrow> memcpy dst 0 src (length dst) = src"
  by (simp add: memcpy_def)

lemma slice_memcpy_disjoint:
  assumes "off + n \<le> length dst" and "n \<le> length src" and "o2 + m \<le> length dst"
    and "o2 + m \<le> off \<or> off + n \<le> o2"
  shows "slice (memcpy dst off src n) o2 m = slice dst o2 m"
  using assms by (auto intro!: nth_equalityI simp: nth_memcpy)

text \<open>A masked store writes the enabled bytes only (\<^verbatim>\<open>Packet::writeData\<close>).\<close>

definition masked_copy :: "'a list \<Rightarrow> nat \<Rightarrow> 'a list \<Rightarrow> bool list \<Rightarrow> 'a list" where
  "masked_copy dst off src be =
     map (\<lambda>i. if off \<le> i \<and> i < off + length be \<and> be ! (i - off) then src ! (i - off) else dst ! i)
       [0..<length dst]"

lemma length_masked_copy [simp]: "length (masked_copy dst off src be) = length dst"
  by (simp add: masked_copy_def)

lemma nth_masked_copy:
  "i < length dst \<Longrightarrow> masked_copy dst off src be ! i =
     (if off \<le> i \<and> i < off + length be \<and> be ! (i - off) then src ! (i - off) else dst ! i)"
  by (simp add: masked_copy_def)

lemma masked_copy_all:
  assumes "off + length be \<le> length dst" and "length be \<le> length src" and "False \<notin> set be"
  shows "masked_copy dst off src be = memcpy dst off src (length be)"
proof (rule nth_equalityI)
  show "length (masked_copy dst off src be) = length (memcpy dst off src (length be))"
    using assms by simp
next
  fix i assume i: "i < length (masked_copy dst off src be)"
  have "be ! (i - off)" if "off \<le> i" "i < off + length be"
  proof -
    from that have "i - off < length be" by linarith
    then have "be ! (i - off) \<in> set be" by (rule nth_mem)
    with assms(3) have "be ! (i - off) \<noteq> False" by metis
    then show ?thesis by simp
  qed
  then show "masked_copy dst off src be ! i = memcpy dst off src (length be) ! i"
    using i assms by (auto simp: nth_masked_copy nth_memcpy)
qed

section \<open>Flag words\<close>

lemma word_zero_iff_bits: "w = 0 \<longleftrightarrow> (\<forall>n. \<not> bit (w :: 'a::len word) n)"
  by (auto intro: bit_word_eqI)


text \<open>\<^verbatim>\<open>gem5::Flags\<close>: \<open>isSet\<close> tests for any bit of the mask.\<close>

definition flag_isSet :: "'a::len word \<Rightarrow> 'a word \<Rightarrow> bool" where
  "flag_isSet fl m \<longleftrightarrow> fl AND m \<noteq> 0"

definition flag_set :: "'a::len word \<Rightarrow> 'a word \<Rightarrow> 'a word" where
  "flag_set fl m = fl OR m"

definition flag_clear :: "'a::len word \<Rightarrow> 'a word \<Rightarrow> 'a word" where
  "flag_clear fl m = fl AND NOT m"

named_theorems flag_defs "flag word operations, for unfolding"

lemmas [flag_defs] = flag_isSet_def flag_set_def flag_clear_def

lemma flag_isSet_iff: "flag_isSet fl m \<longleftrightarrow> (\<exists>n. bit fl n \<and> bit m n)"
  by (auto simp: flag_isSet_def bit_eq_iff bit_and_iff dest: bit_imp_le_length)

lemma flag_isSet_set: "flag_isSet (flag_set fl m) k \<longleftrightarrow> flag_isSet fl k \<or> flag_isSet m k"
  by (auto simp: flag_isSet_iff flag_set_def bit_or_iff)

lemma flag_isSet_clear_same: "\<not> flag_isSet (flag_clear fl m) m"
  by (auto simp: flag_isSet_iff flag_clear_def bit_and_iff bit_not_iff)

lemma flag_isSet_clear_disjoint: "m AND k = 0 \<Longrightarrow> flag_isSet (flag_clear fl m) k = flag_isSet fl k"
  by (auto simp: flag_isSet_iff flag_clear_def bit_and_iff bit_not_iff bit_eq_iff
      dest: bit_imp_le_length)

lemma flag_isSet_set_disjoint: "m AND k = 0 \<Longrightarrow> flag_isSet (flag_set fl m) k = flag_isSet fl k"
  unfolding flag_isSet_set by (simp add: flag_isSet_def)

lemma flag_isSet_set_same: "m \<noteq> 0 \<Longrightarrow> flag_isSet (flag_set fl m) m"
  unfolding flag_isSet_set by (simp add: flag_isSet_def)

section \<open>Words as numbers\<close>

lemma unat_of_nat_small: "n < 2 ^ LENGTH('a::len) \<Longrightarrow> unat (of_nat n :: 'a word) = n"
  by (simp add: unat_of_nat take_bit_eq_mod)

lemma unat_two_power: "k < LENGTH('a::len) \<Longrightarrow> unat (2 ^ k :: 'a word) = 2 ^ k"
  using unat_of_nat_small[where n = "2 ^ k" and 'a = 'a] by simp

lemma unat_last_byte:
  fixes a :: addr
  assumes "0 < n" and "unat a + n \<le> 2 ^ 64"
  shows "unat (a + of_nat n - 1) = unat a + n - 1"
proof -
  have "a + of_nat n - 1 = of_nat (unat a + n - 1)"
    using assms by (simp add: of_nat_diff)
  moreover have "unat a + n - 1 < 2 ^ LENGTH(64)"
    using assms by simp
  ultimately show ?thesis
    by (metis unat_of_nat_small)
qed

lemma unat_sub_or_0:
  fixes a b :: addr
  shows "unat (if b > a then b - a else 0) = unat b - unat a"
  by (auto simp: word_less_nat_alt unat_sub word_le_nat_alt)

lemma unat_overlap:
  fixes a b :: addr
  assumes "0 < n" "unat a + n \<le> 2 ^ 64" "0 < m" "unat b + m \<le> 2 ^ 64"
    and "n < 2 ^ 64" "unat a < unat b + m" "unat b < unat a + n"
  shows "unat (min (b + of_nat m - 1) (a + of_nat n - 1) + 1 - max b a)
         = min (unat b + m) (unat a + n) - max (unat b) (unat a)"
proof -
  let ?e = "min (b + of_nat m - 1) (a + of_nat n - 1)" and ?s = "max b a"
  have ue: "unat ?e = min (unat b + m - 1) (unat a + n - 1)"
    using unat_last_byte[OF assms(1,2)] unat_last_byte[OF assms(3,4)]
    by (auto simp: min_def word_le_nat_alt)
  have us: "unat ?s = max (unat b) (unat a)"
    by (auto simp: max_def word_le_nat_alt)
  have "?e + 1 - ?s = of_nat (unat ?e + 1 - unat ?s)"
  proof -
    have "unat ?s \<le> unat ?e + 1" unfolding ue us using assms by auto
    then show ?thesis by (simp add: of_nat_diff)
  qed
  moreover have "unat ?e + 1 - unat ?s < 2 ^ 64"
    unfolding ue us using assms by auto
  ultimately have "unat (?e + 1 - ?s) = unat ?e + 1 - unat ?s"
    by (simp add: unat_of_nat_small)
  moreover have "unat ?e + 1 = min (unat b + m) (unat a + n)"
    unfolding ue using assms by auto
  ultimately show ?thesis
    by (simp add: us)
qed

lemma nth_memcpy_window:
  fixes a A :: nat
  assumes "a < A + n" "A < a + sz" "length dst = n" "length src = sz" "i < n"
  shows "memcpy dst (a - A) (drop (A - a) src) (min (a + sz) (A + n) - max a A) ! i
    = (if a \<le> A + i \<and> A + i < a + sz then src ! (A + i - a) else dst ! i)"
proof -
  define fo vo ov where "fo = a - A" "vo = A - a" "ov = min (a + sz) (A + n) - max a A"
  note w = this
  have b: "fo + ov \<le> length dst" "ov \<le> length (drop vo src)" "i < length dst"
    using assms by (auto simp: w)
  have c: "(fo \<le> i \<and> i < fo + ov) = (a \<le> A + i \<and> A + i < a + sz)"
    using assms by (auto simp: w)
  have "drop vo src ! (i - fo) = src ! (A + i - a)" if "a \<le> A + i" "A + i < a + sz"
  proof -
    have "vo + (i - fo) = A + i - a" using that by (auto simp: w)
    then show ?thesis using assms by (simp add: nth_drop w)
  qed
  then show ?thesis
    unfolding w(1,2,3)[symmetric] nth_memcpy[OF b] c by simp
qed

section \<open>Lists\<close>

lemma find_Some_mem: "find P xs = Some x \<Longrightarrow> x \<in> set xs \<and> P x"
  by (auto simp: find_Some_iff)

lemma find_unique:
  "x \<in> set xs \<Longrightarrow> (\<And>y. y \<in> set xs \<Longrightarrow> P y \<longleftrightarrow> y = x) \<Longrightarrow> find P xs = Some x"
  by (induction xs) auto

lemma remove1_split:
  "x \<in> set xs \<Longrightarrow> \<exists>ys zs. xs = ys @ x # zs \<and> x \<notin> set ys \<and> remove1 x xs = ys @ zs"
  by (metis remove1_append remove1.simps(2) split_list_first)

end
