(* ===== verification/Mem_Cmd.thy ===== *)
theory Mem_Cmd
  imports Prelude
begin

text \<open>
  Memory commands (src/gem5/src/mem/packet.hh, class \<^verbatim>\<open>MemCmd\<close>, and the table
  \<^verbatim>\<open>MemCmd::commandInfo\<close> of src/gem5/src/mem/packet.cc). The table is positional, as
  in the source: entry \<open>toInt c\<close> describes command \<open>c\<close>. The four scratchpad commands
  stand in front of \<^verbatim>\<open>InvalidCmd\<close> and shift every other index, so that table and
  enumeration agree is a theorem here, and the classification facts the caches rely on
  follow from it.
\<close>

section \<open>Commands and attributes\<close>

datatype mem_cmd =
  SPMLoadReq | CPTOSPMReq | SPMWritebackReq | SPMStoreReq | InvalidCmd | ReadReq | ReadResp
  | ReadRespWithInvalidate | WriteReq | WriteResp | WriteCompleteResp | WritebackDirty
  | WritebackClean | WriteClean | CleanEvict | SoftPFReq | SoftPFExReq | HardPFReq
  | SoftPFResp | HardPFResp | WriteLineReq | UpgradeReq | SCUpgradeReq | UpgradeResp
  | SCUpgradeFailReq | UpgradeFailResp | ReadExReq | ReadExResp | ReadCleanReq
  | ReadSharedReq | LoadLockedReq | StoreCondReq | StoreCondFailReq | StoreCondResp
  | LockedRMWReadReq | LockedRMWReadResp | LockedRMWWriteReq | LockedRMWWriteResp | SwapReq
  | SwapResp | MemFenceReq | MemSyncReq | MemSyncResp | MemFenceResp | CleanSharedReq
  | CleanSharedResp | CleanInvalidReq | CleanInvalidResp | InvalidDestError
  | BadAddressError | ReadError | WriteError | FunctionalReadError | FunctionalWriteError
  | PrintReq | FlushReq | InvalidateReq | InvalidateResp | HTMReq | HTMReqResp | HTMAbort
  | TlbiExtSync

datatype mem_attr =
  IsRead | IsWrite | IsUpgrade | IsInvalidate | IsClean | NeedsWritable | IsRequest
  | IsResponse | NeedsResponse | IsEviction | IsSWPrefetch | IsHWPrefetch | IsLlsc
  | IsLockedRMW | HasData | IsError | IsPrint | IsFlush | FromCache

record command_info =
  attributes :: "mem_attr list"
  response :: mem_cmd
  str :: string

definition CommandInfo :: "mem_attr list \<Rightarrow> mem_cmd \<Rightarrow> string \<Rightarrow> command_info" where
  "CommandInfo attrs resp s = \<lparr>attributes = attrs, response = resp, str = s\<rparr>"

text \<open>The enumerators' values; \<^verbatim>\<open>MemFenceReq = SwapResp + 3\<close> skips two deprecated codes.\<close>

primrec toInt :: "mem_cmd \<Rightarrow> nat" where
  "toInt SPMLoadReq = 0"
| "toInt CPTOSPMReq = 1"
| "toInt SPMWritebackReq = 2"
| "toInt SPMStoreReq = 3"
| "toInt InvalidCmd = 4"
| "toInt ReadReq = 5"
| "toInt ReadResp = 6"
| "toInt ReadRespWithInvalidate = 7"
| "toInt WriteReq = 8"
| "toInt WriteResp = 9"
| "toInt WriteCompleteResp = 10"
| "toInt WritebackDirty = 11"
| "toInt WritebackClean = 12"
| "toInt WriteClean = 13"
| "toInt CleanEvict = 14"
| "toInt SoftPFReq = 15"
| "toInt SoftPFExReq = 16"
| "toInt HardPFReq = 17"
| "toInt SoftPFResp = 18"
| "toInt HardPFResp = 19"
| "toInt WriteLineReq = 20"
| "toInt UpgradeReq = 21"
| "toInt SCUpgradeReq = 22"
| "toInt UpgradeResp = 23"
| "toInt SCUpgradeFailReq = 24"
| "toInt UpgradeFailResp = 25"
| "toInt ReadExReq = 26"
| "toInt ReadExResp = 27"
| "toInt ReadCleanReq = 28"
| "toInt ReadSharedReq = 29"
| "toInt LoadLockedReq = 30"
| "toInt StoreCondReq = 31"
| "toInt StoreCondFailReq = 32"
| "toInt StoreCondResp = 33"
| "toInt LockedRMWReadReq = 34"
| "toInt LockedRMWReadResp = 35"
| "toInt LockedRMWWriteReq = 36"
| "toInt LockedRMWWriteResp = 37"
| "toInt SwapReq = 38"
| "toInt SwapResp = 39"
| "toInt MemFenceReq = 42"
| "toInt MemSyncReq = 43"
| "toInt MemSyncResp = 44"
| "toInt MemFenceResp = 45"
| "toInt CleanSharedReq = 46"
| "toInt CleanSharedResp = 47"
| "toInt CleanInvalidReq = 48"
| "toInt CleanInvalidResp = 49"
| "toInt InvalidDestError = 50"
| "toInt BadAddressError = 51"
| "toInt ReadError = 52"
| "toInt WriteError = 53"
| "toInt FunctionalReadError = 54"
| "toInt FunctionalWriteError = 55"
| "toInt PrintReq = 56"
| "toInt FlushReq = 57"
| "toInt InvalidateReq = 58"
| "toInt InvalidateResp = 59"
| "toInt HTMReq = 60"
| "toInt HTMReqResp = 61"
| "toInt HTMAbort = 62"
| "toInt TlbiExtSync = 63"

text \<open>The enumerators' identifiers.\<close>

primrec enumerator :: "mem_cmd \<Rightarrow> string" where
  "enumerator SPMLoadReq = ''SPMLoadReq''"
| "enumerator CPTOSPMReq = ''CPTOSPMReq''"
| "enumerator SPMWritebackReq = ''SPMWritebackReq''"
| "enumerator SPMStoreReq = ''SPMStoreReq''"
| "enumerator InvalidCmd = ''InvalidCmd''"
| "enumerator ReadReq = ''ReadReq''"
| "enumerator ReadResp = ''ReadResp''"
| "enumerator ReadRespWithInvalidate = ''ReadRespWithInvalidate''"
| "enumerator WriteReq = ''WriteReq''"
| "enumerator WriteResp = ''WriteResp''"
| "enumerator WriteCompleteResp = ''WriteCompleteResp''"
| "enumerator WritebackDirty = ''WritebackDirty''"
| "enumerator WritebackClean = ''WritebackClean''"
| "enumerator WriteClean = ''WriteClean''"
| "enumerator CleanEvict = ''CleanEvict''"
| "enumerator SoftPFReq = ''SoftPFReq''"
| "enumerator SoftPFExReq = ''SoftPFExReq''"
| "enumerator HardPFReq = ''HardPFReq''"
| "enumerator SoftPFResp = ''SoftPFResp''"
| "enumerator HardPFResp = ''HardPFResp''"
| "enumerator WriteLineReq = ''WriteLineReq''"
| "enumerator UpgradeReq = ''UpgradeReq''"
| "enumerator SCUpgradeReq = ''SCUpgradeReq''"
| "enumerator UpgradeResp = ''UpgradeResp''"
| "enumerator SCUpgradeFailReq = ''SCUpgradeFailReq''"
| "enumerator UpgradeFailResp = ''UpgradeFailResp''"
| "enumerator ReadExReq = ''ReadExReq''"
| "enumerator ReadExResp = ''ReadExResp''"
| "enumerator ReadCleanReq = ''ReadCleanReq''"
| "enumerator ReadSharedReq = ''ReadSharedReq''"
| "enumerator LoadLockedReq = ''LoadLockedReq''"
| "enumerator StoreCondReq = ''StoreCondReq''"
| "enumerator StoreCondFailReq = ''StoreCondFailReq''"
| "enumerator StoreCondResp = ''StoreCondResp''"
| "enumerator LockedRMWReadReq = ''LockedRMWReadReq''"
| "enumerator LockedRMWReadResp = ''LockedRMWReadResp''"
| "enumerator LockedRMWWriteReq = ''LockedRMWWriteReq''"
| "enumerator LockedRMWWriteResp = ''LockedRMWWriteResp''"
| "enumerator SwapReq = ''SwapReq''"
| "enumerator SwapResp = ''SwapResp''"
| "enumerator MemFenceReq = ''MemFenceReq''"
| "enumerator MemSyncReq = ''MemSyncReq''"
| "enumerator MemSyncResp = ''MemSyncResp''"
| "enumerator MemFenceResp = ''MemFenceResp''"
| "enumerator CleanSharedReq = ''CleanSharedReq''"
| "enumerator CleanSharedResp = ''CleanSharedResp''"
| "enumerator CleanInvalidReq = ''CleanInvalidReq''"
| "enumerator CleanInvalidResp = ''CleanInvalidResp''"
| "enumerator InvalidDestError = ''InvalidDestError''"
| "enumerator BadAddressError = ''BadAddressError''"
| "enumerator ReadError = ''ReadError''"
| "enumerator WriteError = ''WriteError''"
| "enumerator FunctionalReadError = ''FunctionalReadError''"
| "enumerator FunctionalWriteError = ''FunctionalWriteError''"
| "enumerator PrintReq = ''PrintReq''"
| "enumerator FlushReq = ''FlushReq''"
| "enumerator InvalidateReq = ''InvalidateReq''"
| "enumerator InvalidateResp = ''InvalidateResp''"
| "enumerator HTMReq = ''HTMReq''"
| "enumerator HTMReqResp = ''HTMReqResp''"
| "enumerator HTMAbort = ''HTMAbort''"
| "enumerator TlbiExtSync = ''TlbiExtSync''"

definition NUM_MEM_CMDS :: nat where
  "NUM_MEM_CMDS = 64"

section \<open>The command table\<close>

definition commandInfo :: "command_info list" where
  "commandInfo = [
     CommandInfo [IsRead, IsRequest, NeedsResponse, HasData] ReadResp ''SPMLoadReq'',
     CommandInfo [IsWrite, IsRequest, NeedsResponse, HasData] WriteResp ''CPTOSPMReq'',
     CommandInfo [IsWrite, NeedsWritable, IsRequest, NeedsResponse, HasData] WriteResp ''SPMWritebackReq'',
     CommandInfo [IsWrite, NeedsWritable, IsRequest, NeedsResponse, HasData] WriteResp ''SPMStoreReq'',
     CommandInfo [] InvalidCmd ''InvalidCmd'',
     CommandInfo [IsRead, IsRequest, NeedsResponse] ReadResp ''ReadReq'',
     CommandInfo [IsRead, IsResponse, HasData] InvalidCmd ''ReadResp'',
     CommandInfo [IsRead, IsResponse, HasData, IsInvalidate] InvalidCmd ''ReadRespWithInvalidate'',
     CommandInfo [IsWrite, NeedsWritable, IsRequest, NeedsResponse, HasData] WriteResp ''WriteReq'',
     CommandInfo [IsWrite, IsResponse] InvalidCmd ''WriteResp'',
     CommandInfo [IsWrite, IsResponse] InvalidCmd ''WriteCompleteResp'',
     CommandInfo [IsWrite, IsRequest, IsEviction, HasData, FromCache] InvalidCmd ''WritebackDirty'',
     CommandInfo [IsWrite, IsRequest, IsEviction, HasData, FromCache] InvalidCmd ''WritebackClean'',
     CommandInfo [IsWrite, IsRequest, HasData, FromCache] InvalidCmd ''WriteClean'',
     CommandInfo [IsRequest, IsEviction, FromCache] InvalidCmd ''CleanEvict'',
     CommandInfo [IsRead, IsRequest, IsSWPrefetch, NeedsResponse] SoftPFResp ''SoftPFReq'',
     CommandInfo [IsRead, NeedsWritable, IsInvalidate, IsRequest, IsSWPrefetch, NeedsResponse] SoftPFResp ''SoftPFExReq'',
     CommandInfo [IsRead, IsRequest, IsHWPrefetch, NeedsResponse, FromCache] HardPFResp ''HardPFReq'',
     CommandInfo [IsRead, IsResponse, IsSWPrefetch, HasData] InvalidCmd ''SoftPFResp'',
     CommandInfo [IsRead, IsResponse, IsHWPrefetch, HasData] InvalidCmd ''HardPFResp'',
     CommandInfo [IsWrite, NeedsWritable, IsRequest, NeedsResponse, HasData] WriteResp ''WriteLineReq'',
     CommandInfo [IsInvalidate, NeedsWritable, IsUpgrade, IsRequest, NeedsResponse, FromCache] UpgradeResp ''UpgradeReq'',
     CommandInfo [IsInvalidate, NeedsWritable, IsUpgrade, IsLlsc, IsRequest, NeedsResponse, FromCache] UpgradeResp ''SCUpgradeReq'',
     CommandInfo [IsUpgrade, IsResponse] InvalidCmd ''UpgradeResp'',
     CommandInfo [IsRead, NeedsWritable, IsInvalidate, IsLlsc, IsRequest, NeedsResponse, FromCache] UpgradeFailResp ''SCUpgradeFailReq'',
     CommandInfo [IsRead, IsResponse, HasData] InvalidCmd ''UpgradeFailResp'',
     CommandInfo [IsRead, NeedsWritable, IsInvalidate, IsRequest, NeedsResponse, FromCache] ReadExResp ''ReadExReq'',
     CommandInfo [IsRead, IsResponse, HasData] InvalidCmd ''ReadExResp'',
     CommandInfo [IsRead, IsRequest, NeedsResponse, FromCache] ReadResp ''ReadCleanReq'',
     CommandInfo [IsRead, IsRequest, NeedsResponse, FromCache] ReadResp ''ReadSharedReq'',
     CommandInfo [IsRead, IsLlsc, IsRequest, NeedsResponse] ReadResp ''LoadLockedReq'',
     CommandInfo [IsWrite, NeedsWritable, IsLlsc, IsRequest, NeedsResponse, HasData] StoreCondResp ''StoreCondReq'',
     CommandInfo [IsWrite, NeedsWritable, IsLlsc, IsRequest, NeedsResponse, HasData] StoreCondResp ''StoreCondFailReq'',
     CommandInfo [IsWrite, IsLlsc, IsResponse] InvalidCmd ''StoreCondResp'',
     CommandInfo [IsRead, IsLockedRMW, NeedsWritable, IsRequest, NeedsResponse] LockedRMWReadResp ''LockedRMWReadReq'',
     CommandInfo [IsRead, IsLockedRMW, NeedsWritable, IsResponse, HasData] InvalidCmd ''LockedRMWReadResp'',
     CommandInfo [IsWrite, IsLockedRMW, NeedsWritable, IsRequest, NeedsResponse, HasData] LockedRMWWriteResp ''LockedRMWWriteReq'',
     CommandInfo [IsWrite, IsLockedRMW, NeedsWritable, IsResponse] InvalidCmd ''LockedRMWWriteResp'',
     CommandInfo [IsRead, IsWrite, NeedsWritable, IsRequest, HasData, NeedsResponse] SwapResp ''SwapReq'',
     CommandInfo [IsRead, IsWrite, IsResponse, HasData] InvalidCmd ''SwapResp'',
     CommandInfo [] InvalidCmd ''Deprecated_MessageReq'',
     CommandInfo [] InvalidCmd ''Deprecated_MessageResp'',
     CommandInfo [IsRequest, NeedsResponse] MemFenceResp ''MemFenceReq'',
     CommandInfo [IsRequest, NeedsResponse] MemSyncResp ''MemSyncReq'',
     CommandInfo [IsResponse] InvalidCmd ''MemSyncResp'',
     CommandInfo [IsResponse] InvalidCmd ''MemFenceResp'',
     CommandInfo [IsRequest, IsClean, NeedsResponse, FromCache] CleanSharedResp ''CleanSharedReq'',
     CommandInfo [IsResponse, IsClean] InvalidCmd ''CleanSharedResp'',
     CommandInfo [IsRequest, IsInvalidate, IsClean, NeedsResponse, FromCache] CleanInvalidResp ''CleanInvalidReq'',
     CommandInfo [IsResponse, IsInvalidate, IsClean] InvalidCmd ''CleanInvalidResp'',
     CommandInfo [IsResponse, IsError] InvalidCmd ''InvalidDestError'',
     CommandInfo [IsResponse, IsError] InvalidCmd ''BadAddressError'',
     CommandInfo [IsRead, IsResponse, IsError] InvalidCmd ''ReadError'',
     CommandInfo [IsWrite, IsResponse, IsError] InvalidCmd ''WriteError'',
     CommandInfo [IsRead, IsResponse, IsError] InvalidCmd ''FunctionalReadError'',
     CommandInfo [IsWrite, IsResponse, IsError] InvalidCmd ''FunctionalWriteError'',
     CommandInfo [IsRequest, IsPrint] InvalidCmd ''PrintReq'',
     CommandInfo [IsRequest, IsFlush, NeedsWritable] InvalidCmd ''FlushReq'',
     CommandInfo [IsInvalidate, IsRequest, NeedsWritable, NeedsResponse, FromCache] InvalidateResp ''InvalidateReq'',
     CommandInfo [IsInvalidate, IsResponse] InvalidCmd ''InvalidateResp'',
     CommandInfo [IsRead, IsRequest, NeedsResponse] HTMReqResp ''HTMReq'',
     CommandInfo [IsRead, IsResponse] InvalidCmd ''HTMReqResp'',
     CommandInfo [IsRead, IsRequest] InvalidCmd ''HTMAbort'',
     CommandInfo [IsRequest] InvalidCmd ''TlbiExtSync'']"

definition info :: "mem_cmd \<Rightarrow> command_info" where
  "info c = commandInfo ! toInt c"

definition testCmdAttrib :: "mem_cmd \<Rightarrow> mem_attr \<Rightarrow> bool" where
  "testCmdAttrib c a \<longleftrightarrow> a \<in> set (attributes (info c))"

definition responseCommand :: "mem_cmd \<Rightarrow> mem_cmd" where
  "responseCommand c = response (info c)"

definition toString :: "mem_cmd \<Rightarrow> string" where
  "toString c = str (info c)"

section \<open>Classification\<close>

definition isRead :: "mem_cmd \<Rightarrow> bool" where
  "isRead c \<longleftrightarrow> testCmdAttrib c IsRead"

definition isWrite :: "mem_cmd \<Rightarrow> bool" where
  "isWrite c \<longleftrightarrow> testCmdAttrib c IsWrite"

definition isUpgrade :: "mem_cmd \<Rightarrow> bool" where
  "isUpgrade c \<longleftrightarrow> testCmdAttrib c IsUpgrade"

definition isRequest :: "mem_cmd \<Rightarrow> bool" where
  "isRequest c \<longleftrightarrow> testCmdAttrib c IsRequest"

definition isResponse :: "mem_cmd \<Rightarrow> bool" where
  "isResponse c \<longleftrightarrow> testCmdAttrib c IsResponse"

definition needsWritable :: "mem_cmd \<Rightarrow> bool" where
  "needsWritable c \<longleftrightarrow> testCmdAttrib c NeedsWritable"

definition needsResponse :: "mem_cmd \<Rightarrow> bool" where
  "needsResponse c \<longleftrightarrow> testCmdAttrib c NeedsResponse"

definition isInvalidate :: "mem_cmd \<Rightarrow> bool" where
  "isInvalidate c \<longleftrightarrow> testCmdAttrib c IsInvalidate"

definition isEviction :: "mem_cmd \<Rightarrow> bool" where
  "isEviction c \<longleftrightarrow> testCmdAttrib c IsEviction"

definition isClean :: "mem_cmd \<Rightarrow> bool" where
  "isClean c \<longleftrightarrow> testCmdAttrib c IsClean"

definition fromCache :: "mem_cmd \<Rightarrow> bool" where
  "fromCache c \<longleftrightarrow> testCmdAttrib c FromCache"

definition hasData :: "mem_cmd \<Rightarrow> bool" where
  "hasData c \<longleftrightarrow> testCmdAttrib c HasData"

definition isLLSC :: "mem_cmd \<Rightarrow> bool" where
  "isLLSC c \<longleftrightarrow> testCmdAttrib c IsLlsc"

definition isLockedRMW :: "mem_cmd \<Rightarrow> bool" where
  "isLockedRMW c \<longleftrightarrow> testCmdAttrib c IsLockedRMW"

definition isSWPrefetch :: "mem_cmd \<Rightarrow> bool" where
  "isSWPrefetch c \<longleftrightarrow> testCmdAttrib c IsSWPrefetch"

definition isHWPrefetch :: "mem_cmd \<Rightarrow> bool" where
  "isHWPrefetch c \<longleftrightarrow> testCmdAttrib c IsHWPrefetch"

definition isError :: "mem_cmd \<Rightarrow> bool" where
  "isError c \<longleftrightarrow> testCmdAttrib c IsError"

definition isPrint :: "mem_cmd \<Rightarrow> bool" where
  "isPrint c \<longleftrightarrow> testCmdAttrib c IsPrint"

definition isFlush :: "mem_cmd \<Rightarrow> bool" where
  "isFlush c \<longleftrightarrow> testCmdAttrib c IsFlush"

definition isWriteback :: "mem_cmd \<Rightarrow> bool" where
  "isWriteback c \<longleftrightarrow> testCmdAttrib c IsEviction \<and> testCmdAttrib c HasData"

definition isPrefetch :: "mem_cmd \<Rightarrow> bool" where
  "isPrefetch c \<longleftrightarrow> testCmdAttrib c IsSWPrefetch \<or> testCmdAttrib c IsHWPrefetch"

definition isDemand :: "mem_cmd \<Rightarrow> bool" where
  "isDemand c \<longleftrightarrow> c = ReadReq \<or> c = WriteReq \<or> c = WriteLineReq \<or> c = ReadExReq \<or>
     c = ReadCleanReq \<or> c = ReadSharedReq"

definition isSPMcmd :: "mem_cmd \<Rightarrow> bool" where
  "isSPMcmd c \<longleftrightarrow> c = SPMLoadReq \<or> c = CPTOSPMReq \<or> c = SPMWritebackReq \<or> c = SPMStoreReq"

section \<open>The table, command by command\<close>

text \<open>
  The table looked up at each command, so that every classification of a known command
  evaluates by \<open>simp\<close>.
\<close>

named_theorems cmd_table "table lookups and classification predicates, for evaluation"

lemma info_eq [cmd_table]:
  "info SPMLoadReq = CommandInfo [IsRead, IsRequest, NeedsResponse, HasData] ReadResp ''SPMLoadReq''"
  "info CPTOSPMReq = CommandInfo [IsWrite, IsRequest, NeedsResponse, HasData] WriteResp ''CPTOSPMReq''"
  "info SPMWritebackReq = CommandInfo [IsWrite, NeedsWritable, IsRequest, NeedsResponse, HasData] WriteResp ''SPMWritebackReq''"
  "info SPMStoreReq = CommandInfo [IsWrite, NeedsWritable, IsRequest, NeedsResponse, HasData] WriteResp ''SPMStoreReq''"
  "info InvalidCmd = CommandInfo [] InvalidCmd ''InvalidCmd''"
  "info ReadReq = CommandInfo [IsRead, IsRequest, NeedsResponse] ReadResp ''ReadReq''"
  "info ReadResp = CommandInfo [IsRead, IsResponse, HasData] InvalidCmd ''ReadResp''"
  "info ReadRespWithInvalidate = CommandInfo [IsRead, IsResponse, HasData, IsInvalidate] InvalidCmd ''ReadRespWithInvalidate''"
  "info WriteReq = CommandInfo [IsWrite, NeedsWritable, IsRequest, NeedsResponse, HasData] WriteResp ''WriteReq''"
  "info WriteResp = CommandInfo [IsWrite, IsResponse] InvalidCmd ''WriteResp''"
  "info WriteCompleteResp = CommandInfo [IsWrite, IsResponse] InvalidCmd ''WriteCompleteResp''"
  "info WritebackDirty = CommandInfo [IsWrite, IsRequest, IsEviction, HasData, FromCache] InvalidCmd ''WritebackDirty''"
  "info WritebackClean = CommandInfo [IsWrite, IsRequest, IsEviction, HasData, FromCache] InvalidCmd ''WritebackClean''"
  "info WriteClean = CommandInfo [IsWrite, IsRequest, HasData, FromCache] InvalidCmd ''WriteClean''"
  "info CleanEvict = CommandInfo [IsRequest, IsEviction, FromCache] InvalidCmd ''CleanEvict''"
  "info SoftPFReq = CommandInfo [IsRead, IsRequest, IsSWPrefetch, NeedsResponse] SoftPFResp ''SoftPFReq''"
  "info SoftPFExReq = CommandInfo [IsRead, NeedsWritable, IsInvalidate, IsRequest, IsSWPrefetch, NeedsResponse] SoftPFResp ''SoftPFExReq''"
  "info HardPFReq = CommandInfo [IsRead, IsRequest, IsHWPrefetch, NeedsResponse, FromCache] HardPFResp ''HardPFReq''"
  "info SoftPFResp = CommandInfo [IsRead, IsResponse, IsSWPrefetch, HasData] InvalidCmd ''SoftPFResp''"
  "info HardPFResp = CommandInfo [IsRead, IsResponse, IsHWPrefetch, HasData] InvalidCmd ''HardPFResp''"
  "info WriteLineReq = CommandInfo [IsWrite, NeedsWritable, IsRequest, NeedsResponse, HasData] WriteResp ''WriteLineReq''"
  "info UpgradeReq = CommandInfo [IsInvalidate, NeedsWritable, IsUpgrade, IsRequest, NeedsResponse, FromCache] UpgradeResp ''UpgradeReq''"
  "info SCUpgradeReq = CommandInfo [IsInvalidate, NeedsWritable, IsUpgrade, IsLlsc, IsRequest, NeedsResponse, FromCache] UpgradeResp ''SCUpgradeReq''"
  "info UpgradeResp = CommandInfo [IsUpgrade, IsResponse] InvalidCmd ''UpgradeResp''"
  "info SCUpgradeFailReq = CommandInfo [IsRead, NeedsWritable, IsInvalidate, IsLlsc, IsRequest, NeedsResponse, FromCache] UpgradeFailResp ''SCUpgradeFailReq''"
  "info UpgradeFailResp = CommandInfo [IsRead, IsResponse, HasData] InvalidCmd ''UpgradeFailResp''"
  "info ReadExReq = CommandInfo [IsRead, NeedsWritable, IsInvalidate, IsRequest, NeedsResponse, FromCache] ReadExResp ''ReadExReq''"
  "info ReadExResp = CommandInfo [IsRead, IsResponse, HasData] InvalidCmd ''ReadExResp''"
  "info ReadCleanReq = CommandInfo [IsRead, IsRequest, NeedsResponse, FromCache] ReadResp ''ReadCleanReq''"
  "info ReadSharedReq = CommandInfo [IsRead, IsRequest, NeedsResponse, FromCache] ReadResp ''ReadSharedReq''"
  "info LoadLockedReq = CommandInfo [IsRead, IsLlsc, IsRequest, NeedsResponse] ReadResp ''LoadLockedReq''"
  "info StoreCondReq = CommandInfo [IsWrite, NeedsWritable, IsLlsc, IsRequest, NeedsResponse, HasData] StoreCondResp ''StoreCondReq''"
  "info StoreCondFailReq = CommandInfo [IsWrite, NeedsWritable, IsLlsc, IsRequest, NeedsResponse, HasData] StoreCondResp ''StoreCondFailReq''"
  "info StoreCondResp = CommandInfo [IsWrite, IsLlsc, IsResponse] InvalidCmd ''StoreCondResp''"
  "info LockedRMWReadReq = CommandInfo [IsRead, IsLockedRMW, NeedsWritable, IsRequest, NeedsResponse] LockedRMWReadResp ''LockedRMWReadReq''"
  "info LockedRMWReadResp = CommandInfo [IsRead, IsLockedRMW, NeedsWritable, IsResponse, HasData] InvalidCmd ''LockedRMWReadResp''"
  "info LockedRMWWriteReq = CommandInfo [IsWrite, IsLockedRMW, NeedsWritable, IsRequest, NeedsResponse, HasData] LockedRMWWriteResp ''LockedRMWWriteReq''"
  "info LockedRMWWriteResp = CommandInfo [IsWrite, IsLockedRMW, NeedsWritable, IsResponse] InvalidCmd ''LockedRMWWriteResp''"
  "info SwapReq = CommandInfo [IsRead, IsWrite, NeedsWritable, IsRequest, HasData, NeedsResponse] SwapResp ''SwapReq''"
  "info SwapResp = CommandInfo [IsRead, IsWrite, IsResponse, HasData] InvalidCmd ''SwapResp''"
  "info MemFenceReq = CommandInfo [IsRequest, NeedsResponse] MemFenceResp ''MemFenceReq''"
  "info MemSyncReq = CommandInfo [IsRequest, NeedsResponse] MemSyncResp ''MemSyncReq''"
  "info MemSyncResp = CommandInfo [IsResponse] InvalidCmd ''MemSyncResp''"
  "info MemFenceResp = CommandInfo [IsResponse] InvalidCmd ''MemFenceResp''"
  "info CleanSharedReq = CommandInfo [IsRequest, IsClean, NeedsResponse, FromCache] CleanSharedResp ''CleanSharedReq''"
  "info CleanSharedResp = CommandInfo [IsResponse, IsClean] InvalidCmd ''CleanSharedResp''"
  "info CleanInvalidReq = CommandInfo [IsRequest, IsInvalidate, IsClean, NeedsResponse, FromCache] CleanInvalidResp ''CleanInvalidReq''"
  "info CleanInvalidResp = CommandInfo [IsResponse, IsInvalidate, IsClean] InvalidCmd ''CleanInvalidResp''"
  "info InvalidDestError = CommandInfo [IsResponse, IsError] InvalidCmd ''InvalidDestError''"
  "info BadAddressError = CommandInfo [IsResponse, IsError] InvalidCmd ''BadAddressError''"
  "info ReadError = CommandInfo [IsRead, IsResponse, IsError] InvalidCmd ''ReadError''"
  "info WriteError = CommandInfo [IsWrite, IsResponse, IsError] InvalidCmd ''WriteError''"
  "info FunctionalReadError = CommandInfo [IsRead, IsResponse, IsError] InvalidCmd ''FunctionalReadError''"
  "info FunctionalWriteError = CommandInfo [IsWrite, IsResponse, IsError] InvalidCmd ''FunctionalWriteError''"
  "info PrintReq = CommandInfo [IsRequest, IsPrint] InvalidCmd ''PrintReq''"
  "info FlushReq = CommandInfo [IsRequest, IsFlush, NeedsWritable] InvalidCmd ''FlushReq''"
  "info InvalidateReq = CommandInfo [IsInvalidate, IsRequest, NeedsWritable, NeedsResponse, FromCache] InvalidateResp ''InvalidateReq''"
  "info InvalidateResp = CommandInfo [IsInvalidate, IsResponse] InvalidCmd ''InvalidateResp''"
  "info HTMReq = CommandInfo [IsRead, IsRequest, NeedsResponse] HTMReqResp ''HTMReq''"
  "info HTMReqResp = CommandInfo [IsRead, IsResponse] InvalidCmd ''HTMReqResp''"
  "info HTMAbort = CommandInfo [IsRead, IsRequest] InvalidCmd ''HTMAbort''"
  "info TlbiExtSync = CommandInfo [IsRequest] InvalidCmd ''TlbiExtSync''"
  by (simp_all add: info_def commandInfo_def)

lemmas [cmd_table] = CommandInfo_def testCmdAttrib_def responseCommand_def toString_def
  isRead_def isWrite_def isUpgrade_def isRequest_def isResponse_def needsWritable_def needsResponse_def isInvalidate_def isEviction_def isClean_def
  fromCache_def hasData_def isLLSC_def isLockedRMW_def isSWPrefetch_def isHWPrefetch_def isError_def isPrint_def isFlush_def
  isWriteback_def isPrefetch_def isDemand_def isSPMcmd_def

section \<open>What the table guarantees\<close>

text \<open>
  C29. The command table and the enumeration agree: the table has exactly
  \<^verbatim>\<open>NUM_MEM_CMDS\<close> entries, every command indexes into it, and the entry a command
  reaches carries that command's own name. The scratchpad commands were put in front of the
  enumeration and in front of the table by hand, so this is what keeps every attribute
  test on the right row.
\<close>

theorem command_table_aligned:
  "length commandInfo = NUM_MEM_CMDS \<and> toInt c < NUM_MEM_CMDS \<and> toString c = enumerator c"
proof (intro conjI)
  show "length commandInfo = NUM_MEM_CMDS"
    by (simp add: commandInfo_def NUM_MEM_CMDS_def)
  show "toInt c < NUM_MEM_CMDS"
    by (cases c) (simp_all add: NUM_MEM_CMDS_def)
  show "toString c = enumerator c"
    by (cases c) (simp_all add: cmd_table)
qed

text \<open>
  C30. The commands are classified consistently: no command is both a request and a
  response, \<^verbatim>\<open>InvalidCmd\<close> is the only one that is neither, a command needs a
  response exactly when the table names one for it, and what it names is a response.
\<close>

theorem command_classification:
  "\<not> (isRequest c \<and> isResponse c)
   \<and> (c = InvalidCmd) = (\<not> isRequest c \<and> \<not> isResponse c)
   \<and> needsResponse c = (responseCommand c \<noteq> InvalidCmd)
   \<and> needsResponse c = isResponse (responseCommand c)"
  by (cases c) (simp_all add: cmd_table)

lemma response_no_response: "isResponse c \<Longrightarrow> \<not> needsResponse c"
  by (cases c) (simp_all add: cmd_table)

lemma needsResponse_isRequest: "needsResponse c \<Longrightarrow> isRequest c"
  by (cases c) (simp_all add: cmd_table)

lemma isResponse_responseCommand: "needsResponse c \<Longrightarrow> isResponse (responseCommand c)"
  by (cases c) (simp_all add: cmd_table)

lemma eviction_is_request: "isEviction c \<Longrightarrow> isRequest c \<and> \<not> needsResponse c"
  by (cases c) (simp_all add: cmd_table)

end
