(* ===== verification/Request.thy ===== *)
theory Request
  imports Prelude
begin

text \<open>
  Requests (src/gem5/src/mem/request.hh). A request is what travels from the requestor to
  the destination and back; several packets share one request object. Here a packet holds
  its request by value, and every write to a request the code makes through one packet is
  made on the packet that carries it from there on. The flag constants are the source's, the
  scratchpad operation and size flags included; that the flag bits are distinct, with the
  one exception the source has, is proved at the end.
\<close>

section \<open>Flag constants\<close>

definition ARCH_BITS :: flags64 where
  "ARCH_BITS = 0xFF"

definition INST_FETCH :: flags64 where
  "INST_FETCH = 0x100"

definition PHYSICAL :: flags64 where
  "PHYSICAL = 0x200"

definition UNCACHEABLE :: flags64 where
  "UNCACHEABLE = 0x400"

definition STRICT_ORDER :: flags64 where
  "STRICT_ORDER = 0x800"

definition PRIVILEGED :: flags64 where
  "PRIVILEGED = 0x8000"

definition CACHE_BLOCK_ZERO :: flags64 where
  "CACHE_BLOCK_ZERO = 0x10000"

definition NO_ACCESS :: flags64 where
  "NO_ACCESS = 0x80000"

definition LOCKED_RMW :: flags64 where
  "LOCKED_RMW = 0x100000"

definition LLSC :: flags64 where
  "LLSC = 0x200000"

definition MEM_SWAP :: flags64 where
  "MEM_SWAP = 0x400000"

definition MEM_SWAP_COND :: flags64 where
  "MEM_SWAP_COND = 0x800000"

definition READ_MODIFY_WRITE :: flags64 where
  "READ_MODIFY_WRITE = 0x20000000000000"

definition PREFETCH :: flags64 where
  "PREFETCH = 0x1000000"

definition SPMCP_NOALLOC :: flags64 where
  "SPMCP_NOALLOC = 0x100000000000"

definition PF_EXCLUSIVE :: flags64 where
  "PF_EXCLUSIVE = 0x2000000"

definition EVICT_NEXT :: flags64 where
  "EVICT_NEXT = 0x4000000"

definition ACQUIRE :: flags64 where
  "ACQUIRE = 0x20000"

definition RELEASE :: flags64 where
  "RELEASE = 0x40000"

definition ATOMIC_RETURN_OP :: flags64 where
  "ATOMIC_RETURN_OP = 0x40000000"

definition ATOMIC_NO_RETURN_OP :: flags64 where
  "ATOMIC_NO_RETURN_OP = 0x80000000"

definition KERNEL :: flags64 where
  "KERNEL = 0x1000"

definition SECURE :: flags64 where
  "SECURE = 0x10000000"

definition PT_WALK :: flags64 where
  "PT_WALK = 0x20000000"

definition INVALIDATE :: flags64 where
  "INVALIDATE = 0x100000000"

definition CLEAN :: flags64 where
  "CLEAN = 0x200000000"

definition DST_POU :: flags64 where
  "DST_POU = 0x1000000000"

definition DST_POC :: flags64 where
  "DST_POC = 0x2000000000"

definition DST_BITS :: flags64 where
  "DST_BITS = 0x3000000000"

definition HTM_START :: flags64 where
  "HTM_START = 0x10000000000"

definition HTM_COMMIT :: flags64 where
  "HTM_COMMIT = 0x20000000000"

definition HTM_CANCEL :: flags64 where
  "HTM_CANCEL = 0x40000000000"

definition HTM_ABORT :: flags64 where
  "HTM_ABORT = 0x80000000000"

definition TLBI :: flags64 where
  "TLBI = 0x100000000000"

definition TLBI_SYNC :: flags64 where
  "TLBI_SYNC = 0x200000000000"

definition TLBI_EXT_SYNC :: flags64 where
  "TLBI_EXT_SYNC = 0x400000000000"

definition TLBI_EXT_SYNC_COMP :: flags64 where
  "TLBI_EXT_SYNC_COMP = 0x800000000000"

definition STICKY_FLAGS :: flags64 where
  "STICKY_FLAGS = INST_FETCH"

definition HAS_NO_ADDR :: flags64 where
  "HAS_NO_ADDR = 0x1000000000000"

definition SPM_STORE :: flags64 where
  "SPM_STORE = 0x2000000000000"

definition SPM_LOAD :: flags64 where
  "SPM_LOAD = 0x4000000000000"

definition SPM_WRITEBACK :: flags64 where
  "SPM_WRITEBACK = 0x8000000000000"

definition CP_TO_SPM :: flags64 where
  "CP_TO_SPM = 0x10000000000000"

definition SPM_SIZE_1 :: flags64 where
  "SPM_SIZE_1 = 0x40000000000000"

definition SPM_SIZE_2 :: flags64 where
  "SPM_SIZE_2 = 0x80000000000000"

definition SPM_SIZE_4 :: flags64 where
  "SPM_SIZE_4 = 0x100000000000000"

definition SPM_SIZE_8 :: flags64 where
  "SPM_SIZE_8 = 0x200000000000000"

definition SPM_SIZE_16 :: flags64 where
  "SPM_SIZE_16 = 0x400000000000000"

definition SPM_SIZE_32 :: flags64 where
  "SPM_SIZE_32 = 0x800000000000000"

definition SPM_SIZE_64 :: flags64 where
  "SPM_SIZE_64 = 0x1000000000000000"

definition NO_L1_ALLOC :: flags64 where
  "NO_L1_ALLOC = 0x2000000000000000"

definition PIN_L1_KEEP :: flags64 where
  "PIN_L1_KEEP = 0x4000000000000000"

definition STORE_NO_DATA :: flags64 where
  "STORE_NO_DATA = CACHE_BLOCK_ZERO OR CLEAN OR INVALIDATE"

definition HTM_CMD :: flags64 where
  "HTM_CMD = HTM_START OR HTM_COMMIT OR HTM_CANCEL OR HTM_ABORT"

definition TLBI_CMD :: flags64 where
  "TLBI_CMD = TLBI OR TLBI_SYNC OR TLBI_EXT_SYNC OR TLBI_EXT_SYNC_COMP"

definition SPM_CMD :: flags64 where
  "SPM_CMD = SPM_STORE OR SPM_LOAD OR SPM_WRITEBACK OR CP_TO_SPM"

named_theorems request_flag_defs "values of the request flags, for evaluation"

lemmas [request_flag_defs] =
  ARCH_BITS_def INST_FETCH_def PHYSICAL_def UNCACHEABLE_def STRICT_ORDER_def PRIVILEGED_def 
  CACHE_BLOCK_ZERO_def NO_ACCESS_def LOCKED_RMW_def LLSC_def MEM_SWAP_def MEM_SWAP_COND_def 
  READ_MODIFY_WRITE_def PREFETCH_def SPMCP_NOALLOC_def PF_EXCLUSIVE_def EVICT_NEXT_def 
  ACQUIRE_def RELEASE_def ATOMIC_RETURN_OP_def ATOMIC_NO_RETURN_OP_def KERNEL_def 
  SECURE_def PT_WALK_def INVALIDATE_def CLEAN_def DST_POU_def DST_POC_def DST_BITS_def 
  HTM_START_def HTM_COMMIT_def HTM_CANCEL_def HTM_ABORT_def TLBI_def TLBI_SYNC_def 
  TLBI_EXT_SYNC_def TLBI_EXT_SYNC_COMP_def STICKY_FLAGS_def HAS_NO_ADDR_def SPM_STORE_def 
  SPM_LOAD_def SPM_WRITEBACK_def CP_TO_SPM_def SPM_SIZE_1_def SPM_SIZE_2_def SPM_SIZE_4_def 
  SPM_SIZE_8_def SPM_SIZE_16_def SPM_SIZE_32_def SPM_SIZE_64_def NO_L1_ALLOC_def 
  PIN_L1_KEEP_def STORE_NO_DATA_def HTM_CMD_def TLBI_CMD_def SPM_CMD_def

section \<open>The request object\<close>

text \<open>
  \<open>atomicOp\<close> is the functor of an atomic memory operation, a function on the bytes it
  updates. The request time, the program counter and the GPU and statistics fields are
  not used by the caches and are left out.
\<close>

definition REQ_VALID_SIZE :: "16 word" where
  "REQ_VALID_SIZE = 0x1"

definition REQ_VALID_PADDR :: "16 word" where
  "REQ_VALID_PADDR = 0x2"

definition REQ_VALID_VADDR :: "16 word" where
  "REQ_VALID_VADDR = 0x4"

definition REQ_VALID_CONTEXT_ID :: "16 word" where
  "REQ_VALID_CONTEXT_ID = 0x20"

definition REQ_VALID_EXTRA_DATA :: "16 word" where
  "REQ_VALID_EXTRA_DATA = 0x80"

lemmas private_flag_defs =
  REQ_VALID_SIZE_def REQ_VALID_PADDR_def REQ_VALID_VADDR_def REQ_VALID_CONTEXT_ID_def
  REQ_VALID_EXTRA_DATA_def

definition wbRequestorId :: nat where
  "wbRequestorId = 0"

definition invldRequestorId :: nat where
  "invldRequestorId = 2 ^ 16 - 1"

record request =
  paddr :: addr
  rsize :: nat
  byteEnable :: "bool list"
  requestorId :: nat
  rflags :: flags64
  privateFlags :: "16 word"
  taskId :: nat
  vaddr :: addr
  extraData :: "64 word"
  contextId :: int
  atomicOp :: "(byte list \<Rightarrow> byte list) option"

text \<open>\<^verbatim>\<open>context_switch_task_id::Unknown\<close>, the task id of a new request.\<close>

definition unknown_task_id :: nat where
  "unknown_task_id = 1024"

definition Request_paddr :: "addr \<Rightarrow> nat \<Rightarrow> flags64 \<Rightarrow> nat \<Rightarrow> request" where
  "Request_paddr pa sz fl rid =
     \<lparr>paddr = pa, rsize = sz, byteEnable = replicate sz True, requestorId = rid, rflags = fl,
      privateFlags = REQ_VALID_PADDR OR REQ_VALID_SIZE, taskId = unknown_task_id,
      vaddr = MaxAddr, extraData = 0, contextId = - 1, atomicOp = None\<rparr>"

section \<open>Accessors\<close>

definition hasPaddr :: "request \<Rightarrow> bool" where
  "hasPaddr r \<longleftrightarrow> flag_isSet (privateFlags r) REQ_VALID_PADDR"

definition hasVaddr :: "request \<Rightarrow> bool" where
  "hasVaddr r \<longleftrightarrow> flag_isSet (privateFlags r) REQ_VALID_VADDR"

definition hasSize :: "request \<Rightarrow> bool" where
  "hasSize r \<longleftrightarrow> flag_isSet (privateFlags r) REQ_VALID_SIZE"

definition setPaddr :: "addr \<Rightarrow> request \<Rightarrow> request" where
  "setPaddr pa r = r\<lparr>paddr := pa, privateFlags := flag_set (privateFlags r) REQ_VALID_PADDR\<rparr>"

definition setContext :: "int \<Rightarrow> request \<Rightarrow> request" where
  "setContext c r =
     r\<lparr>contextId := c, privateFlags := flag_set (privateFlags r) REQ_VALID_CONTEXT_ID\<rparr>"

definition setFlags :: "flags64 \<Rightarrow> request \<Rightarrow> request res" where
  "setFlags fl r = must (hasPaddr r \<or> hasVaddr r) (Inr (r\<lparr>rflags := flag_set (rflags r) fl\<rparr>))"

definition clearFlags :: "flags64 \<Rightarrow> request \<Rightarrow> request res" where
  "clearFlags fl r = must (hasPaddr r \<or> hasVaddr r) (Inr (r\<lparr>rflags := flag_clear (rflags r) fl\<rparr>))"

definition setByteEnable :: "bool list \<Rightarrow> request \<Rightarrow> request res" where
  "setByteEnable be r = must (length be = rsize r) (Inr (r\<lparr>byteEnable := be\<rparr>))"

definition isMasked :: "request \<Rightarrow> bool" where
  "isMasked r \<longleftrightarrow> False \<in> set (byteEnable r)"

definition extraDataValid :: "request \<Rightarrow> bool" where
  "extraDataValid r \<longleftrightarrow> flag_isSet (privateFlags r) REQ_VALID_EXTRA_DATA"

definition getExtraData :: "request \<Rightarrow> 64 word res" where
  "getExtraData r = must (extraDataValid r) (Inr (extraData r))"

definition setExtraData :: "64 word \<Rightarrow> request \<Rightarrow> request" where
  "setExtraData x r =
     r\<lparr>extraData := x, privateFlags := flag_set (privateFlags r) REQ_VALID_EXTRA_DATA\<rparr>"

text \<open>Splitting a multi-line access at a virtual address: both halves copy every other field.\<close>

definition splitOnVaddr :: "addr \<Rightarrow> request \<Rightarrow> (request \<times> request) res" where
  "splitOnVaddr split_addr r =
     must (hasVaddr r) (must (\<not> hasPaddr r)
       (must (vaddr r < split_addr \<and> split_addr < vaddr r + of_nat (rsize r))
         (let n1 = unat (split_addr - vaddr r)
          in Inr (r\<lparr>rsize := n1, byteEnable := take n1 (byteEnable r)\<rparr>,
                  r\<lparr>vaddr := split_addr, rsize := rsize r - n1,
                    byteEnable := drop n1 (byteEnable r)\<rparr>))))"

section \<open>Flag predicates\<close>

definition getSPMSizeFromFlags :: "flags64 \<Rightarrow> nat" where
  "getSPMSizeFromFlags fl =
     (if flag_isSet fl SPM_SIZE_1 then 1
      else if flag_isSet fl SPM_SIZE_2 then 2
      else if flag_isSet fl SPM_SIZE_4 then 4
      else if flag_isSet fl SPM_SIZE_8 then 8
      else if flag_isSet fl SPM_SIZE_16 then 16
      else if flag_isSet fl SPM_SIZE_32 then 32
      else if flag_isSet fl SPM_SIZE_64 then 64
      else 0)"

definition isCPtoSPM :: "request \<Rightarrow> bool" where
  "isCPtoSPM r \<longleftrightarrow> flag_isSet (rflags r) CP_TO_SPM"

definition isSPMWriteback :: "request \<Rightarrow> bool" where
  "isSPMWriteback r \<longleftrightarrow> flag_isSet (rflags r) SPM_WRITEBACK"

definition isSPMLoad :: "request \<Rightarrow> bool" where
  "isSPMLoad r \<longleftrightarrow> flag_isSet (rflags r) SPM_LOAD"

definition isSPMStore :: "request \<Rightarrow> bool" where
  "isSPMStore r \<longleftrightarrow> flag_isSet (rflags r) SPM_STORE"

definition isUncacheable :: "request \<Rightarrow> bool" where
  "isUncacheable r \<longleftrightarrow> flag_isSet (rflags r) UNCACHEABLE"

definition isSpmcpNoAlloc :: "request \<Rightarrow> bool" where
  "isSpmcpNoAlloc r \<longleftrightarrow> flag_isSet (rflags r) SPMCP_NOALLOC"

definition isNoL1Alloc :: "request \<Rightarrow> bool" where
  "isNoL1Alloc r \<longleftrightarrow> flag_isSet (rflags r) NO_L1_ALLOC"

definition isPinL1Keep :: "request \<Rightarrow> bool" where
  "isPinL1Keep r \<longleftrightarrow> flag_isSet (rflags r) PIN_L1_KEEP"

definition req_isPrefetch :: "request \<Rightarrow> bool" where
  "req_isPrefetch r \<longleftrightarrow> flag_isSet (rflags r) (PREFETCH OR PF_EXCLUSIVE)"

definition isPrefetchEx :: "request \<Rightarrow> bool" where
  "isPrefetchEx r \<longleftrightarrow> flag_isSet (rflags r) PF_EXCLUSIVE"

definition req_isLLSC :: "request \<Rightarrow> bool" where
  "req_isLLSC r \<longleftrightarrow> flag_isSet (rflags r) LLSC"

definition req_isLockedRMW :: "request \<Rightarrow> bool" where
  "req_isLockedRMW r \<longleftrightarrow> flag_isSet (rflags r) LOCKED_RMW"

definition isSwap :: "request \<Rightarrow> bool" where
  "isSwap r \<longleftrightarrow> flag_isSet (rflags r) (MEM_SWAP OR MEM_SWAP_COND)"

definition isCondSwap :: "request \<Rightarrow> bool" where
  "isCondSwap r \<longleftrightarrow> flag_isSet (rflags r) MEM_SWAP_COND"

definition isReadModifyWrite :: "request \<Rightarrow> bool" where
  "isReadModifyWrite r \<longleftrightarrow> flag_isSet (rflags r) (LOCKED_RMW OR READ_MODIFY_WRITE)"

definition req_isSecure :: "request \<Rightarrow> bool" where
  "req_isSecure r \<longleftrightarrow> flag_isSet (rflags r) SECURE"

definition isHTMStart :: "request \<Rightarrow> bool" where
  "isHTMStart r \<longleftrightarrow> flag_isSet (rflags r) HTM_START"

definition isHTMCommit :: "request \<Rightarrow> bool" where
  "isHTMCommit r \<longleftrightarrow> flag_isSet (rflags r) HTM_COMMIT"

definition isHTMCancel :: "request \<Rightarrow> bool" where
  "isHTMCancel r \<longleftrightarrow> flag_isSet (rflags r) HTM_CANCEL"

definition isHTMAbort :: "request \<Rightarrow> bool" where
  "isHTMAbort r \<longleftrightarrow> flag_isSet (rflags r) HTM_ABORT"

definition isCacheClean :: "request \<Rightarrow> bool" where
  "isCacheClean r \<longleftrightarrow> flag_isSet (rflags r) CLEAN"

definition isCacheInvalidate :: "request \<Rightarrow> bool" where
  "isCacheInvalidate r \<longleftrightarrow> flag_isSet (rflags r) INVALIDATE"

definition isCacheMaintenance :: "request \<Rightarrow> bool" where
  "isCacheMaintenance r \<longleftrightarrow> flag_isSet (rflags r) (CLEAN OR INVALIDATE)"

definition isHTMCmd :: "request \<Rightarrow> bool" where
  "isHTMCmd r \<longleftrightarrow> isHTMStart r \<or> isHTMCommit r \<or> isHTMCancel r \<or> isHTMAbort r"

definition isAtomic :: "request \<Rightarrow> bool" where
  "isAtomic r \<longleftrightarrow> flag_isSet (rflags r) ATOMIC_RETURN_OP \<or> flag_isSet (rflags r) ATOMIC_NO_RETURN_OP"

definition getDest :: "request \<Rightarrow> flags64" where
  "getDest r = rflags r AND DST_BITS"

named_theorems request_pred_defs "flag predicates of requests, for unfolding"

lemmas [request_pred_defs] =
  isCPtoSPM_def isSPMWriteback_def isSPMLoad_def isSPMStore_def isUncacheable_def 
  isSpmcpNoAlloc_def isNoL1Alloc_def isPinL1Keep_def 
  req_isPrefetch_def isPrefetchEx_def req_isLLSC_def 
  req_isLockedRMW_def isSwap_def isCondSwap_def isReadModifyWrite_def req_isSecure_def 
  isHTMStart_def isHTMCommit_def isHTMCancel_def isHTMAbort_def
  isCacheClean_def isCacheInvalidate_def isCacheMaintenance_def isHTMCmd_def 
  isAtomic_def getDest_def

section \<open>Facts about the flags\<close>

text \<open>The scratchpad flags do not overlap each other or the older flags next to them.\<close>

lemma spm_op_flags_disjoint:
  "SPM_STORE AND SPM_LOAD = 0" "SPM_STORE AND SPM_WRITEBACK = 0" "SPM_STORE AND CP_TO_SPM = 0"
  "SPM_LOAD AND SPM_WRITEBACK = 0" "SPM_LOAD AND CP_TO_SPM = 0" "SPM_WRITEBACK AND CP_TO_SPM = 0"
  "SPM_CMD AND READ_MODIFY_WRITE = 0" "SPM_CMD AND HAS_NO_ADDR = 0"
  by (simp_all add: request_flag_defs)

lemma setFlags_rflags: "setFlags fl r = Inr r' \<Longrightarrow> rflags r' = flag_set (rflags r) fl"
  by (auto simp: setFlags_def)

end
