(* ===== verification/Packet.thy ===== *)
theory Packet
  imports Mem_Cmd Request
begin

text \<open>
  Packets (src/gem5/src/mem/packet.hh and packet.cc). A packet is a record held by value:
  the data pointer is the byte array it points to (or \<open>None\<close> for a null pointer), the
  sender-state chain is the list of the identities pushed on it, and the request is held by
  value. The address and size accessors assert that the field was set; packets built by the
  constructors below from a request with a physical address and a size always have both,
  which \<open>packet_valid\<close> records. The contents of freshly allocated data are an argument of
  the operations that allocate.
\<close>

section \<open>Packet flags\<close>

definition COPY_FLAGS :: flags32 where
  "COPY_FLAGS = 0xFF OR 0x20000"

definition SPMCP_ORIGIN :: flags32 where
  "SPMCP_ORIGIN = 0x20000"

definition RESPONDER_FLAGS :: flags32 where
  "RESPONDER_FLAGS = 0x9"

definition HAS_SHARERS :: flags32 where
  "HAS_SHARERS = 0x1"

definition EXPRESS_SNOOP :: flags32 where
  "EXPRESS_SNOOP = 0x2"

definition RESPONDER_HAD_WRITABLE :: flags32 where
  "RESPONDER_HAD_WRITABLE = 0x4"

definition CACHE_RESPONDING :: flags32 where
  "CACHE_RESPONDING = 0x8"

definition WRITE_THROUGH :: flags32 where
  "WRITE_THROUGH = 0x10"

definition SATISFIED :: flags32 where
  "SATISFIED = 0x20"

definition FAILS_TRANSACTION :: flags32 where
  "FAILS_TRANSACTION = 0x40"

definition FROM_TRANSACTION :: flags32 where
  "FROM_TRANSACTION = 0x80"

definition VALID_ADDR :: flags32 where
  "VALID_ADDR = 0x100"

definition VALID_SIZE :: flags32 where
  "VALID_SIZE = 0x200"

definition STATIC_DATA :: flags32 where
  "STATIC_DATA = 0x1000"

definition DYNAMIC_DATA :: flags32 where
  "DYNAMIC_DATA = 0x2000"

definition SUPPRESS_FUNC_ERROR :: flags32 where
  "SUPPRESS_FUNC_ERROR = 0x8000"

definition BLOCK_CACHED :: flags32 where
  "BLOCK_CACHED = 0x10000"

named_theorems packet_flag_defs "values of the packet flags, for evaluation"

lemmas [packet_flag_defs] =
  COPY_FLAGS_def SPMCP_ORIGIN_def RESPONDER_FLAGS_def HAS_SHARERS_def EXPRESS_SNOOP_def
  RESPONDER_HAD_WRITABLE_def CACHE_RESPONDING_def WRITE_THROUGH_def SATISFIED_def
  FAILS_TRANSACTION_def FROM_TRANSACTION_def
  VALID_ADDR_def VALID_SIZE_def STATIC_DATA_def DYNAMIC_DATA_def SUPPRESS_FUNC_ERROR_def
  BLOCK_CACHED_def

section \<open>The packet object\<close>

text \<open>
  The sender state is a stack of objects pushed by the components a request passes; the
  caches push the MSHR that is waiting for the response and look for one by dynamic cast.
\<close>

datatype sender_state = MSHR_state nat | Other_state nat

record packet =
  pflags :: flags32
  cmd :: mem_cmd
  req :: request
  SPMresp :: bool
  SPM_LDST_resp :: bool
  L1find :: bool
  L2find :: bool
  pdata :: "byte list option"
  pkt_addr :: addr
  pkt_secure :: bool
  pkt_size :: nat
  slotidx :: addr
  spm_size :: nat
  bytesValid :: "bool list"
  htmReturnReason :: nat
  htmTransactionUid :: "64 word"
  headerDelay :: nat
  snoopDelay :: nat
  payloadDelay :: nat
  senderState :: "sender_state list"

definition packet_valid :: "packet \<Rightarrow> bool" where
  "packet_valid p \<longleftrightarrow> flag_isSet (pflags p) VALID_ADDR \<and> flag_isSet (pflags p) VALID_SIZE"

definition getAddr :: "packet \<Rightarrow> addr" where
  "getAddr p = pkt_addr p"

definition getSize :: "packet \<Rightarrow> nat" where
  "getSize p = pkt_size p"

definition isSecure :: "packet \<Rightarrow> bool" where
  "isSecure p = pkt_secure p"

definition getSlot :: "packet \<Rightarrow> addr" where
  "getSlot p = slotidx p"

definition setSlot :: "addr \<Rightarrow> packet \<Rightarrow> packet res" where
  "setSlot a p = must (flag_isSet (pflags p) VALID_ADDR) (Inr (p\<lparr>slotidx := a\<rparr>))"

definition getSpmSize :: "packet \<Rightarrow> nat" where
  "getSpmSize p = spm_size p"

text \<open>\<^verbatim>\<open>Addr(blk_size - 1)\<close>: the subtraction is done on a 32-bit unsigned.\<close>

definition blk_mask :: "nat \<Rightarrow> addr" where
  "blk_mask blk_size = ucast (of_nat blk_size - 1 :: 32 word)"

definition getOffset :: "nat \<Rightarrow> packet \<Rightarrow> addr" where
  "getOffset blk_size p = getAddr p AND blk_mask blk_size"

definition getBlockAddr :: "nat \<Rightarrow> packet \<Rightarrow> addr" where
  "getBlockAddr blk_size p = getAddr p AND NOT (blk_mask blk_size)"

definition isMaskedWrite :: "packet \<Rightarrow> bool" where
  "isMaskedWrite p \<longleftrightarrow> cmd p = WriteReq \<and> isMasked (req p)"

definition isWholeLineWrite :: "nat \<Rightarrow> packet \<Rightarrow> bool" where
  "isWholeLineWrite blk_size p \<longleftrightarrow>
     (cmd p = WriteReq \<or> cmd p = WriteLineReq) \<and> getOffset blk_size p = 0 \<and>
     getSize p = blk_size \<and> \<not> isMaskedWrite p"

definition hasRespData :: "packet \<Rightarrow> bool" where
  "hasRespData p \<longleftrightarrow> hasData (responseCommand (cmd p))"

definition mustCheckAbove :: "packet \<Rightarrow> bool" where
  "mustCheckAbove p \<longleftrightarrow> cmd p = HardPFReq \<or> isEviction (cmd p)"

definition isCleanEviction :: "packet \<Rightarrow> bool" where
  "isCleanEviction p \<longleftrightarrow> cmd p = CleanEvict \<or> cmd p = WritebackClean"

definition isCleanInvalidateRequest :: "packet \<Rightarrow> bool" where
  "isCleanInvalidateRequest p \<longleftrightarrow> cmd p = CleanInvalidReq"

section \<open>Snoop and response flags\<close>

definition setCacheResponding :: "packet \<Rightarrow> packet res" where
  "setCacheResponding p =
     must (isRequest (cmd p)) (must (\<not> flag_isSet (pflags p) CACHE_RESPONDING)
       (Inr (p\<lparr>pflags := flag_set (pflags p) CACHE_RESPONDING\<rparr>)))"

definition cacheResponding :: "packet \<Rightarrow> bool" where
  "cacheResponding p \<longleftrightarrow> flag_isSet (pflags p) CACHE_RESPONDING"

definition setHasSharers :: "packet \<Rightarrow> packet" where
  "setHasSharers p = p\<lparr>pflags := flag_set (pflags p) HAS_SHARERS\<rparr>"

definition hasSharers :: "packet \<Rightarrow> bool" where
  "hasSharers p \<longleftrightarrow> flag_isSet (pflags p) HAS_SHARERS"

definition setExpressSnoop :: "packet \<Rightarrow> packet" where
  "setExpressSnoop p = p\<lparr>pflags := flag_set (pflags p) EXPRESS_SNOOP\<rparr>"

definition isExpressSnoop :: "packet \<Rightarrow> bool" where
  "isExpressSnoop p \<longleftrightarrow> flag_isSet (pflags p) EXPRESS_SNOOP"

definition responderHadWritable :: "packet \<Rightarrow> bool" where
  "responderHadWritable p \<longleftrightarrow> flag_isSet (pflags p) RESPONDER_HAD_WRITABLE"

definition setResponderHadWritable :: "packet \<Rightarrow> packet res" where
  "setResponderHadWritable p =
     must (cacheResponding p) (must (\<not> responderHadWritable p)
       (Inr (p\<lparr>pflags := flag_set (pflags p) RESPONDER_HAD_WRITABLE\<rparr>)))"

definition copyResponderFlags :: "packet \<Rightarrow> packet \<Rightarrow> packet res" where
  "copyResponderFlags src p =
     must (isRequest (cmd p)) (must (\<not> cacheResponding src \<or> \<not> cacheResponding p)
       (Inr (p\<lparr>pflags := flag_set (pflags p) (pflags src AND RESPONDER_FLAGS)\<rparr>)))"

definition setSpmcpOrigin :: "packet \<Rightarrow> packet" where
  "setSpmcpOrigin p = p\<lparr>pflags := flag_set (pflags p) SPMCP_ORIGIN\<rparr>"

definition isSpmcpOrigin :: "packet \<Rightarrow> bool" where
  "isSpmcpOrigin p \<longleftrightarrow> flag_isSet (pflags p) SPMCP_ORIGIN"

definition setWriteThrough :: "packet \<Rightarrow> packet res" where
  "setWriteThrough p =
     must (isWrite (cmd p) \<and> (isEviction (cmd p) \<or> cmd p = WriteClean))
       (Inr (p\<lparr>pflags := flag_set (pflags p) WRITE_THROUGH\<rparr>))"

definition clearWriteThrough :: "packet \<Rightarrow> packet" where
  "clearWriteThrough p = p\<lparr>pflags := flag_clear (pflags p) WRITE_THROUGH\<rparr>"

definition writeThrough :: "packet \<Rightarrow> bool" where
  "writeThrough p \<longleftrightarrow> flag_isSet (pflags p) WRITE_THROUGH"

definition setSatisfied :: "packet \<Rightarrow> packet res" where
  "setSatisfied p =
     must (isClean (cmd p)) (must (\<not> flag_isSet (pflags p) SATISFIED)
       (Inr (p\<lparr>pflags := flag_set (pflags p) SATISFIED\<rparr>)))"

definition satisfied :: "packet \<Rightarrow> bool" where
  "satisfied p \<longleftrightarrow> flag_isSet (pflags p) SATISFIED"

definition setBlockCached :: "packet \<Rightarrow> packet" where
  "setBlockCached p = p\<lparr>pflags := flag_set (pflags p) BLOCK_CACHED\<rparr>"

definition isBlockCached :: "packet \<Rightarrow> bool" where
  "isBlockCached p \<longleftrightarrow> flag_isSet (pflags p) BLOCK_CACHED"

definition clearBlockCached :: "packet \<Rightarrow> packet" where
  "clearBlockCached p = p\<lparr>pflags := flag_clear (pflags p) BLOCK_CACHED\<rparr>"

section \<open>Construction and copying\<close>

definition Packet_new :: "request \<Rightarrow> mem_cmd \<Rightarrow> packet res" where
  "Packet_new r c =
     (let a = (if hasPaddr r then paddr r else 0);
          f1 = (if hasPaddr r then VALID_ADDR else 0);
          f2 = (if isHTMCmd r then flag_set f1 VALID_ADDR else f1);
          f3 = (if hasSize r then flag_set f2 VALID_SIZE else f2)
      in must (isHTMCmd r \<longrightarrow> a = 0)
          (Inr \<lparr>pflags = f3, cmd = c, req = r, SPMresp = False, SPM_LDST_resp = False,
             L1find = False, L2find = False, pdata = None, pkt_addr = a,
             pkt_secure = (hasPaddr r \<and> req_isSecure r),
             pkt_size = (if hasSize r then rsize r else 0), slotidx = 0,
             spm_size = getSPMSizeFromFlags (rflags r), bytesValid = [], htmReturnReason = 0,
             htmTransactionUid = 0, headerDelay = 0, snoopDelay = 0, payloadDelay = 0, senderState = []\<rparr>))"

text \<open>\<^verbatim>\<open>~(_blkSize - 1)\<close> is computed on a signed 32-bit value and sign-extended.\<close>

definition Packet_blk :: "request \<Rightarrow> mem_cmd \<Rightarrow> nat \<Rightarrow> packet" where
  "Packet_blk r c blk_size =
     \<lparr>pflags = flag_set (if hasPaddr r then VALID_ADDR else 0) VALID_SIZE, cmd = c, req = r,
      SPMresp = False, SPM_LDST_resp = False, L1find = False, L2find = False, pdata = None,
      pkt_addr = (if hasPaddr r
                  then paddr r AND scast (NOT (of_nat blk_size - 1 :: 32 word)) else 0),
      pkt_secure = (hasPaddr r \<and> req_isSecure r), pkt_size = blk_size, slotidx = 0,
      spm_size = 0, bytesValid = [], htmReturnReason = 0, htmTransactionUid = 0,
      headerDelay = 0, snoopDelay = 0, payloadDelay = 0, senderState = []\<rparr>"

definition allocate :: "(nat \<Rightarrow> byte list) \<Rightarrow> packet \<Rightarrow> packet res" where
  "allocate fresh p =
     (if hasData (cmd p) \<or> hasRespData p
      then must (\<not> flag_isSet (pflags p) (STATIC_DATA OR DYNAMIC_DATA))
             (Inr (p\<lparr>pflags := flag_set (pflags p) DYNAMIC_DATA, pdata := Some (fresh (getSize p))\<rparr>))
      else Inr p)"

definition deleteData :: "packet \<Rightarrow> packet" where
  "deleteData p =
     p\<lparr>pflags := flag_clear (pflags p) (STATIC_DATA OR DYNAMIC_DATA), pdata := None\<rparr>"

definition setHtmTransactionFailedInCache :: "nat \<Rightarrow> packet \<Rightarrow> packet" where
  "setHtmTransactionFailedInCache rc p =
     (let f = (if rc \<noteq> 0 then flag_set (pflags p) FAILS_TRANSACTION else pflags p)
      in p\<lparr>pflags := f, htmReturnReason := rc\<rparr>)"

definition htmTransactionFailedInCache :: "packet \<Rightarrow> bool" where
  "htmTransactionFailedInCache p \<longleftrightarrow> flag_isSet (pflags p) FAILS_TRANSACTION"

definition setHtmTransactional :: "64 word \<Rightarrow> packet \<Rightarrow> packet" where
  "setHtmTransactional uid p =
     p\<lparr>pflags := flag_set (pflags p) FROM_TRANSACTION, htmTransactionUid := uid\<rparr>"

definition isHtmTransactional :: "packet \<Rightarrow> bool" where
  "isHtmTransactional p \<longleftrightarrow> flag_isSet (pflags p) FROM_TRANSACTION"

text \<open>
  The copy constructor: only the transferable flags and the validity flags are carried over,
  and the CacheFlex fields start again from their defaults.
\<close>

definition Packet_copy :: "(nat \<Rightarrow> byte list) \<Rightarrow> packet \<Rightarrow> bool \<Rightarrow> bool \<Rightarrow> packet res" where
  "Packet_copy fresh p clear_flags alloc_data =
     (let f0 = (if clear_flags then 0 else pflags p AND COPY_FLAGS);
          f1 = flag_set f0 (pflags p AND (VALID_ADDR OR VALID_SIZE));
          q = \<lparr>pflags = f1, cmd = cmd p, req = req p, SPMresp = False, SPM_LDST_resp = False,
               L1find = False, L2find = False, pdata = None, pkt_addr = pkt_addr p,
               pkt_secure = pkt_secure p, pkt_size = pkt_size p, slotidx = 0, spm_size = 0,
               bytesValid = bytesValid p, htmReturnReason = 0, htmTransactionUid = 0,
               headerDelay = headerDelay p, snoopDelay = 0, payloadDelay = payloadDelay p,
               senderState = senderState p\<rparr>;
          q1 = (if isHtmTransactional p then setHtmTransactional (htmTransactionUid p) q else q);
          q2 = (if htmTransactionFailedInCache p
                then setHtmTransactionFailedInCache (htmReturnReason p) q1 else q1)
      in if alloc_data
         then (if flag_isSet (pflags p) STATIC_DATA
               then Inr (q2\<lparr>pdata := pdata p, pflags := flag_set (pflags q2) STATIC_DATA\<rparr>)
               else allocate fresh q2)
         else Inr q2)"

definition makeReadCmd :: "request \<Rightarrow> mem_cmd" where
  "makeReadCmd r =
     (if isHTMCmd r then (if isHTMAbort r then HTMAbort else HTMReq)
      else if req_isLLSC r then LoadLockedReq
      else if isPrefetchEx r then SoftPFExReq
      else if req_isPrefetch r then SoftPFReq
      else if req_isLockedRMW r then LockedRMWReadReq
      else if isSPMLoad r then SPMLoadReq
      else ReadReq)"

definition makeWriteCmd :: "request \<Rightarrow> mem_cmd" where
  "makeWriteCmd r =
     (if req_isLLSC r then StoreCondReq
      else if isSwap r \<or> isAtomic r then SwapReq
      else if isCacheInvalidate r then (if isCacheClean r then CleanInvalidReq else InvalidateReq)
      else if isCacheClean r then CleanSharedReq
      else if req_isLockedRMW r then LockedRMWWriteReq
      else if isCPtoSPM r then CPTOSPMReq
      else if isSPMWriteback r then SPMWritebackReq
      else if isSPMStore r then SPMStoreReq
      else WriteReq)"

definition createRead :: "request \<Rightarrow> packet res" where
  "createRead r = Packet_new r (makeReadCmd r)"

definition createWrite :: "request \<Rightarrow> packet res" where
  "createWrite r = Packet_new r (makeWriteCmd r)"

section \<open>Turning a request into a response\<close>

definition makeResponse :: "packet \<Rightarrow> packet res" where
  "makeResponse p =
     must (needsResponse (cmd p)) (must (isRequest (cmd p))
       (Inr (p\<lparr>cmd := responseCommand (cmd p), pflags := flag_clear (pflags p) EXPRESS_SNOOP\<rparr>)))"

definition setFunctionalResponseStatus :: "bool \<Rightarrow> packet \<Rightarrow> packet" where
  "setFunctionalResponseStatus success p =
     (if success then p
      else p\<lparr>cmd := (if isWrite (cmd p) then FunctionalWriteError else FunctionalReadError)\<rparr>)"

definition setBadAddress :: "packet \<Rightarrow> packet res" where
  "setBadAddress p = must (isResponse (cmd p)) (Inr (p\<lparr>cmd := BadAddressError\<rparr>))"

definition setBadCommand :: "packet \<Rightarrow> packet res" where
  "setBadCommand p =
     must (isResponse (cmd p))
       (Inr (p\<lparr>cmd := (if isWrite (cmd p) then WriteError else ReadError)\<rparr>))"

definition copyError :: "packet \<Rightarrow> packet \<Rightarrow> packet res" where
  "copyError src p = must (isError (cmd src)) (Inr (p\<lparr>cmd := cmd src\<rparr>))"

definition convertScToWrite :: "packet \<Rightarrow> packet res" where
  "convertScToWrite p =
     must (isLLSC (cmd p)) (must (isWrite (cmd p)) (Inr (p\<lparr>cmd := WriteReq\<rparr>)))"

definition convertLlToRead :: "packet \<Rightarrow> packet res" where
  "convertLlToRead p =
     must (isLLSC (cmd p)) (must (isRead (cmd p)) (Inr (p\<lparr>cmd := ReadReq\<rparr>)))"

definition setSize :: "nat \<Rightarrow> packet \<Rightarrow> packet res" where
  "setSize sz p =
     must (isSPMcmd (cmd p) \<or> \<not> flag_isSet (pflags p) VALID_SIZE)
       (Inr (p\<lparr>pkt_size := sz, pflags := flag_set (pflags p) VALID_SIZE\<rparr>))"

definition matchAddr :: "addr \<Rightarrow> bool \<Rightarrow> packet \<Rightarrow> bool" where
  "matchAddr a sec p \<longleftrightarrow> getAddr p = a \<and> isSecure p = sec"

definition matchBlockAddr :: "addr \<Rightarrow> bool \<Rightarrow> nat \<Rightarrow> packet \<Rightarrow> bool" where
  "matchBlockAddr a sec blk_size p \<longleftrightarrow> getBlockAddr blk_size p = a \<and> isSecure p = sec"

definition pushSenderState :: "sender_state \<Rightarrow> packet \<Rightarrow> packet" where
  "pushSenderState st p = p\<lparr>senderState := st # senderState p\<rparr>"

definition popSenderState :: "packet \<Rightarrow> (sender_state \<times> packet) res" where
  "popSenderState p =
     (case senderState p of [] \<Rightarrow> Inl Assertion
      | st # rest \<Rightarrow> Inr (st, p\<lparr>senderState := rest\<rparr>))"

text \<open>\<^verbatim>\<open>findNextSenderState<MSHR>\<close>: the first MSHR from the top of the stack.\<close>

fun next_mshr :: "sender_state list \<Rightarrow> nat option" where
  "next_mshr [] = None"
| "next_mshr (MSHR_state i # st) = Some i"
| "next_mshr (Other_state i # st) = next_mshr st"

definition findNextSenderState :: "packet \<Rightarrow> nat option" where
  "findNextSenderState p = next_mshr (senderState p)"

section \<open>Data movement\<close>

definition dataStatic :: "byte list \<Rightarrow> packet \<Rightarrow> packet res" where
  "dataStatic d p =
     must (\<not> flag_isSet (pflags p) (STATIC_DATA OR DYNAMIC_DATA))
       (Inr (p\<lparr>pdata := Some d, pflags := flag_set (pflags p) STATIC_DATA\<rparr>))"

definition dataDynamic :: "byte list \<Rightarrow> packet \<Rightarrow> packet res" where
  "dataDynamic d p =
     must (\<not> flag_isSet (pflags p) (STATIC_DATA OR DYNAMIC_DATA))
       (Inr (p\<lparr>pdata := Some d, pflags := flag_set (pflags p) DYNAMIC_DATA\<rparr>))"

text \<open>
  A data pointer is dereferenced only after one of the ownership flags was tested; every
  operation that sets a flag sets the pointer too, so the remaining \<open>None\<close> case (a null
  pointer with the flag set) is closed off as a failed assertion.
\<close>

definition getConstPtr :: "packet \<Rightarrow> byte list res" where
  "getConstPtr p =
     must (flag_isSet (pflags p) (STATIC_DATA OR DYNAMIC_DATA))
       (case pdata p of None \<Rightarrow> Inl Assertion | Some d \<Rightarrow> Inr d)"

definition getPtr :: "packet \<Rightarrow> byte list res" where
  "getPtr p = must (\<not> isMaskedWrite p) (getConstPtr p)"

text \<open>
  Copying from the packet's own static buffer is skipped by the code; by value it is the
  identity, so that branch needs no case of its own.
\<close>

definition setData :: "byte list \<Rightarrow> packet \<Rightarrow> packet res" where
  "setData src p = bindR (getPtr p) (\<lambda>d. Inr (p\<lparr>pdata := Some (memcpy d 0 src (getSize p))\<rparr>))"

definition setDataFromBlock :: "byte list \<Rightarrow> nat \<Rightarrow> packet \<Rightarrow> packet res" where
  "setDataFromBlock blk_data blk_size p =
     setData (drop (unat (getOffset blk_size p)) blk_data) p"

text \<open>\<open>writeData p mem off\<close> writes the packet's bytes to \<open>mem\<close> from \<open>off\<close> on.\<close>

definition writeData :: "packet \<Rightarrow> byte list \<Rightarrow> nat \<Rightarrow> byte list res" where
  "writeData p mem off =
     (if \<not> isMaskedWrite p
      then bindR (getConstPtr p) (\<lambda>d. Inr (memcpy mem off d (getSize p)))
      else must (length (byteEnable (req p)) = getSize p)
             (bindR (getConstPtr p) (\<lambda>d. Inr (masked_copy mem off d (byteEnable (req p))))))"

definition writeDataToBlock :: "packet \<Rightarrow> byte list \<Rightarrow> nat \<Rightarrow> byte list res" where
  "writeDataToBlock p blk_data blk_size = writeData p blk_data (unat (getOffset blk_size p))"

text \<open>\<^verbatim>\<open>getLE<uint64_t>\<close>: the first eight bytes as a little-endian number.\<close>

definition getLE64 :: "packet \<Rightarrow> 64 word res" where
  "getLE64 p =
     must (8 \<le> pkt_size p) (bindR (getConstPtr p) (\<lambda>d. Inr (word_rcat (rev (take 8 d)))))"

section \<open>Functional accesses against a value in flight\<close>

text \<open>
  \<open>trySatisfyFunctional p addr is_secure size data\<close> returns whether the access is
  complete, the updated packet and the updated value. A print request only prints.
\<close>

definition trySatisfyFunctional ::
  "packet \<Rightarrow> addr \<Rightarrow> bool \<Rightarrow> nat \<Rightarrow> byte list option \<Rightarrow> (bool \<times> packet \<times> byte list option) res" where
  "trySatisfyFunctional p a sec sz data =
     (let func_start = getAddr p;
          func_end = getAddr p + of_nat (getSize p) - 1;
          val_start = a;
          val_end = val_start + of_nat sz - 1
      in if sec \<noteq> pkt_secure p \<or> func_start > val_end \<or> val_start > func_end
         then Inr (False, p, data)
         else if isPrint (cmd p) then must (data = None) (Inr (False, p, data))
         else (case data of None \<Rightarrow> Inr (False, p, None)
          | Some d \<Rightarrow>
             (let val_offset = unat (if func_start > val_start then func_start - val_start else 0);
                  func_offset = unat (if func_start < val_start then val_start - func_start else 0);
                  overlap_size = unat (min val_end func_end + 1 - max val_start func_start)
              in if isRead (cmd p)
                 then bindR (getPtr p) (\<lambda>pd.
                   (let bv = (if bytesValid p = [] then replicate (getSize p) False
                              else bytesValid p);
                        before = list_all id (take func_offset bv);
                        bv' = memcpy bv func_offset (replicate overlap_size True) overlap_size;
                        after = list_all id (drop (func_offset + overlap_size) (take (getSize p) bv'))
                    in Inr (before \<and> after,
                            p\<lparr>pdata := Some (memcpy pd func_offset (drop val_offset d) overlap_size),
                              bytesValid := bv'\<rparr>,
                            Some d)))
                 else if isWrite (cmd p)
                 then bindR (getConstPtr p) (\<lambda>pd.
                   Inr (False, p,
                        Some (memcpy d val_offset (drop func_offset pd) overlap_size)))
                 else Inl Panic)))"

text \<open>The overload taking another packet: the other packet's data is the value.\<close>

definition trySatisfyFunctional_pkt :: "packet \<Rightarrow> packet \<Rightarrow> (bool \<times> packet \<times> packet) res" where
  "trySatisfyFunctional_pkt p other =
     (if isMaskedWrite other then Inr (False, p, other)
      else bindR (if hasData (cmd other) then bindR (getPtr other) (\<lambda>d. Inr (Some d)) else Inr None)
        (\<lambda>d. bindR (trySatisfyFunctional p (getAddr other) (isSecure other) (getSize other) d)
          (\<lambda>(done, p', d'). Inr (done, p', if d = None then other else other\<lparr>pdata := d'\<rparr>))))"

section \<open>What functional accesses do\<close>

text \<open>How a value \<open>[a, a + sz)\<close> overlaps the bytes of a functional packet.\<close>

definition overlaps :: "packet \<Rightarrow> addr \<Rightarrow> nat \<Rightarrow> bool" where
  "overlaps p a sz \<longleftrightarrow> 0 < sz \<and> 0 < getSize p \<and> unat (getAddr p) < unat a + sz \<and> unat a < unat (getAddr p) + getSize p"

definition no_wrap :: "addr \<Rightarrow> nat \<Rightarrow> bool" where
  "no_wrap a sz \<longleftrightarrow> unat a + sz \<le> 2 ^ 64 \<and> sz < 2 ^ 64"

lemma no_intersection_iff:
  assumes "no_wrap (getAddr p) (getSize p)" "no_wrap a sz" "0 < sz" "0 < getSize p"
  shows "(getAddr p > a + of_nat sz - 1 \<or> a > getAddr p + of_nat (getSize p) - 1)
         \<longleftrightarrow> \<not> overlaps p a sz"
  using assms unat_last_byte[of sz a] unat_last_byte[of "getSize p" "getAddr p"]
  by (auto simp: word_less_nat_alt overlaps_def no_wrap_def)

lemma functional_offsets:
  assumes "no_wrap (getAddr p) (getSize p)" "no_wrap a sz" "overlaps p a sz"
  shows "unat (min (a + of_nat sz - 1) (getAddr p + of_nat (getSize p) - 1) + 1 - max a (getAddr p))
     = min (unat a + sz) (unat (getAddr p) + getSize p) - max (unat a) (unat (getAddr p))"
  using assms unat_overlap[of "getSize p" "getAddr p" sz a]
  by (auto simp: overlaps_def no_wrap_def)


lemma done_iff_all:
  assumes "fo + ov \<le> length bv"
  shows "(list_all id (take fo bv) \<and>
     list_all id (drop (fo + ov) (take (length bv) (memcpy bv fo (replicate ov True) ov))))
     \<longleftrightarrow> (\<forall>i < length bv. memcpy bv fo (replicate ov True) ov ! i)"
proof -
  let ?m = "memcpy bv fo (replicate ov True) ov"
  have m: "length ?m = length bv" using assms by simp
  have "?m = take fo bv @ replicate ov True @ drop (fo + ov) bv"
    by (simp add: memcpy_def)
  then have d: "drop (fo + ov) ?m = drop (fo + ov) bv"
    using assms by simp
  have "(\<forall>i < length bv. ?m ! i) = list_all id ?m"
    by (simp add: list_all_length m)
  also have "\<dots> = (list_all id (take fo bv) \<and> list_all id (drop (fo + ov) bv))"
    by (auto simp: memcpy_def list_all_iff)
  finally show ?thesis
    using m d by simp
qed


definition sample_request :: "flags64 \<Rightarrow> request" where
  "sample_request fl = Request_paddr 0x100 4 fl 0"

definition sample_functional :: "mem_cmd \<Rightarrow> packet" where
  "sample_functional c =
     (Packet_blk (sample_request 0) c 4)\<lparr>pdata := Some [1, 2, 3, 4],
        pflags := VALID_ADDR OR VALID_SIZE OR DYNAMIC_DATA\<rparr>"

named_theorems sample_defs "concrete inputs of the witnesses, for evaluation"

lemmas [sample_defs] = sample_request_def sample_functional_def Request_paddr_def Packet_blk_def
  hasPaddr_def REQ_VALID_PADDR_def REQ_VALID_SIZE_def isMaskedWrite_def isMasked_def getPtr_def
  getConstPtr_def getAddr_def getSize_def req_isSecure_def

text \<open>
  C27. A functional read is merged byte by byte with a value found in the system (a cache
  block, or another packet in flight): every byte of the packet inside the value's range
  becomes the value's byte, every other byte is untouched, exactly the bytes supplied so far
  are marked valid, and the access reports completion exactly when all of them are.
\<close>

theorem functional_read_merges:
  assumes "no_wrap (getAddr p) (getSize p)" "no_wrap a sz" "overlaps p a sz"
    and "isRead (cmd p)" "getPtr p = Inr pd" "length pd = getSize p" "length d = sz"
    and "length bv = getSize p" "bytesValid p = bv \<or> bytesValid p = [] \<and> bv = replicate (getSize p) False"
  shows "\<exists>done p'. trySatisfyFunctional p a (pkt_secure p) sz (Some d) = Inr (done, p', Some d)
     \<and> (\<forall>i < getSize p.
          the (pdata p') ! i =
            (if unat a \<le> unat (getAddr p) + i \<and> unat (getAddr p) + i < unat a + sz
             then d ! (unat (getAddr p) + i - unat a) else pd ! i)
        \<and> bytesValid p' ! i =
            (bv ! i \<or> unat a \<le> unat (getAddr p) + i \<and> unat (getAddr p) + i < unat a + sz))
     \<and> done = (\<forall>i < getSize p. bytesValid p' ! i)"
proof -
  let ?A = "unat (getAddr p)" and ?n = "getSize p" and ?a = "unat a"
  let ?fo = "?a - ?A" and ?vo = "?A - ?a" and ?ov = "min (?a + sz) (?A + ?n) - max ?a ?A"
  have ov: "0 < sz" "0 < ?n" "?a < ?A + ?n" "?A < ?a + sz"
    using assms(3) by (auto simp: overlaps_def)
  have np: "\<not> isPrint (cmd p)"
    using assms(4) by (cases "cmd p") (simp_all add: cmd_table)
  let ?bv' = "memcpy bv ?fo (replicate ?ov True) ?ov"
  let ?p' = "p\<lparr>pdata := Some (memcpy pd ?fo (drop ?vo d) ?ov), bytesValid := ?bv'\<rparr>"
  let ?done = "list_all id (take ?fo bv) \<and> list_all id (drop (?fo + ?ov) (take ?n ?bv'))"
  have bv: "(if bytesValid p = [] then replicate ?n False else bytesValid p) = bv"
    using assms(8,9) by auto
  have eq: "trySatisfyFunctional p a (pkt_secure p) sz (Some d) = Inr (?done, ?p', Some d)"
    using assms(4,5) np no_intersection_iff[OF assms(1,2) ov(1,2)] assms(3)
    unfolding trySatisfyFunctional_def Let_def bv unat_sub_or_0 functional_offsets[OF assms(1-3)]
    by simp
  have "?ov \<le> sz - ?vo"
    using ov by auto
  then have ext: "?bv' = memcpy bv ?fo (drop ?vo (replicate sz True)) ?ov"
    by (simp add: memcpy_def min_absorb1)
  have valid: "?bv' ! i = (bv ! i \<or> ?a \<le> ?A + i \<and> ?A + i < ?a + sz)" if "i < ?n" for i
    unfolding ext using nth_memcpy_window[OF ov(3,4) assms(8), of "replicate sz True" i] that
    by (auto simp: nth_replicate)
  have "?fo + ?ov \<le> length bv"
    using ov assms(8) by auto
  from done_iff_all[OF this] have dn: "?done = (\<forall>i < ?n. ?bv' ! i)"
    by (simp add: assms(8))
  show ?thesis
    unfolding eq using valid dn nth_memcpy_window[OF ov(3,4) assms(6,7)] by simp
qed

theorem functional_read_merges_witness:
  "\<exists>done p'. trySatisfyFunctional (sample_functional ReadReq) 0x102 False 4 (Some [9, 8, 7, 6])
       = Inr (done, p', Some [9, 8, 7, 6])
     \<and> the (pdata p') ! 1 = 2 \<and> the (pdata p') ! 3 = 8 \<and> \<not> done"
proof -
  let ?p = "sample_functional ReadReq"
  have ev: "getAddr ?p = 0x100" "getSize ?p = 4" "cmd ?p = ReadReq" "bytesValid ?p = []"
    "\<not> pkt_secure ?p" "getPtr ?p = Inr [1, 2, 3, 4]"
    by (simp_all add: sample_defs packet_flag_defs flag_defs)
  have hyps: "no_wrap (getAddr ?p) (getSize ?p)" "no_wrap 0x102 4" "overlaps ?p 0x102 4"
    "isRead (cmd ?p)"
    by (simp_all add: no_wrap_def overlaps_def ev cmd_table)
  obtain dn p' where
    r: "trySatisfyFunctional ?p 0x102 (pkt_secure ?p) 4 (Some [9, 8, 7, 6]) = Inr (dn, p', Some [9, 8, 7, 6])"
    and b: "\<forall>i < getSize ?p. the (pdata p') ! i =
          (if unat (0x102 :: addr) \<le> unat (getAddr ?p) + i
              \<and> unat (getAddr ?p) + i < unat (0x102 :: addr) + 4
           then [9, 8, 7, 6] ! (unat (getAddr ?p) + i - unat (0x102 :: addr)) else [1, 2, 3, 4] ! i)
        \<and> bytesValid p' ! i = (replicate 4 False ! i \<or>
           unat (0x102 :: addr) \<le> unat (getAddr ?p) + i \<and>
           unat (getAddr ?p) + i < unat (0x102 :: addr) + 4)"
    and d: "dn = (\<forall>i < getSize ?p. bytesValid p' ! i)"
    using functional_read_merges[OF hyps ev(6), of "[9, 8, 7, 6]" "replicate 4 False"]
    by (auto simp: ev)
  have "the (pdata p') ! 1 = 2" "\<not> bytesValid p' ! 1"
    using b[rule_format, of 1] by (simp_all add: ev)
  moreover have "the (pdata p') ! 3 = 8"
    using b[rule_format, of 3] by (simp add: ev)
  moreover have "\<not> dn"
    using d \<open>\<not> bytesValid p' ! 1\<close> by (auto simp: ev)
  ultimately show ?thesis
    using r by (auto simp: ev)
qed

text \<open>
  C28. A functional write updates a value found in the system in place: exactly the bytes the
  packet and the value have in common take the packet's data, and the access is passed on
  (it never reports completion), so that every copy on its way is updated.
\<close>

theorem functional_write_updates:
  assumes "no_wrap (getAddr p) (getSize p)" "no_wrap a sz" "overlaps p a sz"
    and "isWrite (cmd p)" "\<not> isRead (cmd p)" "getConstPtr p = Inr pd"
    and "length pd = getSize p" "length d = sz"
  shows "\<exists>d'. trySatisfyFunctional p a (pkt_secure p) sz (Some d) = Inr (False, p, Some d')
     \<and> (\<forall>i < sz. d' ! i =
          (if unat (getAddr p) \<le> unat a + i \<and> unat a + i < unat (getAddr p) + getSize p
           then pd ! (unat a + i - unat (getAddr p)) else d ! i))"
proof -
  let ?A = "unat (getAddr p)" and ?n = "getSize p" and ?a = "unat a"
  let ?ov = "min (?a + sz) (?A + ?n) - max ?a ?A"
  have ov: "0 < sz" "0 < ?n" "?a < ?A + ?n" "?A < ?a + sz"
    using assms(3) by (auto simp: overlaps_def)
  have np: "\<not> isPrint (cmd p)"
    using assms(4) by (cases "cmd p") (simp_all add: cmd_table)
  have "trySatisfyFunctional p a (pkt_secure p) sz (Some d) =
      Inr (False, p, Some (memcpy d (?A - ?a) (drop (?a - ?A) pd) ?ov))"
    using assms(4-6) np no_intersection_iff[OF assms(1,2) ov(1,2)] assms(3)
    unfolding trySatisfyFunctional_def Let_def unat_sub_or_0 functional_offsets[OF assms(1-3)]
    by simp
  moreover have "?ov = min (?A + ?n) (?a + sz) - max ?A ?a"
    by (simp add: min.commute max.commute)
  ultimately show ?thesis
    using nth_memcpy_window[OF ov(4,3) assms(8,7)] by simp
qed

theorem functional_write_updates_witness:
  "\<exists>d'. trySatisfyFunctional (sample_functional WriteReq) 0x102 False 4 (Some [9, 8, 7, 6])
       = Inr (False, sample_functional WriteReq, Some d') \<and> d' ! 0 = 3 \<and> d' ! 2 = 7"
proof -
  let ?p = "sample_functional WriteReq"
  have ev: "getAddr ?p = 0x100" "getSize ?p = 4" "cmd ?p = WriteReq" "\<not> pkt_secure ?p"
    "getConstPtr ?p = Inr [1, 2, 3, 4]"
    by (simp_all add: sample_defs packet_flag_defs flag_defs)
  have hyps: "no_wrap (getAddr ?p) (getSize ?p)" "no_wrap 0x102 4" "overlaps ?p 0x102 4"
    "isWrite (cmd ?p)" "\<not> isRead (cmd ?p)"
    by (simp_all add: no_wrap_def overlaps_def ev cmd_table)
  obtain d' where
    r: "trySatisfyFunctional ?p 0x102 (pkt_secure ?p) 4 (Some [9, 8, 7, 6]) = Inr (False, ?p, Some d')"
    and b: "\<forall>i < 4. d' ! i =
          (if unat (getAddr ?p) \<le> unat (0x102 :: addr) + i
              \<and> unat (0x102 :: addr) + i < unat (getAddr ?p) + getSize ?p
           then [1, 2, 3, 4] ! (unat (0x102 :: addr) + i - unat (getAddr ?p)) else [9, 8, 7, 6] ! i)"
    using functional_write_updates[OF hyps ev(5), of "[9, 8, 7, 6]"] by (auto simp: ev)
  have "d' ! 0 = 3" "d' ! 2 = 7"
    using b[rule_format, of 0] b[rule_format, of 2] by (simp_all add: ev)
  then show ?thesis
    using r by (simp add: ev)
qed

end
