(* ===== verification/Int_Math.thy ===== *)
theory Int_Math
  imports Prelude
begin

text \<open>
  Integer helpers of src/gem5/src/base/intmath.hh the cache geometry is computed with, and
  the saturating counters of src/gem5/src/base/sat_counter.hh at the width the replacement
  policies use (\<^verbatim>\<open>SatCounter8\<close>).
\<close>

section \<open>Logarithms and powers of two\<close>

text \<open>
  \<open>floorLog2\<close> at 64 bits: each test looks at the upper half of the bits left and moves
  them down.
\<close>

definition log2_step :: "64 word \<Rightarrow> nat \<Rightarrow> nat \<times> 64 word \<Rightarrow> nat \<times> 64 word" where
  "log2_step m k s = (case s of (y, ux) \<Rightarrow> if ux AND m \<noteq> 0 then (y + k, drop_bit k ux) else (y, ux))"

definition floorLog2 :: "64 word \<Rightarrow> nat res" where
  "floorLog2 x =
     must (x > 0)
       (let s1 = log2_step 0xffffffff00000000 32 (0, x);
            s2 = log2_step 0x00000000ffff0000 16 s1;
            s3 = log2_step 0x000000000000ff00 8 s2;
            s4 = log2_step 0x00000000000000f0 4 s3;
            s5 = log2_step 0x000000000000000c 2 s4
        in Inr (if snd s5 AND 0x0000000000000002 \<noteq> 0 then fst s5 + 1 else fst s5))"

definition isPowerOf2 :: "64 word \<Rightarrow> bool" where
  "isPowerOf2 n \<longleftrightarrow> n \<noteq> 0 \<and> n AND (n - 1) = 0"

definition divCeil :: "nat \<Rightarrow> nat \<Rightarrow> nat" where
  "divCeil a b = (a + b - 1) div b"

section \<open>Saturating counters\<close>

record sat_counter =
  initialVal :: nat
  maxVal :: nat
  counter :: nat

definition SatCounter8 :: "nat \<Rightarrow> nat \<Rightarrow> sat_counter res" where
  "SatCounter8 nbits initial_val =
     (let mx = (2 ^ nbits - 1) mod 256
      in fatal_when (nbits > 8) (fatal_when (initial_val > mx)
           (Inr \<lparr>initialVal = initial_val, maxVal = mx, counter = initial_val\<rparr>)))"

definition sat_inc :: "sat_counter \<Rightarrow> sat_counter" where
  "sat_inc c = (if counter c < maxVal c then c\<lparr>counter := counter c + 1\<rparr> else c)"

definition sat_dec :: "sat_counter \<Rightarrow> sat_counter" where
  "sat_dec c = (if counter c > 0 then c\<lparr>counter := counter c - 1\<rparr> else c)"

definition sat_shr :: "nat \<Rightarrow> sat_counter \<Rightarrow> sat_counter" where
  "sat_shr n c = c\<lparr>counter := counter c div 2 ^ n\<rparr>"

definition sat_shl :: "nat \<Rightarrow> sat_counter \<Rightarrow> sat_counter" where
  "sat_shl n c =
     (let v = (counter c * 2 ^ n) mod 256 in c\<lparr>counter := (if v > maxVal c then maxVal c else v)\<rparr>)"

text \<open>The two signed operators call each other on a negative operand; on the counter they amount to this.\<close>

definition sat_add_nat :: "nat \<Rightarrow> sat_counter \<Rightarrow> sat_counter" where
  "sat_add_nat v c =
     (if maxVal c - counter c \<ge> v then c\<lparr>counter := counter c + v\<rparr> else c\<lparr>counter := maxVal c\<rparr>)"

definition sat_sub_nat :: "nat \<Rightarrow> sat_counter \<Rightarrow> sat_counter" where
  "sat_sub_nat v c =
     (if counter c > v then c\<lparr>counter := counter c - v\<rparr> else c\<lparr>counter := 0\<rparr>)"

definition sat_add :: "int \<Rightarrow> sat_counter \<Rightarrow> sat_counter" where
  "sat_add v c = (if v \<ge> 0 then sat_add_nat (nat v) c else sat_sub_nat (nat (- v)) c)"

definition sat_sub :: "int \<Rightarrow> sat_counter \<Rightarrow> sat_counter" where
  "sat_sub v c = (if v \<ge> 0 then sat_sub_nat (nat v) c else sat_add_nat (nat (- v)) c)"

definition sat_reset :: "sat_counter \<Rightarrow> sat_counter" where
  "sat_reset c = c\<lparr>counter := initialVal c\<rparr>"

definition isSaturated :: "sat_counter \<Rightarrow> bool" where
  "isSaturated c \<longleftrightarrow> counter c = maxVal c"

definition saturate :: "sat_counter \<Rightarrow> nat \<times> sat_counter" where
  "saturate c = (maxVal c - counter c, c\<lparr>counter := maxVal c\<rparr>)"

section \<open>The logarithm is the logarithm\<close>

definition log2_inv :: "64 word \<Rightarrow> nat \<Rightarrow> nat \<times> 64 word \<Rightarrow> bool" where
  "log2_inv x w s \<longleftrightarrow> snd s = drop_bit (fst s) x \<and> snd s \<noteq> 0 \<and> take_bit w (snd s) = snd s"

lemma upper_half_zero_iff:
  fixes ux :: "64 word"
  assumes "take_bit (2 * k) ux = ux" and "2 * k \<le> 64"
  shows "ux AND push_bit k (mask k) = 0 \<longleftrightarrow> drop_bit k ux = 0"
proof -
  have lt: "n < 2 * k" if "bit ux n" for n
    using that assms(1) by (metis bit_take_bit_iff)
  have b: "bit (ux AND push_bit k (mask k)) n \<longleftrightarrow> bit ux n \<and> k \<le> n" for n
    using lt[of n] assms(2) bit_imp_le_length[of ux n]
    by (auto simp: bit_and_iff bit_push_bit_iff bit_mask_iff)
  have "ux AND push_bit k (mask k) = 0 \<longleftrightarrow> (\<forall>n. k \<le> n \<longrightarrow> \<not> bit ux n)"
    unfolding word_zero_iff_bits b by blast
  also have "\<dots> \<longleftrightarrow> drop_bit k ux = 0"
  proof
    assume a: "\<forall>n. k \<le> n \<longrightarrow> \<not> bit ux n"
    show "drop_bit k ux = 0"
      unfolding word_zero_iff_bits using a by (simp add: bit_drop_bit_eq)
  next
    assume "drop_bit k ux = 0"
    then have "\<not> bit (drop_bit k ux) n" for n by simp
    then have "\<not> bit ux (k + n)" for n by (simp add: bit_drop_bit_eq)
    then show "\<forall>n. k \<le> n \<longrightarrow> \<not> bit ux n" by (metis le_add_diff_inverse)
  qed
  finally show ?thesis .
qed

lemma log2_step_inv:
  assumes "log2_inv x (2 * k) s" and "m = push_bit k (mask k)" and "2 * k \<le> 64"
  shows "log2_inv x k (log2_step m k s)"
proof (cases s)
  case (Pair y ux)
  have h: "ux = drop_bit y x" "ux \<noteq> 0" "take_bit (2 * k) ux = ux"
    using assms(1) unfolding log2_inv_def Pair fst_conv snd_conv by blast+
  note iff = upper_half_zero_iff[OF h(3) assms(3)]
  show ?thesis
  proof (cases "drop_bit k ux = 0")
    case True
    then have "take_bit k ux = ux"
      by (metis bits_ident add.right_neutral push_bit_of_0 add_0)
    then show ?thesis
      using True h iff by (simp add: log2_inv_def log2_step_def Pair assms(2))
  next
    case False
    have "take_bit k (drop_bit k ux) = drop_bit k (take_bit (2 * k) ux)"
      by (simp add: take_bit_drop_bit mult_2)
    then show ?thesis
      using False h iff by (simp add: log2_inv_def log2_step_def Pair assms(2) drop_bit_drop_bit add.commute)
  qed
qed

lemma floorLog2_drop_bit:
  assumes "x > 0"
  shows "\<exists>y. floorLog2 x = Inr y \<and> drop_bit y x = 1"
proof -
  define s1 where "s1 = log2_step 0xffffffff00000000 32 (0, x)"
  define s2 where "s2 = log2_step 0x00000000ffff0000 16 s1"
  define s3 where "s3 = log2_step 0x000000000000ff00 8 s2"
  define s4 where "s4 = log2_step 0x00000000000000f0 4 s3"
  define s5 where "s5 = log2_step 0x000000000000000c 2 s4"
  have "log2_inv x 64 (0, x)"
    using assms by (simp add: log2_inv_def word_gt_0 take_bit_word_eq_self)
  then have "log2_inv x 32 s1"
    unfolding s1_def by (intro log2_step_inv) (simp_all add: mask_eq_exp_minus_1 push_bit_eq_mult)
  then have "log2_inv x 16 s2"
    unfolding s2_def by (intro log2_step_inv) (simp_all add: mask_eq_exp_minus_1 push_bit_eq_mult)
  then have "log2_inv x 8 s3"
    unfolding s3_def by (intro log2_step_inv) (simp_all add: mask_eq_exp_minus_1 push_bit_eq_mult)
  then have "log2_inv x 4 s4"
    unfolding s4_def by (intro log2_step_inv) (simp_all add: mask_eq_exp_minus_1 push_bit_eq_mult)
  then have "log2_inv x 2 s5"
    unfolding s5_def by (intro log2_step_inv) (simp_all add: mask_eq_exp_minus_1 push_bit_eq_mult)
  then have h: "snd s5 = drop_bit (fst s5) x" "snd s5 \<noteq> 0" "take_bit 2 (snd s5) = snd s5"
    unfolding log2_inv_def by blast+
  have iff: "snd s5 AND 2 = 0 \<longleftrightarrow> drop_bit 1 (snd s5) = 0"
    using upper_half_zero_iff[of 1 "snd s5"] h(3) by simp
  have fl: "floorLog2 x = Inr (if snd s5 AND 2 \<noteq> 0 then fst s5 + 1 else fst s5)"
    using assms unfolding floorLog2_def Let_def
    by (simp add: s1_def s2_def s3_def s4_def s5_def)
  have one: "v = 1" if "take_bit 1 v = v" "v \<noteq> 0" for v :: "64 word"
    using that by (metis take_bit_Suc_0 One_nat_def odd_iff_mod_2_eq_one mod2_eq_if)
  show ?thesis
  proof (cases "drop_bit 1 (snd s5) = 0")
    case True
    then have "take_bit 1 (snd s5) = snd s5"
      by (metis bits_ident add.right_neutral push_bit_of_0 add_0)
    then show ?thesis
      using True iff fl h one by auto
  next
    case False
    have "take_bit 1 (drop_bit 1 (snd s5)) = drop_bit 1 (take_bit 2 (snd s5))"
      by (simp add: take_bit_drop_bit numeral_2_eq_2)
    then have "drop_bit 1 (snd s5) = 1"
      using False h(3) one by simp
    then show ?thesis
      using False iff fl h(1) by (auto simp: drop_bit_drop_bit)
  qed
qed

text \<open>
  C38. \<open>floorLog2\<close>, computed by halving the word five times, is the integer logarithm: it
  never fails on a positive number and brackets it between consecutive powers of two.
\<close>

theorem floorLog2_brackets:
  assumes "x > 0"
  shows "\<exists>y. floorLog2 x = Inr y \<and> 2 ^ y \<le> unat x \<and> unat x < 2 ^ (y + 1)"
proof -
  obtain y where y: "floorLog2 x = Inr y" "drop_bit y x = 1"
    using floorLog2_drop_bit[OF assms] by blast
  have "unat x div 2 ^ y = 1"
    using y(2) by (metis unat_drop_bit_eq drop_bit_eq_div unat_1)
  then have "unat x = 2 ^ y + unat x mod 2 ^ y"
    using div_mult_mod_eq[of "unat x" "2 ^ y"] by simp
  moreover have "unat x mod 2 ^ y < 2 ^ y" by simp
  ultimately have "2 ^ y \<le> unat x" "unat x < 2 * 2 ^ y"
    by linarith+
  with y(1) show ?thesis by auto
qed

theorem floorLog2_brackets_witness:
  "\<exists>y. floorLog2 1000 = Inr y \<and> (2::nat) ^ y \<le> 1000 \<and> (1000::nat) < 2 ^ (y + 1)"
  using floorLog2_brackets[of 1000] by simp

lemma isPowerOf2_power: "k < 64 \<Longrightarrow> isPowerOf2 (2 ^ k)"
proof -
  assume k: "k < 64"
  have "(2 ^ k :: 64 word) AND (2 ^ k - 1) = 0"
    unfolding word_zero_iff_bits
    by (simp add: bit_and_iff bit_exp_iff mask_eq_exp_minus_1[symmetric] bit_mask_iff)
  with k show ?thesis
    by (simp add: isPowerOf2_def)
qed

lemma isPowerOf2_exponent:
  assumes h: "isPowerOf2 n"
  shows "\<exists>k < 64. n = 2 ^ k \<and> floorLog2 n = Inr k"
proof -
  have "n > 0" using h by (simp add: isPowerOf2_def word_gt_0)
  then obtain y where y: "floorLog2 n = Inr y" "drop_bit y n = 1"
    using floorLog2_drop_bit by blast
  have y64: "y < 64"
  proof (rule ccontr)
    assume "\<not> y < 64"
    then have "drop_bit y n = 0" by (simp add: word_zero_iff_bits bit_drop_bit_eq bit_imp_le_length)
    with y(2) show False by simp
  qed
  have bit_y: "bit w y" if "drop_bit y w = 1" for w :: "64 word"
  proof -
    have "bit (drop_bit y w) 0" unfolding that by simp
    then show ?thesis unfolding bit_drop_bit_eq by simp
  qed
  have div: "unat n div 2 ^ y = 1"
    using y(2) by (metis unat_drop_bit_eq drop_bit_eq_div unat_1)
  have "n = 2 ^ y"
  proof (rule ccontr)
    assume ne: "n \<noteq> 2 ^ y"
    have p: "unat (2 ^ y :: 64 word) = 2 ^ y"
      using y64 by (simp add: unat_two_power)
    have "unat n \<noteq> 2 ^ y"
      using ne p by (simp add: word_unat_eq_iff)
    moreover have "unat n = 2 ^ y + unat n mod 2 ^ y"
      using div div_mult_mod_eq[of "unat n" "2 ^ y"] by simp
    ultimately have "0 < unat n mod 2 ^ y" by linarith
    moreover have "unat n mod 2 ^ y < 2 ^ y" by simp
    ultimately have r: "unat n - 1 = 2 ^ y + (unat n mod 2 ^ y - 1)" "unat n mod 2 ^ y - 1 < 2 ^ y"
      using \<open>unat n = 2 ^ y + unat n mod 2 ^ y\<close> by linarith+
    have "unat (n - 1) = unat n - 1"
      using \<open>n > 0\<close> by (simp add: unat_minus_one word_gt_0)
    then have "unat (n - 1) = 2 ^ y + (unat n mod 2 ^ y - 1)"
      using r(1) by simp
    then have "unat (n - 1) div 2 ^ y = 1"
      using r(2) by (simp add: div_add_self1)
    then have "unat (drop_bit y (n - 1)) = 1"
      by (metis unat_drop_bit_eq drop_bit_eq_div)
    then have "drop_bit y (n - 1) = 1"
      by (simp add: word_unat_eq_iff)
    then have "bit (n AND (n - 1)) y"
      using bit_y y(2) by (simp add: bit_and_iff)
    with h show False by (simp add: isPowerOf2_def)
  qed
  with y y64 show ?thesis by blast
qed

text \<open>
  C39. The bit trick of \<open>isPowerOf2\<close> decides what its name says, and on a power of two
  \<open>floorLog2\<close> returns the exponent. The constructors of the indexing policy and of the
  tag store reject every geometry this test rejects.
\<close>

theorem isPowerOf2_iff:
  "isPowerOf2 n = (\<exists>k < 64. n = 2 ^ k \<and> floorLog2 n = Inr k)"
  using isPowerOf2_exponent isPowerOf2_power by blast

section \<open>Saturating counters stay in range\<close>

definition sat_wf :: "sat_counter \<Rightarrow> bool" where
  "sat_wf c \<longleftrightarrow> counter c \<le> maxVal c \<and> initialVal c \<le> maxVal c \<and> maxVal c < 256"

named_theorems sat_defs "operations of a saturating counter"

lemmas [sat_defs] = sat_inc_def sat_dec_def sat_shr_def sat_shl_def sat_add_nat_def
  sat_sub_nat_def sat_add_def sat_sub_def sat_reset_def saturate_def

lemma sat_wf_ops [simp]:
  assumes "sat_wf c"
  shows "sat_wf (sat_inc c)" "sat_wf (sat_dec c)" "sat_wf (sat_shr n c)" "sat_wf (sat_shl n c)"
    "sat_wf (sat_reset c)" "sat_wf (snd (saturate c))" "sat_wf (sat_add v c)" "sat_wf (sat_sub v c)"
proof -
  have "counter c div 2 ^ n \<le> maxVal c"
    using assms by (meson div_le_dividend le_trans sat_wf_def)
  then show "sat_wf (sat_shr n c)"
    using assms by (simp add: sat_wf_def sat_shr_def)
qed (use assms in \<open>auto simp: sat_wf_def sat_defs Let_def\<close>)


lemma sat_wf_new: "SatCounter8 b v = Inr c \<Longrightarrow> sat_wf c \<and> maxVal c = 2 ^ b - 1"
proof -
  assume h: "SatCounter8 b v = Inr c"
  then have b: "b \<le> 8" by (simp add: SatCounter8_def Let_def)
  have "(2::nat) ^ b \<le> 2 ^ 8" by (rule power_increasing) (use b in auto)
  then have "(2 ^ b - 1) mod 256 = (2 ^ b - 1 :: nat)" by simp
  with h show ?thesis by (auto simp: SatCounter8_def Let_def sat_wf_def)
qed


end
