(* ===== verification/Indexing.thy ===== *)
theory Indexing
  imports Int_Math
begin

text \<open>
  The indexing policy of the tag store: \<^verbatim>\<open>IndexingPolicyTemplate\<close> of
  src/gem5/src/mem/cache/tags/indexing_policies/base.hh with CacheFlex's way extraction, and
  \<^verbatim>\<open>TaggedSetAssociative\<close> of src/gem5/src/mem/cache/tags/tagged_entry.hh. An entry
  pointer is the index of the block in the tag store's array, from which \<^verbatim>\<open>setEntry\<close>
  derives its set and way.
\<close>

section \<open>The policy\<close>

record indexing_policy =
  assoc :: nat
  numSets :: nat
  setShift :: nat
  setMask :: "32 word"
  tagShift :: nat
  wayShift :: nat
  wayMask :: "32 word"

text \<open>
  The constructor. The initialiser list divides by the associativity and takes the logarithm
  of the number of sets before either is tested, so a zero associativity or zero sets stop
  the simulation there.
\<close>

definition IndexingPolicy_new :: "nat \<Rightarrow> nat \<Rightarrow> nat \<Rightarrow> indexing_policy res" where
  "IndexingPolicy_new as num_entries set_shift =
     (if as = 0 then Inl Fatal
      else (let n = num_entries div as
            in bindR (floorLog2 (of_nat n)) (\<lambda>lg.
                 fatal_when (\<not> isPowerOf2 (of_nat n))
                   (Inr \<lparr>assoc = as, numSets = n, setShift = set_shift, setMask = of_nat n - 1,
                         tagShift = set_shift + lg, wayShift = set_shift + lg,
                         wayMask = of_nat as - 1\<rparr>))))"

definition setEntry :: "indexing_policy \<Rightarrow> nat \<Rightarrow> (nat \<times> nat) res" where
  "setEntry ip index =
     must (index div assoc ip < numSets ip) (Inr (index div assoc ip, index mod assoc ip))"

definition getEntry :: "indexing_policy \<Rightarrow> nat \<Rightarrow> nat \<Rightarrow> nat" where
  "getEntry ip st way = st * assoc ip + way"

definition getSet :: "indexing_policy \<Rightarrow> nat \<Rightarrow> nat" where
  "getSet ip index = index div assoc ip"

definition getWay :: "indexing_policy \<Rightarrow> nat \<Rightarrow> nat" where
  "getWay ip index = index mod assoc ip"

definition extractTag :: "indexing_policy \<Rightarrow> addr \<Rightarrow> addr" where
  "extractTag ip a = drop_bit (tagShift ip) a"

definition extractWay :: "indexing_policy \<Rightarrow> addr \<Rightarrow> nat" where
  "extractWay ip a = unat (drop_bit (wayShift ip) a AND ucast (wayMask ip))"

definition extractSet :: "indexing_policy \<Rightarrow> addr \<Rightarrow> nat" where
  "extractSet ip a = unat (drop_bit (setShift ip) a AND ucast (setMask ip))"

definition getPossibleEntries :: "indexing_policy \<Rightarrow> addr \<Rightarrow> nat list" where
  "getPossibleEntries ip a = map (getEntry ip (extractSet ip a)) [0..<assoc ip]"

text \<open>The set number is shifted as a 32-bit unsigned before it is widened.\<close>

definition regenerateAddr :: "indexing_policy \<Rightarrow> addr \<Rightarrow> nat \<Rightarrow> addr" where
  "regenerateAddr ip tag index =
     push_bit (tagShift ip) tag OR
     ucast (push_bit (setShift ip) (of_nat (getSet ip index) :: 32 word))"

section \<open>Geometry of a constructed policy\<close>

lemma IndexingPolicy_new_geometry:
  assumes "IndexingPolicy_new as n sh = Inr ip" and "n < 2 ^ 32"
  shows "\<exists>k < 32. numSets ip = 2 ^ k \<and> setMask ip = mask k \<and> tagShift ip = sh + k
     \<and> wayShift ip = sh + k \<and> setShift ip = sh \<and> assoc ip = as \<and> 0 < as
     \<and> wayMask ip = of_nat as - 1 \<and> n div as = 2 ^ k"
proof -
  have as: "as \<noteq> 0"
    using assms(1) by (auto simp: IndexingPolicy_new_def split: if_splits)
  let ?m = "n div as"
  from assms(1) as obtain lg where lg: "floorLog2 (of_nat ?m) = Inr lg" "isPowerOf2 (of_nat ?m)"
    and ip: "ip = \<lparr>assoc = as, numSets = ?m, setShift = sh, setMask = of_nat ?m - 1,
       tagShift = sh + lg, wayShift = sh + lg, wayMask = of_nat as - 1\<rparr>"
    by (auto simp: IndexingPolicy_new_def Let_def)
  obtain k where k: "k < 64" "(of_nat ?m :: 64 word) = 2 ^ k" "floorLog2 (of_nat ?m) = Inr k"
    using lg(2) isPowerOf2_exponent by blast
  have m: "?m < 2 ^ 32"
    using assms(2) by (meson div_le_dividend le_less_trans)
  have "?m = unat (of_nat ?m :: 64 word)"
    using m by (simp add: unat_of_nat_small)
  also have "\<dots> = 2 ^ k"
    using k(1,2) by (simp add: unat_two_power)
  finally have mk: "?m = 2 ^ k" .
  with m have "k < 32"
    by (metis nat_power_less_imp_less zero_less_numeral)
  with mk lg k(3) ip as show ?thesis
    by (auto simp: mask_eq_exp_minus_1)
qed

lemma ucast_mask32: "k \<le> 32 \<Longrightarrow> (ucast (mask k :: 32 word) :: 64 word) = mask k"
  by (rule bit_word_eqI) (auto simp: bit_unsigned_iff bit_mask_iff)

lemma extractSet_less:
  assumes "IndexingPolicy_new as n sh = Inr ip" and "n < 2 ^ 32"
  shows "extractSet ip a < numSets ip"
proof -
  obtain k where k: "k < 32" "numSets ip = 2 ^ k" "setMask ip = mask k" "setShift ip = sh"
    using IndexingPolicy_new_geometry[OF assms] by blast
  have "unat (drop_bit sh a AND mask k) = take_bit k (unat (drop_bit sh a))"
    by (simp add: unsigned_take_bit_eq flip: take_bit_eq_mask)
  also have "\<dots> < 2 ^ k" by simp
  finally show ?thesis
    using k by (simp add: extractSet_def ucast_mask32)
qed

definition sample_indexing :: indexing_policy where
  "sample_indexing =
     \<lparr>assoc = 4, numSets = 2, setShift = 6, setMask = 1, tagShift = 7, wayShift = 7, wayMask = 3\<rparr>"

lemma sample_indexing_new: "IndexingPolicy_new 4 8 6 = Inr sample_indexing"
  by (simp add: IndexingPolicy_new_def sample_indexing_def floorLog2_def log2_step_def
      isPowerOf2_def Let_def)

text \<open>
  C26. Tag, set and address agree: regenerating an address from the tag and the set that were
  extracted from it gives back the address of its block, provided the set index and block
  offset fit the 32-bit shift the code does. Writebacks are sent to regenerated addresses.
\<close>

theorem regenerate_extract:
  assumes "IndexingPolicy_new as n sh = Inr ip" and "n < 2 ^ 32" and "tagShift ip \<le> 32"
    and "getSet ip index = extractSet ip a"
  shows "regenerateAddr ip (extractTag ip a) index = a AND NOT (mask sh)"
proof -
  obtain k where k: "k < 32" "setMask ip = mask k" "tagShift ip = sh + k" "setShift ip = sh"
    using IndexingPolicy_new_geometry[OF assms(1,2)] by blast
  show ?thesis
  proof (rule bit_word_eqI)
    fix m assume "m < LENGTH(64)"
    have s32: "(of_nat (extractSet ip a) :: 32 word) = ucast (drop_bit sh a AND ucast (mask k :: 32 word))"
      unfolding extractSet_def k by simp
    have "m < sh + k \<or> sh + k + (m - (sh + k)) = m" by linarith
    then show "bit (regenerateAddr ip (extractTag ip a) index) m = bit (a AND NOT (mask sh)) m"
      unfolding regenerateAddr_def assms(4) s32
      using k assms(3) bit_imp_le_length[of a m]
      by (elim disjE) (auto simp: bit_or_iff bit_push_bit_iff bit_drop_bit_eq bit_and_iff bit_not_iff
          bit_mask_iff bit_unsigned_iff extractTag_def)
  qed
qed

theorem regenerate_extract_witness:
  "regenerateAddr sample_indexing (extractTag sample_indexing 0x1234567) 5 = 0x1234540"
  using regenerate_extract[OF sample_indexing_new, of 5 "0x1234567"]
  by (simp add: sample_indexing_def getSet_def extractSet_def mask_eq_exp_minus_1)

text \<open>The address of a scratchpad slot: way bits above the set bits above the offset bits.\<close>

definition slot_address :: "indexing_policy \<Rightarrow> nat \<Rightarrow> nat \<Rightarrow> nat \<Rightarrow> addr" where
  "slot_address ip way st off =
     push_bit (wayShift ip) (of_nat way) OR push_bit (setShift ip) (of_nat st) OR of_nat off"

lemma bit_of_nat_less:
  "w < 2 ^ k \<Longrightarrow> bit (of_nat w :: 'a::len word) n \<Longrightarrow> n < k"
proof -
  assume "w < 2 ^ k" "bit (of_nat w :: 'a word) n"
  then have "bit w n" by (simp add: bit_of_nat_iff)
  moreover have "take_bit k w = w" using \<open>w < 2 ^ k\<close> by (rule take_bit_nat_eq_self)
  ultimately show "n < k" by (metis bit_take_bit_iff)
qed

lemma slot_decode:
  assumes "IndexingPolicy_new (2 ^ m) n sh = Inr ip" and "n < 2 ^ 32" and "m < 32"
    and "wayShift ip + m \<le> 64"
    and "way < 2 ^ m" and "st < numSets ip" and "off < 2 ^ sh"
  shows "extractWay ip (slot_address ip way st off) = way
     \<and> extractSet ip (slot_address ip way st off) = st
     \<and> unat (slot_address ip way st off AND mask sh) = off"
proof -
  obtain k where k: "k < 32" "numSets ip = 2 ^ k" "setMask ip = mask k" "wayShift ip = sh + k"
      "setShift ip = sh" "wayMask ip = of_nat (2 ^ m) - 1"
    using IndexingPolicy_new_geometry[OF assms(1,2)] by blast
  let ?s = "slot_address ip way st off"
  have st: "st < 2 ^ k" using assms(6) k(2) by simp
  note lt = bit_of_nat_less[OF assms(5), where 'a = 64] bit_of_nat_less[OF st, where 'a = 64]
    bit_of_nat_less[OF assms(7), where 'a = 64]
  have bits: "bit ?s j \<longleftrightarrow> j < 64 \<and>
      (if j < sh then bit (of_nat off :: 64 word) j
       else if j < sh + k then bit (of_nat st :: 64 word) (j - sh)
       else bit (of_nat way :: 64 word) (j - (sh + k)))" for j
    using lt(1)[of "j - (sh + k)"] lt(2)[of "j - sh"] lt(3)[of j]
    by (auto simp: slot_address_def k bit_or_iff bit_push_bit_iff dest: bit_imp_le_length)
  have wm: "ucast (wayMask ip) = (mask m :: addr)"
    using assms(3) k(6) by (simp add: mask_eq_exp_minus_1[symmetric] ucast_mask32)
  have w64: "sh + k + j < 64" if "bit (of_nat way :: 64 word) j" for j
    using lt(1)[OF that] assms(4) k(4) by simp
  have "drop_bit (sh + k) ?s AND mask m = of_nat way"
    by (rule bit_word_eqI) (use w64 lt(1) in
        \<open>auto simp: bits bit_and_iff bit_drop_bit_eq bit_mask_iff\<close>)
  moreover have "drop_bit sh ?s AND mask k = of_nat st"
    by (rule bit_word_eqI) (use assms(4) k(4) lt(2) in
        \<open>auto simp: bits bit_and_iff bit_drop_bit_eq bit_mask_iff\<close>)
  moreover have "?s AND mask sh = of_nat off"
    by (rule bit_word_eqI) (use lt(3) in \<open>auto simp: bits bit_and_iff bit_mask_iff\<close>)
  moreover have "way < 2 ^ LENGTH(64)" "st < 2 ^ LENGTH(64)" "off < 2 ^ LENGTH(64)"
    using assms(4,5,7) st k(1,4) power_increasing[of m 64 "2::nat"]
      power_increasing[of k 64 "2::nat"] power_increasing[of sh 64 "2::nat"] by simp_all
  ultimately show ?thesis
    using k wm by (simp add: extractWay_def extractSet_def ucast_mask32 unat_of_nat_small)
qed

text \<open>
  C25. Scratchpad slots do not alias: with a power-of-two associativity, way, set and byte
  offset are recovered from a slot address by the extraction functions, so two slots in
  different ways or sets are different blocks of the cache.
\<close>

theorem slot_address_decodes:
  assumes "IndexingPolicy_new (2 ^ m) n sh = Inr ip" and "n < 2 ^ 32" and "m < 32"
    and "wayShift ip + m \<le> 64"
    and "way < 2 ^ m" and "st < numSets ip" and "off < 2 ^ sh"
  shows "extractWay ip (slot_address ip way st off) = way
     \<and> extractSet ip (slot_address ip way st off) = st
     \<and> unat (slot_address ip way st off AND mask sh) = off"
  using slot_decode[OF assms] .

theorem slot_address_decodes_witness:
  "extractWay sample_indexing (slot_address sample_indexing 2 1 17) = 2"
  using slot_address_decodes[of 2 8 6 sample_indexing 2 1 17] sample_indexing_new
  by (simp add: sample_indexing_def)

end
