(* ===== verification/Cache_Blk.thy ===== *)
theory Cache_Blk
  imports Packet Indexing
begin

text \<open>
  Cache blocks: \<^verbatim>\<open>TaggedEntry\<close> of src/gem5/src/mem/cache/tags/tagged_entry.hh and
  \<^verbatim>\<open>CacheBlk\<close> of src/gem5/src/mem/cache/cache_blk.hh with CacheFlex's scratchpad, wait
  and pin bits, the load-locked list, and insertion (cache_blk.cc). The tag extractor a block
  is registered with is the indexing policy's, an argument here. The current tick is an
  argument of the operations that read it.
\<close>

section \<open>Coherence bits\<close>

definition WritableBit :: flags32 where
  "WritableBit = 0x02"

definition ReadableBit :: flags32 where
  "ReadableBit = 0x04"

definition DirtyBit :: flags32 where
  "DirtyBit = 0x08"

definition ScratchpadBit :: flags32 where
  "ScratchpadBit = 0x10"

definition WaitBit :: flags32 where
  "WaitBit = 0x20"

definition PinnedBit :: flags32 where
  "PinnedBit = 0x40"

definition AllBits :: flags32 where
  "AllBits = WritableBit OR ReadableBit OR DirtyBit OR ScratchpadBit OR WaitBit OR PinnedBit"

named_theorems coherence_defs "values of the coherence bits, for evaluation"

lemmas [coherence_defs] = WritableBit_def ReadableBit_def DirtyBit_def ScratchpadBit_def
  WaitBit_def PinnedBit_def AllBits_def

section \<open>Blocks and locks\<close>

record lock =
  lockContextId :: int
  lowAddr :: addr
  highAddr :: addr

record cache_blk =
  blkValid :: bool
  blkSecure :: bool
  blkTag :: addr
  blkData :: "byte list"
  whenReady :: tick
  lockList :: "lock list"
  coherence :: flags32
  blkTaskId :: nat
  srcRequestorId :: nat
  partitionId :: "64 word"
  refCount :: nat
  tickInserted :: tick
  wasPrefetched :: bool

definition Lock_new :: "request \<Rightarrow> lock" where
  "Lock_new r =
     \<lparr>lockContextId = contextId r, lowAddr = paddr r, highAddr = paddr r + of_nat (rsize r) - 1\<rparr>"

definition lock_matches :: "request \<Rightarrow> lock \<Rightarrow> bool" where
  "lock_matches r l =
     (let req_low = paddr r; req_high = req_low + of_nat (rsize r) - 1
      in lockContextId l = contextId r \<and> req_low \<ge> lowAddr l \<and> req_high \<le> highAddr l)"

definition lock_intersects :: "request \<Rightarrow> lock \<Rightarrow> bool" where
  "lock_intersects r l =
     (let req_low = paddr r; req_high = req_low + of_nat (rsize r) - 1
      in req_low \<le> highAddr l \<and> req_high \<ge> lowAddr l)"

definition blk_match :: "indexing_policy \<Rightarrow> addr \<Rightarrow> bool \<Rightarrow> cache_blk \<Rightarrow> bool" where
  "blk_match ip a sec b \<longleftrightarrow> blkValid b \<and> blkTag b = extractTag ip a \<and> blkSecure b = sec"

definition setValid :: "cache_blk \<Rightarrow> cache_blk res" where
  "setValid b = must (\<not> blkValid b) (Inr (b\<lparr>blkValid := True\<rparr>))"

definition tagged_insert :: "indexing_policy \<Rightarrow> addr \<Rightarrow> bool \<Rightarrow> cache_blk \<Rightarrow> cache_blk res" where
  "tagged_insert ip a sec b =
     bindR (setValid b) (\<lambda>b1.
       let b2 = b1\<lparr>blkTag := extractTag ip a\<rparr>
       in Inr (if sec then b2\<lparr>blkSecure := True\<rparr> else b2))"

definition tagged_invalidate :: "cache_blk \<Rightarrow> cache_blk" where
  "tagged_invalidate b = b\<lparr>blkValid := False, blkTag := MaxAddr, blkSecure := False\<rparr>"

definition setSpmTag :: "cache_blk \<Rightarrow> cache_blk" where
  "setSpmTag b = b\<lparr>blkTag := MaxAddr - 1\<rparr>"

definition setCoherenceBits :: "flags32 \<Rightarrow> cache_blk \<Rightarrow> cache_blk res" where
  "setCoherenceBits cb b =
     bindR (if cb = ScratchpadBit
            then bindR (if \<not> blkValid b then setValid b else Inr b) (\<lambda>b1. Inr (b1\<lparr>blkTag := MaxAddr\<rparr>))
            else Inr b)
       (\<lambda>b1. must (blkValid b1) (Inr (b1\<lparr>coherence := coherence b1 OR cb\<rparr>)))"

definition clearCoherenceBits :: "flags32 \<Rightarrow> cache_blk \<Rightarrow> cache_blk" where
  "clearCoherenceBits cb b = b\<lparr>coherence := coherence b AND NOT cb\<rparr>"

definition blk_isSet :: "flags32 \<Rightarrow> cache_blk \<Rightarrow> bool" where
  "blk_isSet cb b \<longleftrightarrow> blkValid b \<and> coherence b AND cb \<noteq> 0"

definition setPrefetched :: "cache_blk \<Rightarrow> cache_blk" where
  "setPrefetched b = b\<lparr>wasPrefetched := True\<rparr>"

definition clearPrefetched :: "cache_blk \<Rightarrow> cache_blk" where
  "clearPrefetched b = b\<lparr>wasPrefetched := False\<rparr>"

definition getWhenReady :: "cache_blk \<Rightarrow> tick res" where
  "getWhenReady b = must (whenReady b \<noteq> MaxTick) (Inr (whenReady b))"

definition setWhenReady :: "tick \<Rightarrow> cache_blk \<Rightarrow> cache_blk res" where
  "setWhenReady t b = must (t \<ge> tickInserted b) (Inr (b\<lparr>whenReady := t\<rparr>))"

definition increaseRefCount :: "cache_blk \<Rightarrow> cache_blk" where
  "increaseRefCount b = b\<lparr>refCount := refCount b + 1\<rparr>"

definition getAge :: "tick \<Rightarrow> cache_blk \<Rightarrow> tick res" where
  "getAge now b = must (tickInserted b \<le> now) (Inr (now - tickInserted b))"

definition blk_invalidate :: "cache_blk \<Rightarrow> cache_blk res" where
  "blk_invalidate b =
     (let b1 = tagged_invalidate b;
          b2 = clearPrefetched b1;
          b3 = clearCoherenceBits AllBits b2;
          b4 = b3\<lparr>blkTaskId := unknown_task_id, partitionId := - 1\<rparr>
      in bindR (setWhenReady MaxTick b4) (\<lambda>b5.
           Inr (b5\<lparr>refCount := 0, srcRequestorId := invldRequestorId, lockList := []\<rparr>)))"

text \<open>The four-argument \<^verbatim>\<open>insert\<close> of cache_blk.cc, at tick \<open>now\<close>.\<close>

definition blk_insert ::
  "tick \<Rightarrow> indexing_policy \<Rightarrow> addr \<Rightarrow> bool \<Rightarrow> nat \<Rightarrow> nat \<Rightarrow> 64 word \<Rightarrow> cache_blk \<Rightarrow> cache_blk res" where
  "blk_insert now ip a sec src task part b =
     must (\<not> blkValid b)
       (bindR (tagged_insert ip a sec b) (\<lambda>b1.
          Inr (increaseRefCount
            (b1\<lparr>srcRequestorId := src, blkTaskId := task, partitionId := part, tickInserted := now\<rparr>))))"

definition trackLoadLocked :: "packet \<Rightarrow> cache_blk \<Rightarrow> cache_blk res" where
  "trackLoadLocked p b =
     must (isLLSC (cmd p))
       (Inr (b\<lparr>lockList := Lock_new (req p) # filter (\<lambda>l. \<not> lock_intersects (req p) l) (lockList b)\<rparr>))"

definition clearLoadLocks :: "request \<Rightarrow> cache_blk \<Rightarrow> cache_blk" where
  "clearLoadLocks r b =
     b\<lparr>lockList := filter (\<lambda>l. \<not> (lock_intersects r l \<and> lockContextId l \<noteq> contextId r)) (lockList b)\<rparr>"

text \<open>The search loop of a store conditional erases the first matching lock.\<close>

fun erase_match :: "request \<Rightarrow> lock list \<Rightarrow> bool \<times> lock list" where
  "erase_match r [] = (False, [])"
| "erase_match r (l # ls) =
     (if lock_matches r l then (True, ls)
      else (case erase_match r ls of (found, ls') \<Rightarrow> (found, l # ls')))"

definition checkWrite :: "packet \<Rightarrow> cache_blk \<Rightarrow> (bool \<times> packet \<times> cache_blk) res" where
  "checkWrite p b =
     must (isWrite (cmd p))
       (if \<not> isLLSC (cmd p) \<and> lockList b = [] then Inr (True, p, b)
        else if isLLSC (cmd p)
        then (case erase_match (req p) (lockList b) of (success, ls) \<Rightarrow>
               let r = setExtraData (if success then 1 else 0) (req p)
               in Inr (success, p\<lparr>req := r\<rparr>, clearLoadLocks r (b\<lparr>lockList := ls\<rparr>)))
        else Inr (True, p, clearLoadLocks (req p) b))"

text \<open>
  Move assignment. The destination is inserted with the source's tag in the place of an
  address, as the code does.
\<close>

definition blk_move :: "tick \<Rightarrow> indexing_policy \<Rightarrow> cache_blk \<Rightarrow> cache_blk \<Rightarrow> (cache_blk \<times> cache_blk) res" where
  "blk_move now ip other b =
     must (\<not> blkValid b) (must (blkValid other)
       (bindR (tagged_insert ip (blkTag other) (blkSecure other) b) (\<lambda>b1.
        bindR (setCoherenceBits (coherence other)
                 (if wasPrefetched other then setPrefetched b1 else b1)) (\<lambda>b2.
        bindR (setWhenReady now
                 (b2\<lparr>blkTaskId := blkTaskId other, partitionId := partitionId other\<rparr>)) (\<lambda>b3.
        bindR (blk_invalidate (other\<lparr>lockList := lockList b3\<rparr>)) (\<lambda>other'.
          Inr (other', b3\<lparr>refCount := refCount other, srcRequestorId := srcRequestorId other,
                 lockList := lockList other\<rparr>)))))))"

text \<open>The MOESI letter of \<^verbatim>\<open>CacheBlk::print\<close>.\<close>

datatype moesi = MO_M | MO_O | MO_E | MO_S | MO_I | MO_T

definition moesi_state :: "cache_blk \<Rightarrow> moesi" where
  "moesi_state b =
     (case (blk_isSet WritableBit b, blk_isSet DirtyBit b, blkValid b) of
        (True, True, True) \<Rightarrow> MO_M
      | (False, True, True) \<Rightarrow> MO_O
      | (True, False, True) \<Rightarrow> MO_E
      | (False, False, True) \<Rightarrow> MO_S
      | (False, False, False) \<Rightarrow> MO_I
      | _ \<Rightarrow> MO_T)"

definition CacheBlk_new :: "byte list \<Rightarrow> cache_blk" where
  "CacheBlk_new d =
     \<lparr>blkValid = False, blkSecure = False, blkTag = MaxAddr, blkData = d, whenReady = MaxTick,
      lockList = [], coherence = 0, blkTaskId = unknown_task_id,
      srcRequestorId = invldRequestorId, partitionId = - 1, refCount = 0, tickInserted = 0,
      wasPrefetched = False\<rparr>"

section \<open>Scratchpad blocks are invisible to tag lookups\<close>

lemma extractTag_not_MaxAddr: "0 < tagShift ip \<Longrightarrow> extractTag ip a \<noteq> MaxAddr"
proof
  assume k: "0 < tagShift ip" and "extractTag ip a = MaxAddr"
  then have "bit (extractTag ip a) 63" by (simp add: MaxAddr_def bit_minus_1_iff)
  with k show False by (auto simp: extractTag_def bit_drop_bit_eq dest: bit_imp_le_length)
qed

text \<open>
  A scratchpad block carries the reserved tag, and an invalid block carries no bits. This
  is what every block operation keeps.
\<close>

definition blk_wf :: "cache_blk \<Rightarrow> bool" where
  "blk_wf b \<longleftrightarrow>
     (coherence b AND ScratchpadBit \<noteq> 0 \<longrightarrow> blkTag b = MaxAddr) \<and>
     (\<not> blkValid b \<longrightarrow> coherence b AND AllBits = 0 \<and> lockList b = [] \<and> \<not> blkSecure b)"

lemma and_or_disjoint: "c AND m = 0 \<Longrightarrow> (x OR c) AND m = x AND (m :: 'a::len word)"
  by (simp add: bit.conj_disj_distrib2)

lemma and_subset_zero: "x AND m = 0 \<Longrightarrow> k AND m = k \<Longrightarrow> x AND k = (0 :: 'a::len word)"
  by (metis and.assoc and.commute and_zero_eq)

lemma scratchpad_subset: "ScratchpadBit AND AllBits = ScratchpadBit"
  by (simp add: coherence_defs)

lemma blk_wf_CacheBlk_new: "blk_wf (CacheBlk_new d)"
  by (simp add: blk_wf_def CacheBlk_new_def)

lemma blk_wf_clearCoherenceBits: "blk_wf b \<Longrightarrow> blk_wf (clearCoherenceBits m b)"
proof -
  have "(coherence b AND NOT m) AND k = (coherence b AND k) AND NOT m" for k
    by (simp only: ac_simps)
  then show "blk_wf b \<Longrightarrow> blk_wf (clearCoherenceBits m b)"
    by (auto simp: blk_wf_def clearCoherenceBits_def)
qed

lemma blk_wf_invalidate: "blk_invalidate b = Inr b' \<Longrightarrow> blk_wf b' \<and> \<not> blkValid b'"
proof -
  assume h: "blk_invalidate b = Inr b'"
  then have "coherence b' AND AllBits = 0" "blkTag b' = MaxAddr" "\<not> blkValid b'" "lockList b' = []"
      "\<not> blkSecure b'"
    by (auto simp: blk_invalidate_def Let_def setWhenReady_def clearCoherenceBits_def
        clearPrefetched_def tagged_invalidate_def and.assoc)
  then show ?thesis by (simp add: blk_wf_def)
qed

lemma blk_wf_tagged_insert:
  "blk_wf b \<Longrightarrow> tagged_insert ip a sec b = Inr b' \<Longrightarrow>
   blk_wf b' \<and> blkValid b' \<and> blkTag b' = extractTag ip a \<and> coherence b' = coherence b
   \<and> blkSecure b' = sec \<and> blkData b' = blkData b"
  using and_subset_zero[OF _ scratchpad_subset, of "coherence b"]
  by (auto simp: blk_wf_def tagged_insert_def setValid_def Let_def split: if_splits)

lemma blk_wf_insert:
  assumes "blk_wf b" and "blk_insert now ip a sec src task part b = Inr b'"
  shows "blk_wf b' \<and> blkValid b' \<and> blkTag b' = extractTag ip a \<and> blkSecure b' = sec
    \<and> blkData b' = blkData b \<and> coherence b' = coherence b"
proof -
  obtain b1 where "tagged_insert ip a sec b = Inr b1"
    and "b' = increaseRefCount
      (b1\<lparr>srcRequestorId := src, blkTaskId := task, partitionId := part, tickInserted := now\<rparr>)"
    using assms(2) by (auto simp: blk_insert_def)
  then show ?thesis
    using blk_wf_tagged_insert[OF assms(1)] by (simp add: increaseRefCount_def blk_wf_def)
qed

lemma blk_wf_setCoherenceBits:
  assumes "blk_wf b" and "setCoherenceBits m b = Inr b'" and "m = ScratchpadBit \<or> m AND ScratchpadBit = 0"
  shows "blk_wf b' \<and> blkValid b'"
proof (cases "m = ScratchpadBit")
  case True
  then show ?thesis
    using assms(2) by (auto simp: setCoherenceBits_def blk_wf_def setValid_def split: if_splits)
next
  case False
  then have "m AND ScratchpadBit = 0" using assms(3) by simp
  then have "(coherence b OR m) AND ScratchpadBit = coherence b AND ScratchpadBit"
    by (rule and_or_disjoint)
  with False show ?thesis
    using assms(1,2) by (auto simp: setCoherenceBits_def blk_wf_def)
qed

lemma scratchpad_blk_no_match:
  assumes "blk_wf b" and "blk_isSet ScratchpadBit b" and "0 < tagShift ip"
  shows "\<not> blk_match ip a sec b"
  using assms extractTag_not_MaxAddr[OF assms(3), of a]
  by (auto simp: blk_wf_def blk_isSet_def blk_match_def)

text \<open>
  C17. Turning a block into a scratchpad slot hides it from every ordinary access: whatever
  the block held before, after \<open>setCoherenceBits ScratchpadBit\<close> no address, secure or
  not, matches it, because the reserved tag is not a tag any address has.
\<close>

theorem scratchpad_block_hidden:
  assumes "setCoherenceBits ScratchpadBit b = Inr b'" and "0 < tagShift ip"
  shows "blkValid b' \<and> blk_isSet ScratchpadBit b' \<and> (\<forall>a sec. \<not> blk_match ip a sec b')"
proof -
  have "blkValid b'" "blkTag b' = MaxAddr" "coherence b' = coherence b OR ScratchpadBit"
    using assms(1) by (auto simp: setCoherenceBits_def setValid_def split: if_splits)
  moreover have "(coherence b OR ScratchpadBit) AND ScratchpadBit \<noteq> 0"
    using flag_isSet_set_same[of ScratchpadBit "coherence b"]
    by (simp add: flag_defs ScratchpadBit_def)
  ultimately show ?thesis
    using extractTag_not_MaxAddr[OF assms(2), symmetric] by (auto simp: blk_isSet_def blk_match_def)
qed

theorem scratchpad_block_hidden_witness:
  "\<forall>a sec. \<not> blk_match sample_indexing a sec
     ((CacheBlk_new [])\<lparr>blkValid := True, blkTag := MaxAddr, coherence := ScratchpadBit\<rparr>)"
proof -
  have "setCoherenceBits ScratchpadBit (CacheBlk_new []) =
      Inr ((CacheBlk_new [])\<lparr>blkValid := True, blkTag := MaxAddr, coherence := ScratchpadBit\<rparr>)"
    by (simp add: setCoherenceBits_def setValid_def CacheBlk_new_def)
  then show ?thesis
    using scratchpad_block_hidden[where ip = sample_indexing] by (simp add: sample_indexing_def)
qed

section \<open>Load-locked and store-conditional\<close>

text \<open>Ordinary writes to the block, in sequence.\<close>

definition run_writes :: "packet list \<Rightarrow> cache_blk \<Rightarrow> cache_blk res" where
  "run_writes ws b = foldR (\<lambda>w b. bindR (checkWrite w b) (\<lambda>(ok, w', b'). Inr b')) ws b"

definition breaks_lock :: "lock \<Rightarrow> packet \<Rightarrow> bool" where
  "breaks_lock l w \<longleftrightarrow> lock_intersects (req w) l \<and> lockContextId l \<noteq> contextId (req w)"

lemma checkWrite_ordinary:
  assumes "isWrite (cmd w)" "\<not> isLLSC (cmd w)"
  shows "checkWrite w b = Inr (True, w, b\<lparr>lockList := filter (\<lambda>l. \<not> breaks_lock l w) (lockList b)\<rparr>)"
  using assms by (simp add: checkWrite_def clearLoadLocks_def breaks_lock_def)

lemma run_writes_locks:
  assumes "\<forall>w \<in> set ws. isWrite (cmd w) \<and> \<not> isLLSC (cmd w)"
  shows "run_writes ws b =
    Inr (b\<lparr>lockList := filter (\<lambda>l. \<forall>w \<in> set ws. \<not> breaks_lock l w) (lockList b)\<rparr>)"
  using assms
proof (induction ws arbitrary: b)
  case Nil
  then show ?case by (simp add: run_writes_def)
next
  case (Cons w ws)
  from Cons.IH[of "b\<lparr>lockList := filter (\<lambda>l. \<not> breaks_lock l w) (lockList b)\<rparr>"] Cons.prems
  show ?case
    by (simp add: run_writes_def checkWrite_ordinary conj_commute)
qed

lemma erase_match_found: "fst (erase_match r ls) \<longleftrightarrow> (\<exists>l \<in> set ls. lock_matches r l)"
  by (induction ls) (auto split: prod.splits)


definition sample_ctx_pkt :: "mem_cmd \<Rightarrow> int \<Rightarrow> packet" where
  "sample_ctx_pkt c ctx = Packet_blk ((sample_request 0)\<lparr>contextId := ctx\<rparr>) c 4"


section \<open>Moving a block\<close>

text \<open>
  C37. Moving a valid block to an invalid one does not keep its address: the destination is
  inserted with the source's tag where an address is expected, so its tag is the source's
  tag shifted down once more. Unless that tag was zero, the block that matched an address
  before the move is not matched by it afterwards.
\<close>

theorem move_changes_tag:
  assumes "blk_move now ip src dst = Inr (src', dst')" and "coherence src \<noteq> ScratchpadBit"
    and "blk_match ip a sec src" and "0 < tagShift ip" and "blkTag src \<noteq> 0"
  shows "blkTag dst' = drop_bit (tagShift ip) (blkTag src) \<and> \<not> blk_match ip a sec dst'"
proof -
  have t: "blkTag dst' = drop_bit (tagShift ip) (blkTag src)"
    using assms(1,2)
    by (auto simp: blk_move_def tagged_insert_def setCoherenceBits_def setWhenReady_def Let_def
        extractTag_def setPrefetched_def setValid_def split: if_splits)
  have "drop_bit (tagShift ip) (blkTag src) \<noteq> blkTag src"
  proof
    assume "drop_bit (tagShift ip) (blkTag src) = blkTag src"
    then have "unat (blkTag src) div 2 ^ tagShift ip = unat (blkTag src)"
      by (metis unat_drop_bit_eq drop_bit_eq_div)
    moreover have "unat (blkTag src) div 2 ^ tagShift ip < unat (blkTag src)"
      using assms(4,5) one_less_power[of "2 :: nat" "tagShift ip"]
      by (intro div_less_dividend) (simp_all add: unat_gt_0)
    ultimately show False by simp
  qed
  with t show ?thesis
    using assms(3) by (auto simp: blk_match_def)
qed

theorem move_changes_tag_witness:
  "\<exists>src' dst'. blk_move 5 sample_indexing
       ((CacheBlk_new [])\<lparr>blkValid := True, blkTag := 0x200\<rparr>) (CacheBlk_new []) = Inr (src', dst')
     \<and> blkTag dst' = 4"
proof -
  let ?src = "(CacheBlk_new [])\<lparr>blkValid := True, blkTag := 0x200\<rparr>"
  obtain src' dst' where m: "blk_move 5 sample_indexing ?src (CacheBlk_new []) = Inr (src', dst')"
    by (simp add: blk_move_def CacheBlk_new_def tagged_insert_def setValid_def setCoherenceBits_def
        setWhenReady_def blk_invalidate_def tagged_invalidate_def clearPrefetched_def
        clearCoherenceBits_def Let_def ScratchpadBit_def MaxTick_def)
  show ?thesis
    using move_changes_tag[OF m, of "0x10000" False] m
    by (auto simp: CacheBlk_new_def ScratchpadBit_def blk_match_def extractTag_def
        sample_indexing_def)
qed

end
