(* ===== verification/Repl_Policies.thy ===== *)
theory Repl_Policies
  imports Packet Int_Math
begin

text \<open>
  Replacement policies (src/gem5/src/mem/cache/replacement_policies). The replacement data a
  policy shares with the entries by pointer is a store indexed by the entry (the index of the
  block in the tag store's array). The random number generator is an argument: \<open>rnd lo hi\<close>
  is the number the next draw from that range returns.

  The locale \<open>replacement_policy\<close> is what the tag store relies on; it is interpreted for
  every policy below that satisfies it. \<open>TreePLRU\<close> does not: it needs the complete set
  as candidates, which is a theorem here.
\<close>

record repl_env =
  now :: tick
  rnd :: "nat \<Rightarrow> nat \<Rightarrow> nat"

definition rng_ok :: "repl_env \<Rightarrow> bool" where
  "rng_ok e \<longleftrightarrow> (\<forall>lo hi. lo \<le> hi \<longrightarrow> lo \<le> rnd e lo hi \<and> rnd e lo hi \<le> hi)"

section \<open>The interface\<close>

text \<open>
  The operations of \<^verbatim>\<open>replacement_policy::Base\<close> on a store of type \<open>'s\<close>.
\<close>

record 's policy_ops =
  rp_invalidate :: "nat \<Rightarrow> 's \<Rightarrow> 's res"
  rp_touch :: "repl_env \<Rightarrow> nat \<Rightarrow> 's \<Rightarrow> 's res"
  rp_reset :: "repl_env \<Rightarrow> nat \<Rightarrow> 's \<Rightarrow> 's res"
  rp_getVictim :: "repl_env \<Rightarrow> nat list \<Rightarrow> 's \<Rightarrow> (nat \<times> 's) res"

text \<open>
  The search loop shared by most policies: start with the first candidate and replace it
  whenever a candidate is better.
\<close>

fun select_victim :: "('e \<Rightarrow> 'e \<Rightarrow> bool) \<Rightarrow> 'e \<Rightarrow> 'e list \<Rightarrow> 'e" where
  "select_victim better victim [] = victim"
| "select_victim better victim (c # cs) =
     select_victim better (if better c victim then c else victim) cs"

section \<open>LRU and BIP\<close>

type_synonym lru_store = "nat \<Rightarrow> tick"

definition LRU_invalidate :: "nat \<Rightarrow> lru_store \<Rightarrow> lru_store res" where
  "LRU_invalidate e s = Inr (s(e := 0))"

definition LRU_touch :: "repl_env \<Rightarrow> nat \<Rightarrow> lru_store \<Rightarrow> lru_store res" where
  "LRU_touch env e s = Inr (s(e := now env))"

definition LRU_reset :: "repl_env \<Rightarrow> nat \<Rightarrow> lru_store \<Rightarrow> lru_store res" where
  "LRU_reset env e s = Inr (s(e := now env))"

definition LRU_getVictim :: "repl_env \<Rightarrow> nat list \<Rightarrow> lru_store \<Rightarrow> (nat \<times> lru_store) res" where
  "LRU_getVictim env cands s =
     must (cands \<noteq> []) (Inr (select_victim (\<lambda>c v. s c < s v) (hd cands) cands, s))"

definition LRU_ops :: "lru_store policy_ops" where
  "LRU_ops = \<lparr>rp_invalidate = LRU_invalidate, rp_touch = LRU_touch, rp_reset = LRU_reset,
     rp_getVictim = LRU_getVictim\<rparr>"

definition BIP_reset :: "nat \<Rightarrow> repl_env \<Rightarrow> nat \<Rightarrow> lru_store \<Rightarrow> lru_store res" where
  "BIP_reset btp env e s = Inr (s(e := (if rnd env 1 100 \<le> btp then now env else 1)))"

definition BIP_ops :: "nat \<Rightarrow> lru_store policy_ops" where
  "BIP_ops btp = LRU_ops\<lparr>rp_reset := BIP_reset btp\<rparr>"

section \<open>MRU\<close>

fun mru_loop :: "lru_store \<Rightarrow> nat \<Rightarrow> nat list \<Rightarrow> nat" where
  "mru_loop s victim [] = victim"
| "mru_loop s victim (c # cs) =
     (if s c = 0 then c else mru_loop s (if s c > s victim then c else victim) cs)"

definition MRU_getVictim :: "repl_env \<Rightarrow> nat list \<Rightarrow> lru_store \<Rightarrow> (nat \<times> lru_store) res" where
  "MRU_getVictim env cands s = must (cands \<noteq> []) (Inr (mru_loop s (hd cands) cands, s))"

definition MRU_invalidate :: "nat \<Rightarrow> lru_store \<Rightarrow> lru_store res" where
  "MRU_invalidate e s = Inr (s(e := 0))"

definition MRU_touch :: "repl_env \<Rightarrow> nat \<Rightarrow> lru_store \<Rightarrow> lru_store res" where
  "MRU_touch env e s = Inr (s(e := now env))"

definition MRU_reset :: "repl_env \<Rightarrow> nat \<Rightarrow> lru_store \<Rightarrow> lru_store res" where
  "MRU_reset env e s = Inr (s(e := now env))"

definition MRU_ops :: "lru_store policy_ops" where
  "MRU_ops = \<lparr>rp_invalidate = MRU_invalidate, rp_touch = MRU_touch, rp_reset = MRU_reset,
     rp_getVictim = MRU_getVictim\<rparr>"

section \<open>LFU\<close>

definition LFU_invalidate :: "nat \<Rightarrow> (nat \<Rightarrow> nat) \<Rightarrow> (nat \<Rightarrow> nat) res" where
  "LFU_invalidate e s = Inr (s(e := 0))"

definition LFU_touch :: "repl_env \<Rightarrow> nat \<Rightarrow> (nat \<Rightarrow> nat) \<Rightarrow> (nat \<Rightarrow> nat) res" where
  "LFU_touch env e s = Inr (s(e := s e + 1))"

definition LFU_reset :: "repl_env \<Rightarrow> nat \<Rightarrow> (nat \<Rightarrow> nat) \<Rightarrow> (nat \<Rightarrow> nat) res" where
  "LFU_reset env e s = Inr (s(e := 1))"

definition LFU_getVictim :: "repl_env \<Rightarrow> nat list \<Rightarrow> (nat \<Rightarrow> nat) \<Rightarrow> (nat \<times> (nat \<Rightarrow> nat)) res" where
  "LFU_getVictim env cands s =
     must (cands \<noteq> []) (Inr (select_victim (\<lambda>c v. s c < s v) (hd cands) cands, s))"

definition LFU_ops :: "(nat \<Rightarrow> nat) policy_ops" where
  "LFU_ops = \<lparr>rp_invalidate = LFU_invalidate, rp_touch = LFU_touch, rp_reset = LFU_reset,
     rp_getVictim = LFU_getVictim\<rparr>"

section \<open>FIFO and second chance\<close>

record fifo_store =
  timeTicks :: tick
  fifoInserted :: "nat \<Rightarrow> tick"

definition FIFO_reset :: "repl_env \<Rightarrow> nat \<Rightarrow> 'a fifo_store_scheme \<Rightarrow> 'a fifo_store_scheme res" where
  "FIFO_reset env e s =
     Inr (s\<lparr>timeTicks := timeTicks s + 1, fifoInserted := (fifoInserted s)(e := timeTicks s + 1)\<rparr>)"

definition FIFO_invalidate :: "nat \<Rightarrow> 'a fifo_store_scheme \<Rightarrow> 'a fifo_store_scheme res" where
  "FIFO_invalidate e s =
     Inr (s\<lparr>timeTicks := timeTicks s + 1, fifoInserted := (fifoInserted s)(e := timeTicks s + 1)\<rparr>)"

definition FIFO_touch :: "repl_env \<Rightarrow> nat \<Rightarrow> 'a fifo_store_scheme \<Rightarrow> 'a fifo_store_scheme res" where
  "FIFO_touch env e s = Inr s"

definition FIFO_victim :: "nat list \<Rightarrow> 'a fifo_store_scheme \<Rightarrow> nat" where
  "FIFO_victim cands s = select_victim (\<lambda>c v. fifoInserted s c < fifoInserted s v) (hd cands) cands"

definition FIFO_getVictim ::
  "repl_env \<Rightarrow> nat list \<Rightarrow> 'a fifo_store_scheme \<Rightarrow> (nat \<times> 'a fifo_store_scheme) res" where
  "FIFO_getVictim env cands s = must (cands \<noteq> []) (Inr (FIFO_victim cands s, s))"

definition FIFO_ops :: "fifo_store policy_ops" where
  "FIFO_ops = \<lparr>rp_invalidate = FIFO_invalidate, rp_touch = FIFO_touch, rp_reset = FIFO_reset,
     rp_getVictim = FIFO_getVictim\<rparr>"

record second_chance_store = fifo_store +
  hasSecondChance :: "nat \<Rightarrow> bool"

definition useSecondChance :: "nat \<Rightarrow> second_chance_store \<Rightarrow> second_chance_store" where
  "useSecondChance e s =
     s\<lparr>timeTicks := timeTicks s + 1, fifoInserted := (fifoInserted s)(e := timeTicks s + 1),
       hasSecondChance := (hasSecondChance s)(e := False)\<rparr>"

definition SC_invalidate :: "nat \<Rightarrow> second_chance_store \<Rightarrow> second_chance_store res" where
  "SC_invalidate e s =
     bindR (FIFO_invalidate e s) (\<lambda>s1. Inr (s1\<lparr>hasSecondChance := (hasSecondChance s1)(e := False)\<rparr>))"

definition SC_touch :: "repl_env \<Rightarrow> nat \<Rightarrow> second_chance_store \<Rightarrow> second_chance_store res" where
  "SC_touch env e s =
     bindR (FIFO_touch env e s) (\<lambda>s1. Inr (s1\<lparr>hasSecondChance := (hasSecondChance s1)(e := True)\<rparr>))"

definition SC_reset :: "repl_env \<Rightarrow> nat \<Rightarrow> second_chance_store \<Rightarrow> second_chance_store res" where
  "SC_reset env e s =
     bindR (FIFO_reset env e s) (\<lambda>s1. Inr (s1\<lparr>hasSecondChance := (hasSecondChance s1)(e := False)\<rparr>))"

lemma select_victim_mem: "select_victim better v cs \<in> insert v (set cs)"
  by (induction cs arbitrary: v) auto

lemma FIFO_victim_mem: "cands \<noteq> [] \<Longrightarrow> FIFO_victim cands s \<in> set cands"
  using select_victim_mem[of "\<lambda>c v. fifoInserted s c < fifoInserted s v" "hd cands" cands]
  by (cases cands) (auto simp: FIFO_victim_def)

text \<open>The search loop of the second chance policy; each round uses up one second chance.\<close>

function sc_loop :: "nat list \<Rightarrow> second_chance_store \<Rightarrow> nat \<times> second_chance_store" where
  "sc_loop cands s =
     (let victim = FIFO_victim cands s
      in if cands \<noteq> [] \<and> hasSecondChance s victim
         then sc_loop cands (useSecondChance victim s)
         else (victim, s))"
  by pat_completeness auto
termination
proof (relation "measure (\<lambda>(cands, s). card {c \<in> set cands. hasSecondChance s c})")
  fix cands :: "nat list" and s :: second_chance_store and victim
  assume v: "victim = FIFO_victim cands s" and h: "cands \<noteq> [] \<and> hasSecondChance s victim"
  have "victim \<in> set cands" using v h FIFO_victim_mem by blast
  then have "{c \<in> set cands. hasSecondChance (useSecondChance victim s) c}
      \<subset> {c \<in> set cands. hasSecondChance s c}"
    using h by (auto simp: useSecondChance_def split: if_splits)
  then show "((cands, useSecondChance victim s), cands, s)
      \<in> measure (\<lambda>(cands, s). card {c \<in> set cands. hasSecondChance s c})"
    by (simp add: psubset_card_mono)
qed simp

definition SC_getVictim ::
  "repl_env \<Rightarrow> nat list \<Rightarrow> second_chance_store \<Rightarrow> (nat \<times> second_chance_store) res" where
  "SC_getVictim env cands s =
     must (cands \<noteq> [])
       (case find (\<lambda>c. fifoInserted s c = 0 \<and> \<not> hasSecondChance s c) cands of
          Some c \<Rightarrow> Inr (c, s)
        | None \<Rightarrow> Inr (sc_loop cands s))"

definition SC_ops :: "second_chance_store policy_ops" where
  "SC_ops = \<lparr>rp_invalidate = SC_invalidate, rp_touch = SC_touch, rp_reset = SC_reset,
     rp_getVictim = SC_getVictim\<rparr>"

declare sc_loop.simps [simp del]

section \<open>Random\<close>

fun first_invalid :: "('e \<Rightarrow> bool) \<Rightarrow> 'e \<Rightarrow> 'e list \<Rightarrow> 'e" where
  "first_invalid valid victim [] = victim"
| "first_invalid valid victim (c # cs) = (if \<not> valid c then c else first_invalid valid victim cs)"

definition Random_invalidate :: "nat \<Rightarrow> (nat \<Rightarrow> bool) \<Rightarrow> (nat \<Rightarrow> bool) res" where
  "Random_invalidate e s = Inr (s(e := False))"

definition Random_touch :: "repl_env \<Rightarrow> nat \<Rightarrow> (nat \<Rightarrow> bool) \<Rightarrow> (nat \<Rightarrow> bool) res" where
  "Random_touch env e s = Inr s"

definition Random_reset :: "repl_env \<Rightarrow> nat \<Rightarrow> (nat \<Rightarrow> bool) \<Rightarrow> (nat \<Rightarrow> bool) res" where
  "Random_reset env e s = Inr (s(e := True))"

definition Random_getVictim :: "repl_env \<Rightarrow> nat list \<Rightarrow> (nat \<Rightarrow> bool) \<Rightarrow> (nat \<times> (nat \<Rightarrow> bool)) res" where
  "Random_getVictim env cands s =
     must (cands \<noteq> []) (Inr (first_invalid s (cands ! rnd env 0 (length cands - 1)) cands, s))"

definition Random_ops :: "(nat \<Rightarrow> bool) policy_ops" where
  "Random_ops = \<lparr>rp_invalidate = Random_invalidate, rp_touch = Random_touch,
     rp_reset = Random_reset, rp_getVictim = Random_getVictim\<rparr>"

section \<open>BRRIP\<close>

record brrip_params =
  numRRPVBits :: nat
  hitPriority :: bool
  brripBtp :: nat

record brrip_entry =
  rrpv :: sat_counter
  brripValid :: bool

type_synonym brrip_store = "nat \<Rightarrow> brrip_entry"

definition BRRIP_instantiateEntry :: "brrip_params \<Rightarrow> brrip_entry res" where
  "BRRIP_instantiateEntry pr =
     fatal_when (numRRPVBits pr = 0)
       (bindR (SatCounter8 (numRRPVBits pr) 0) (\<lambda>c. Inr \<lparr>rrpv = c, brripValid = False\<rparr>))"

definition BRRIP_invalidate :: "nat \<Rightarrow> brrip_store \<Rightarrow> brrip_store res" where
  "BRRIP_invalidate e s = Inr (s(e := (s e)\<lparr>brripValid := False\<rparr>))"

definition BRRIP_touch :: "brrip_params \<Rightarrow> repl_env \<Rightarrow> nat \<Rightarrow> brrip_store \<Rightarrow> brrip_store res" where
  "BRRIP_touch pr env e s =
     Inr (s(e := (s e)\<lparr>rrpv := (if hitPriority pr then sat_reset (rrpv (s e)) else sat_dec (rrpv (s e)))\<rparr>))"

definition BRRIP_reset :: "brrip_params \<Rightarrow> repl_env \<Rightarrow> nat \<Rightarrow> brrip_store \<Rightarrow> brrip_store res" where
  "BRRIP_reset pr env e s =
     (let c = snd (saturate (rrpv (s e)));
          c' = (if rnd env 1 100 \<le> brripBtp pr then sat_dec c else c)
      in Inr (s(e := \<lparr>rrpv = c', brripValid = True\<rparr>)))"

text \<open>\<open>Inl c\<close> is the early return of an invalid candidate, \<open>Inr v\<close> the victim at the end.\<close>

fun brrip_search :: "brrip_store \<Rightarrow> nat \<Rightarrow> nat list \<Rightarrow> nat + nat" where
  "brrip_search s victim [] = Inr victim"
| "brrip_search s victim (c # cs) =
     (if \<not> brripValid (s c) then Inl c
      else brrip_search s (if counter (rrpv (s c)) > counter (rrpv (s victim)) then c else victim) cs)"

definition BRRIP_age :: "int \<Rightarrow> nat list \<Rightarrow> brrip_store \<Rightarrow> brrip_store" where
  "BRRIP_age diff cands s = fold (\<lambda>c s. s(c := (s c)\<lparr>rrpv := sat_add diff (rrpv (s c))\<rparr>)) cands s"

definition BRRIP_getVictim :: "repl_env \<Rightarrow> nat list \<Rightarrow> brrip_store \<Rightarrow> (nat \<times> brrip_store) res" where
  "BRRIP_getVictim env cands s =
     must (cands \<noteq> [])
       (case brrip_search s (hd cands) cands of
          Inl c \<Rightarrow> Inr (c, s)
        | Inr v \<Rightarrow>
            (case saturate (rrpv (s v)) of (diff, c) \<Rightarrow>
               let s1 = s(v := (s v)\<lparr>rrpv := c\<rparr>)
               in Inr (v, if diff > 0 then BRRIP_age (int diff) cands s1 else s1)))"

definition BRRIP_ops :: "brrip_params \<Rightarrow> brrip_store policy_ops" where
  "BRRIP_ops pr = \<lparr>rp_invalidate = BRRIP_invalidate, rp_touch = BRRIP_touch pr,
     rp_reset = BRRIP_reset pr, rp_getVictim = BRRIP_getVictim\<rparr>"

section \<open>Weighted LRU\<close>

record wlru_entry =
  wlruTick :: tick
  last_occ_ptr :: int

type_synonym wlru_store = "nat \<Rightarrow> wlru_entry"

definition WeightedLRU_invalidate :: "nat \<Rightarrow> wlru_store \<Rightarrow> wlru_store res" where
  "WeightedLRU_invalidate e s = Inr (s(e := (s e)\<lparr>wlruTick := 0\<rparr>))"

definition WeightedLRU_touch :: "repl_env \<Rightarrow> nat \<Rightarrow> wlru_store \<Rightarrow> wlru_store res" where
  "WeightedLRU_touch env e s = Inr (s(e := (s e)\<lparr>wlruTick := now env\<rparr>))"

definition WeightedLRU_touch_occ :: "int \<Rightarrow> repl_env \<Rightarrow> nat \<Rightarrow> wlru_store \<Rightarrow> wlru_store res" where
  "WeightedLRU_touch_occ occ env e s =
     bindR (WeightedLRU_touch env e s) (\<lambda>s1. Inr (s1(e := (s1 e)\<lparr>last_occ_ptr := occ\<rparr>)))"

definition wlru_better :: "wlru_store \<Rightarrow> nat \<Rightarrow> nat \<Rightarrow> bool" where
  "wlru_better s c v =
     (if last_occ_ptr (s c) < last_occ_ptr (s v) then True
      else if last_occ_ptr (s c) = last_occ_ptr (s v) then wlruTick (s c) < wlruTick (s v)
      else False)"

definition WeightedLRU_getVictim :: "repl_env \<Rightarrow> nat list \<Rightarrow> wlru_store \<Rightarrow> (nat \<times> wlru_store) res" where
  "WeightedLRU_getVictim env cands s =
     must (cands \<noteq> []) (Inr (select_victim (wlru_better s) (hd cands) cands, s))"

definition WeightedLRU_ops :: "wlru_store policy_ops" where
  "WeightedLRU_ops = \<lparr>rp_invalidate = WeightedLRU_invalidate, rp_touch = WeightedLRU_touch,
     rp_reset = WeightedLRU_touch, rp_getVictim = WeightedLRU_getVictim\<rparr>"

section \<open>Tree PLRU\<close>

text \<open>
  The trees live in a store of their own; an entry's replacement data names its leaf index
  and its tree. \<^verbatim>\<open>(index-1)/2\<close> is computed on 64-bit unsigned numbers.
\<close>

record plru_store =
  numLeaves :: nat
  plruCount :: nat
  plruTrees :: "nat \<Rightarrow> bool list"
  plruIndex :: "nat \<Rightarrow> nat"
  plruTree :: "nat \<Rightarrow> nat"

definition parentIndex :: "nat \<Rightarrow> nat" where
  "parentIndex i = (if i = 0 then 2 ^ 63 - 1 else (i - 1) div 2)"

definition leftSubtreeIndex :: "nat \<Rightarrow> nat" where
  "leftSubtreeIndex i = 2 * i + 1"

definition rightSubtreeIndex :: "nat \<Rightarrow> nat" where
  "rightSubtreeIndex i = 2 * i + 2"

definition isRightSubtree :: "nat \<Rightarrow> bool" where
  "isRightSubtree i \<longleftrightarrow> i mod 2 = 0"

text \<open>The do-while loop of \<^verbatim>\<open>invalidate\<close> and \<^verbatim>\<open>touch\<close>; \<open>f\<close> is the bit to write.\<close>

function plru_climb :: "(bool \<Rightarrow> bool) \<Rightarrow> nat \<Rightarrow> bool list \<Rightarrow> bool list res" where
  "plru_climb f i t =
     (let right = isRightSubtree i; i' = parentIndex i
      in if i' < length t
         then (let t' = t[i' := f right] in if i' \<noteq> 0 then plru_climb f i' t' else Inr t')
         else Inl OutOfRange)"
  by pat_completeness auto
termination
  by (relation "measure (\<lambda>(f, i, t). if i = 0 then 2 ^ 63 else i)")
    (auto simp: parentIndex_def split: if_splits)

function plru_walk :: "bool list \<Rightarrow> nat \<Rightarrow> nat" where
  "plru_walk t i =
     (if i < length t then plru_walk t (if t ! i then rightSubtreeIndex i else leftSubtreeIndex i)
      else i)"
  by pat_completeness auto
termination
  by (relation "measure (\<lambda>(t, i). length t - i)")
    (auto simp: rightSubtreeIndex_def leftSubtreeIndex_def)

declare plru_climb.simps [simp del] plru_walk.simps [simp del]

definition TreePLRU_update :: "(bool \<Rightarrow> bool) \<Rightarrow> nat \<Rightarrow> plru_store \<Rightarrow> plru_store res" where
  "TreePLRU_update f e s =
     bindR (plru_climb f (plruIndex s e) (plruTrees s (plruTree s e)))
       (\<lambda>t. Inr (s\<lparr>plruTrees := (plruTrees s)(plruTree s e := t)\<rparr>))"

definition TreePLRU_invalidate :: "nat \<Rightarrow> plru_store \<Rightarrow> plru_store res" where
  "TreePLRU_invalidate e s = TreePLRU_update (\<lambda>right. right) e s"

definition TreePLRU_touch :: "repl_env \<Rightarrow> nat \<Rightarrow> plru_store \<Rightarrow> plru_store res" where
  "TreePLRU_touch env e s = TreePLRU_update (\<lambda>right. \<not> right) e s"

definition TreePLRU_reset :: "repl_env \<Rightarrow> nat \<Rightarrow> plru_store \<Rightarrow> plru_store res" where
  "TreePLRU_reset env e s = TreePLRU_touch env e s"

definition TreePLRU_getVictim :: "repl_env \<Rightarrow> nat list \<Rightarrow> plru_store \<Rightarrow> (nat \<times> plru_store) res" where
  "TreePLRU_getVictim env cands s =
     must (cands \<noteq> [])
       (let i = plru_walk (plruTrees s (plruTree s (hd cands))) 0
        in if i - (numLeaves s - 1) < length cands
           then Inr (cands ! (i - (numLeaves s - 1)), s)
           else Inl OutOfRange)"

text \<open>\<open>TreePLRU_instantiateEntry e\<close> creates the replacement data of entry \<open>e\<close>.\<close>

definition TreePLRU_instantiateEntry :: "nat \<Rightarrow> plru_store \<Rightarrow> plru_store" where
  "TreePLRU_instantiateEntry e s =
     (let tid = plruCount s div numLeaves s;
          trees = (if plruCount s mod numLeaves s = 0
                   then (plruTrees s)(tid := replicate (numLeaves s - 1) False) else plruTrees s)
      in s\<lparr>plruTrees := trees,
           plruIndex := (plruIndex s)(e := plruCount s mod numLeaves s + numLeaves s - 1),
           plruTree := (plruTree s)(e := tid),
           plruCount := plruCount s + 1\<rparr>)"

definition TreePLRU_ops :: "plru_store policy_ops" where
  "TreePLRU_ops = \<lparr>rp_invalidate = TreePLRU_invalidate, rp_touch = TreePLRU_touch,
     rp_reset = TreePLRU_reset, rp_getVictim = TreePLRU_getVictim\<rparr>"

section \<open>What the tag store relies on\<close>

locale replacement_policy =
  fixes ops :: "'s policy_ops" and wf :: "'s \<Rightarrow> bool"
  assumes wf_invalidate: "wf s \<Longrightarrow> \<exists>s'. rp_invalidate ops e s = Inr s' \<and> wf s'"
    and wf_touch: "wf s \<Longrightarrow> \<exists>s'. rp_touch ops env e s = Inr s' \<and> wf s'"
    and wf_reset: "wf s \<Longrightarrow> \<exists>s'. rp_reset ops env e s = Inr s' \<and> wf s'"
    and victim_candidate: "rng_ok env \<Longrightarrow> wf s \<Longrightarrow> cands \<noteq> [] \<Longrightarrow>
      \<exists>v s'. rp_getVictim ops env cands s = Inr (v, s') \<and> v \<in> set cands \<and> wf s'"
begin

lemma invalidate_wf: "wf s \<Longrightarrow> rp_invalidate ops e s = Inr s' \<Longrightarrow> wf s'"
  using wf_invalidate[of s e] by auto

lemma touch_wf: "wf s \<Longrightarrow> rp_touch ops env e s = Inr s' \<Longrightarrow> wf s'"
  using wf_touch[of s env e] by auto

lemma reset_wf: "wf s \<Longrightarrow> rp_reset ops env e s = Inr s' \<Longrightarrow> wf s'"
  using wf_reset[of s env e] by auto

lemma victim_wf:
  "rng_ok env \<Longrightarrow> wf s \<Longrightarrow> cands \<noteq> [] \<Longrightarrow> rp_getVictim ops env cands s = Inr (v, s') \<Longrightarrow>
   v \<in> set cands \<and> wf s'"
  using victim_candidate[of env s cands] by auto

end

text \<open>
  Policies whose \<^verbatim>\<open>invalidate\<close> does what the base class documents: it sets the entry as
  the next probable victim.
\<close>

locale invalid_first_policy = replacement_policy ops wf
  for ops :: "'s policy_ops" and wf :: "'s \<Rightarrow> bool" +
  fixes is_invalid :: "nat \<Rightarrow> 's \<Rightarrow> bool"
  assumes invalidate_marks: "rp_invalidate ops e s = Inr s' \<Longrightarrow> is_invalid e s'"
    and victim_invalid: "rng_ok env \<Longrightarrow> wf s \<Longrightarrow> c \<in> set cands \<Longrightarrow> is_invalid c s \<Longrightarrow>
      rp_getVictim ops env cands s = Inr (v, s') \<Longrightarrow> is_invalid v s"
begin

lemma invalidated_is_next_victim:
  assumes "rng_ok env" "wf s" "rp_invalidate ops e s = Inr s1" "e \<in> set cands"
    and "\<forall>c \<in> set cands. c \<noteq> e \<longrightarrow> \<not> is_invalid c s1"
  shows "\<exists>s2. rp_getVictim ops env cands s1 = Inr (e, s2)"
proof -
  have w: "wf s1" using invalidate_wf assms(2,3) .
  have ne: "cands \<noteq> []" using assms(4) by auto
  obtain v s2 where v: "rp_getVictim ops env cands s1 = Inr (v, s2)" "v \<in> set cands"
    using victim_candidate[OF assms(1) w ne] by blast
  have "is_invalid v s1"
    using victim_invalid[OF assms(1) w assms(4) invalidate_marks[OF assms(3)] v(1)] .
  with v assms(5) show ?thesis by auto
qed

end

section \<open>The policies that satisfy it\<close>

lemma select_victim_min:
  fixes f :: "'e \<Rightarrow> 'k::linorder"
  shows "f (select_victim (\<lambda>c v. f c < f v) v cs) \<le> f v
     \<and> (\<forall>c \<in> set cs. f (select_victim (\<lambda>c v. f c < f v) v cs) \<le> f c)"
proof (induction cs arbitrary: v)
  case (Cons c cs)
  from Cons.IH[of "if f c < f v then c else v"] show ?case
    by (auto split: if_splits intro: order_trans)
qed simp

lemma select_victim_hd_mem: "cs \<noteq> [] \<Longrightarrow> select_victim better (hd cs) cs \<in> set cs"
  using select_victim_mem[of better "hd cs" cs] by (cases cs) auto

lemma zero_victim:
  fixes s :: "'e \<Rightarrow> nat"
  shows "c \<in> set cs \<Longrightarrow> s c = 0 \<Longrightarrow> s (select_victim (\<lambda>c v. s c < s v) v cs) = 0"
  using select_victim_min[of s v cs] by fastforce

lemma mru_loop_mem: "mru_loop s v cs \<in> insert v (set cs)"
  by (induction s v cs rule: mru_loop.induct) (auto split: if_splits)

lemma mru_loop_zero: "c \<in> set cs \<Longrightarrow> s c = 0 \<Longrightarrow> s (mru_loop s v cs) = 0"
  by (induction s v cs rule: mru_loop.induct) auto

lemma first_invalid_mem: "first_invalid valid v cs \<in> insert v (set cs)"
  by (induction cs) auto

lemma first_invalid_invalid: "c \<in> set cs \<Longrightarrow> \<not> valid c \<Longrightarrow> \<not> valid (first_invalid valid v cs)"
  by (induction cs) auto

interpretation lru: invalid_first_policy LRU_ops "\<lambda>s. True" "\<lambda>e s. s e = 0"
  by unfold_locales
    (auto simp: LRU_ops_def LRU_invalidate_def LRU_touch_def LRU_reset_def LRU_getVictim_def
      select_victim_hd_mem zero_victim)

interpretation bip: invalid_first_policy "BIP_ops btp" "\<lambda>s. True" "\<lambda>e s. s e = 0" for btp
  by unfold_locales
    (auto simp: BIP_ops_def BIP_reset_def LRU_ops_def LRU_invalidate_def LRU_touch_def
      LRU_getVictim_def select_victim_hd_mem zero_victim)

interpretation lfu: invalid_first_policy LFU_ops "\<lambda>s. True" "\<lambda>e s. s e = 0"
  by unfold_locales
    (auto simp: LFU_ops_def LFU_invalidate_def LFU_touch_def LFU_reset_def LFU_getVictim_def
      select_victim_hd_mem zero_victim)

interpretation mru: invalid_first_policy MRU_ops "\<lambda>s. True" "\<lambda>e s. s e = 0"
proof unfold_locales
  fix env :: repl_env and s :: lru_store and cands :: "nat list"
  assume "cands \<noteq> []"
  then have "mru_loop s (hd cands) cands \<in> set cands"
    using mru_loop_mem[of s "hd cands" cands] by auto
  with \<open>cands \<noteq> []\<close> show "\<exists>v s'. rp_getVictim MRU_ops env cands s = Inr (v, s') \<and> v \<in> set cands \<and> True"
    by (simp add: MRU_ops_def MRU_getVictim_def)
qed (auto simp: MRU_ops_def MRU_invalidate_def MRU_touch_def MRU_reset_def MRU_getVictim_def
      mru_loop_zero)

interpretation random: invalid_first_policy Random_ops "\<lambda>s. True" "\<lambda>e s. \<not> s e"
proof unfold_locales
  fix env :: repl_env and s :: "nat \<Rightarrow> bool" and cands :: "nat list"
  assume r: "rng_ok env" and ne: "cands \<noteq> []"
  have "rnd env 0 (length cands - 1) \<le> length cands - 1"
    using r by (simp add: rng_ok_def)
  then have "cands ! rnd env 0 (length cands - 1) \<in> set cands"
    using ne by (intro nth_mem) (cases cands; auto)
  then have "first_invalid s (cands ! rnd env 0 (length cands - 1)) cands \<in> set cands"
    using first_invalid_mem[of s "cands ! rnd env 0 (length cands - 1)" cands]
    by (metis insert_absorb)
  with ne show "\<exists>v s'. rp_getVictim Random_ops env cands s = Inr (v, s') \<and> v \<in> set cands \<and> True"
    by (simp add: Random_ops_def Random_getVictim_def)
qed (auto simp: Random_ops_def Random_invalidate_def Random_touch_def Random_reset_def
      Random_getVictim_def first_invalid_invalid)

interpretation weighted_lru: replacement_policy WeightedLRU_ops "\<lambda>s. True"
  by unfold_locales
    (auto simp: WeightedLRU_ops_def WeightedLRU_invalidate_def WeightedLRU_touch_def
      WeightedLRU_getVictim_def select_victim_hd_mem)

interpretation fifo: replacement_policy FIFO_ops "\<lambda>s. \<forall>e. fifoInserted s e \<le> timeTicks s"
  by unfold_locales
    (auto simp: FIFO_ops_def FIFO_invalidate_def FIFO_touch_def FIFO_reset_def FIFO_getVictim_def
      FIFO_victim_mem le_Suc_eq)

lemma sc_loop_victim:
  assumes "cands \<noteq> []" and "sc_loop cands s = (v, s')"
  shows "v \<in> set cands \<and> \<not> hasSecondChance s' v"
  using assms
proof (induction cands s rule: sc_loop.induct)
  case (1 cands s)
  show ?case
  proof (cases "hasSecondChance s (FIFO_victim cands s)")
    case True
    then show ?thesis
      using "1.IH"[OF refl] "1.prems" by (simp add: sc_loop.simps[of cands s])
  next
    case False
    then show ?thesis
      using "1.prems" FIFO_victim_mem by (auto simp: sc_loop.simps[of cands s] Let_def)
  qed
qed

lemma sc_loop_wf:
  assumes "\<forall>e. fifoInserted s e \<le> timeTicks s" and "sc_loop cands s = (v, s')"
  shows "\<forall>e. fifoInserted s' e \<le> timeTicks s'"
  using assms
proof (induction cands s rule: sc_loop.induct)
  case (1 cands s)
  show ?case
  proof (cases "cands \<noteq> [] \<and> hasSecondChance s (FIFO_victim cands s)")
    case True
    have "\<forall>e. fifoInserted (useSecondChance (FIFO_victim cands s) s) e
        \<le> timeTicks (useSecondChance (FIFO_victim cands s) s)"
      using "1.prems"(1) by (simp add: useSecondChance_def le_SucI)
    then show ?thesis
      using "1.IH"[OF refl] "1.prems" True by (simp add: sc_loop.simps[of cands s])
  next
    case False
    then show ?thesis
      using "1.prems" by (auto simp: sc_loop.simps[of cands s] Let_def)
  qed
qed

interpretation second_chance: replacement_policy SC_ops "\<lambda>s. \<forall>e. fifoInserted s e \<le> timeTicks s"
proof unfold_locales
  fix env :: repl_env and s :: second_chance_store and cands :: "nat list"
  assume w: "\<forall>e. fifoInserted s e \<le> timeTicks s" and ne: "cands \<noteq> []"
  let ?f = "find (\<lambda>c. fifoInserted s c = 0 \<and> \<not> hasSecondChance s c) cands"
  show "\<exists>v s'. rp_getVictim SC_ops env cands s = Inr (v, s') \<and> v \<in> set cands \<and>
      (\<forall>e. fifoInserted s' e \<le> timeTicks s')"
  proof (cases ?f)
    case None
    obtain v s' where l: "sc_loop cands s = (v, s')" by fastforce
    with None ne show ?thesis
      using sc_loop_victim[OF ne l] sc_loop_wf[OF w l] by (auto simp: SC_ops_def SC_getVictim_def)
  next
    case (Some c)
    with ne w find_Some_mem[OF Some] show ?thesis by (auto simp: SC_ops_def SC_getVictim_def)
  qed
qed (auto simp: SC_ops_def SC_invalidate_def SC_touch_def SC_reset_def FIFO_invalidate_def
      FIFO_touch_def FIFO_reset_def le_Suc_eq)

lemma brrip_search_mem:
  "brrip_search s v cs = Inl c \<Longrightarrow> c \<in> set cs \<and> \<not> brripValid (s c)"
  "brrip_search s v cs = Inr w \<Longrightarrow> w \<in> insert v (set cs) \<and> (\<forall>c \<in> set cs. brripValid (s c))"
  by (induction s v cs rule: brrip_search.induct) (auto split: if_splits)

lemma brrip_search_max:
  "brrip_search s v cs = Inr w \<Longrightarrow>
   counter (rrpv (s v)) \<le> counter (rrpv (s w)) \<and>
   (\<forall>c \<in> set cs. counter (rrpv (s c)) \<le> counter (rrpv (s w)))"
proof (induction s v cs rule: brrip_search.induct)
  case (2 s victim c cs)
  then show ?case by (auto split: if_splits)
qed simp

lemma BRRIP_age_wf: "\<forall>e. sat_wf (rrpv (s e)) \<Longrightarrow> \<forall>e. sat_wf (rrpv (BRRIP_age d cs s e))"
  by (induction cs arbitrary: s) (simp_all add: BRRIP_age_def)

interpretation brrip: invalid_first_policy "BRRIP_ops pr" "\<lambda>s. \<forall>e. sat_wf (rrpv (s e))"
  "\<lambda>e s. \<not> brripValid (s e)" for pr
proof unfold_locales
  fix env :: repl_env and s :: brrip_store and cands :: "nat list"
  assume w: "\<forall>e. sat_wf (rrpv (s e))" and ne: "cands \<noteq> []"
  have sat: "\<forall>e. sat_wf (rrpv ((s(v := (s v)\<lparr>rrpv := snd (saturate (rrpv (s v)))\<rparr>)) e))" for v
    using w by simp
  show "\<exists>v s'. rp_getVictim (BRRIP_ops pr) env cands s = Inr (v, s') \<and> v \<in> set cands \<and>
      (\<forall>e. sat_wf (rrpv (s' e)))"
  proof (cases "brrip_search s (hd cands) cands")
    case (Inl c)
    with brrip_search_mem(1)[OF Inl] ne w show ?thesis
      by (auto simp: BRRIP_ops_def BRRIP_getVictim_def)
  next
    case (Inr v)
    define s1 where "s1 = s(v := (s v)\<lparr>rrpv := snd (saturate (rrpv (s v)))\<rparr>)"
    let ?d = "fst (saturate (rrpv (s v)))"
    have "rp_getVictim (BRRIP_ops pr) env cands s =
        Inr (v, if ?d > 0 then BRRIP_age (int ?d) cands s1 else s1)"
      using Inr ne by (simp add: BRRIP_ops_def BRRIP_getVictim_def s1_def split_beta Let_def)
    moreover have "\<forall>e. sat_wf (rrpv (s1 e))"
      unfolding s1_def by (rule sat)
    moreover have "v \<in> set cands"
      using brrip_search_mem(2)[OF Inr] ne by auto
    ultimately show ?thesis
      using BRRIP_age_wf by simp
  qed
next
  fix env :: repl_env and s s' :: brrip_store and cands :: "nat list" and c v
  assume "c \<in> set cands" "\<not> brripValid (s c)"
    and g: "rp_getVictim (BRRIP_ops pr) env cands s = Inr (v, s')"
  show "\<not> brripValid (s v)"
  proof (cases "brrip_search s (hd cands) cands")
    case (Inl c')
    with g brrip_search_mem(1)[OF Inl] show ?thesis
      by (auto simp: BRRIP_ops_def BRRIP_getVictim_def)
  next
    case (Inr v')
    with brrip_search_mem(2)[OF Inr] \<open>c \<in> set cands\<close> \<open>\<not> brripValid (s c)\<close> show ?thesis by auto
  qed
qed (auto simp: BRRIP_ops_def BRRIP_invalidate_def BRRIP_touch_def BRRIP_reset_def Let_def)

section \<open>Least recently used\<close>

text \<open>A history of touches, oldest first, each one tick after the previous.\<close>

definition lru_run :: "nat list \<Rightarrow> lru_store" where
  "lru_run hist = fold (\<lambda>(t, e) s. s(e := t)) (zip [1..<Suc (length hist)] hist) (\<lambda>_. 0)"

text \<open>Position (from 1) of an entry's last use; 0 when it was never used.\<close>

fun last_use :: "nat list \<Rightarrow> nat \<Rightarrow> nat" where
  "last_use [] e = 0"
| "last_use (x # xs) e =
     (if e \<in> set xs then last_use xs e + 1 else if x = e then 1 else 0)"

lemma last_use_snoc: "last_use (xs @ [x]) e = (if x = e then length xs + 1 else last_use xs e)"
  by (induction xs) auto

lemma lru_run_snoc: "lru_run (hist @ [e]) = (lru_run hist)(e := length hist + 1)"
  by (simp add: lru_run_def upt_Suc_append del: upt_Suc)

lemma lru_run_last_use: "lru_run hist e = last_use hist e"
  by (induction hist rule: rev_induct) (auto simp: lru_run_snoc last_use_snoc, simp add: lru_run_def)

text \<open>
  C31. LRU evicts the least recently used candidate: after any sequence of accesses, the
  victim is a candidate, and no candidate's last use lies further back than the victim's
  (one that was never used counts as oldest). The update of the store per access is the
  policy's \<^verbatim>\<open>touch\<close>.
\<close>

theorem LRU_evicts_least_recent:
  assumes "cands \<noteq> []"
  shows "\<exists>v s'. LRU_getVictim env cands (lru_run hist) = Inr (v, s') \<and> v \<in> set cands
     \<and> (\<forall>c \<in> set cands. last_use hist v \<le> last_use hist c)
     \<and> LRU_touch \<lparr>now = length hist + 1, rnd = rnd env\<rparr> e (lru_run hist) = Inr (lru_run (hist @ [e]))"
  using assms select_victim_min[of "lru_run hist" "hd cands" cands]
  by (simp add: LRU_getVictim_def LRU_touch_def select_victim_hd_mem lru_run_last_use lru_run_snoc)

definition sample_repl_env :: repl_env where
  "sample_repl_env = \<lparr>now = 100, rnd = (\<lambda>lo hi. lo)\<rparr>"

theorem LRU_evicts_least_recent_witness:
  "\<exists>v s'. LRU_getVictim sample_repl_env [4, 5, 6] (lru_run [5, 4, 6, 5]) = Inr (v, s')
     \<and> last_use [5, 4, 6, 5] v \<le> 2"
  using LRU_evicts_least_recent[of "[4, 5, 6]" sample_repl_env "[5, 4, 6, 5]" 0] by fastforce

section \<open>FIFO and invalidated entries\<close>

text \<open>
  C35. Under FIFO an invalidated entry is the last one to be evicted, not the next: after
  \<open>FIFO_invalidate e\<close> the victim is \<open>e\<close> only when every candidate is \<open>e\<close>. The
  base class documents the opposite (\<^verbatim>\<open>invalidate replacement data to set it as the next
  probable victim\<close>), and it is what CacheFlex's demotion of consumed lines relies on.
\<close>

theorem FIFO_invalidated_is_last:
  assumes "\<forall>x. fifoInserted s x \<le> timeTicks s" and "c \<in> set cands" "c \<noteq> e"
    and "FIFO_invalidate e s = Inr s1" and "FIFO_getVictim env cands s1 = Inr (v, s2)"
  shows "v \<in> set cands \<and> v \<noteq> e"
proof -
  have ne: "cands \<noteq> []" using assms(2) by auto
  have v: "v = FIFO_victim cands s1" using assms(5) ne by (auto simp: FIFO_getVictim_def)
  have "fifoInserted s1 v \<le> fifoInserted s1 c"
    using select_victim_min[of "fifoInserted s1" "hd cands" cands] assms(2)
    by (simp add: v FIFO_victim_def)
  moreover have "fifoInserted s1 c < fifoInserted s1 e"
    using assms(1,3,4) by (auto simp: FIFO_invalidate_def less_Suc_eq_le)
  ultimately show ?thesis
    using v ne FIFO_victim_mem by auto
qed

theorem FIFO_invalidated_is_last_witness:
  "\<exists>s1 v s2. FIFO_invalidate 3 \<lparr>timeTicks = 9, fifoInserted = (\<lambda>e. min e 9)\<rparr> = Inr s1
     \<and> FIFO_getVictim sample_repl_env [3, 7] s1 = Inr (v, s2) \<and> v \<noteq> 3"
proof -
  let ?s = "\<lparr>timeTicks = 9, fifoInserted = (\<lambda>e. min e 9)\<rparr>"
  obtain s1 where s1: "FIFO_invalidate 3 ?s = Inr s1"
    by (simp add: FIFO_invalidate_def)
  obtain v s2 where v: "FIFO_getVictim sample_repl_env [3, 7] s1 = Inr (v, s2)"
    by (simp add: FIFO_getVictim_def)
  have "v \<noteq> 3"
    using FIFO_invalidated_is_last[OF _ _ _ s1 v, of 7] by simp
  with s1 v show ?thesis by blast
qed

section \<open>Second chance\<close>

text \<open>
  C32. The second-chance search terminates on every store and returns a candidate that has no
  second chance left; on the way it only takes second chances away, never gives one.
\<close>

theorem second_chance_victim:
  assumes "cands \<noteq> []"
  shows "\<exists>v s'. SC_getVictim env cands s = Inr (v, s') \<and> v \<in> set cands \<and> \<not> hasSecondChance s' v
     \<and> (\<forall>e. hasSecondChance s' e \<longrightarrow> hasSecondChance s e)"
proof -
  have mono: "\<forall>e. hasSecondChance s' e \<longrightarrow> hasSecondChance s e"
    if "sc_loop cands s = (v, s')" for s v s'
    using that
  proof (induction cands s rule: sc_loop.induct)
    case (1 cands s)
    then show ?case
      by (auto simp: sc_loop.simps[of cands s] Let_def useSecondChance_def split: if_splits)
  qed
  show ?thesis
  proof (cases "find (\<lambda>c. fifoInserted s c = 0 \<and> \<not> hasSecondChance s c) cands")
    case None
    obtain v s' where l: "sc_loop cands s = (v, s')" by fastforce
    with None assms show ?thesis
      using sc_loop_victim[OF assms l] mono[OF l] by (auto simp: SC_getVictim_def)
  next
    case (Some c)
    with assms find_Some_mem[OF Some] show ?thesis by (auto simp: SC_getVictim_def)
  qed
qed

theorem second_chance_victim_witness:
  "\<exists>v s'. SC_getVictim sample_repl_env [0, 1]
       \<lparr>timeTicks = 2, fifoInserted = (\<lambda>e. e + 1), hasSecondChance = (\<lambda>e. True)\<rparr> = Inr (v, s')
     \<and> \<not> hasSecondChance s' v"
  using second_chance_victim[of "[0, 1]" sample_repl_env
      "\<lparr>timeTicks = 2, fifoInserted = (\<lambda>e. e + 1), hasSecondChance = (\<lambda>e. True)\<rparr>"] by auto

section \<open>Tree PLRU\<close>

text \<open>The child of the root above a node.\<close>

fun top_node :: "nat \<Rightarrow> nat" where
  "top_node i = (if i \<le> 2 then i else top_node ((i - 1) div 2))"

declare top_node.simps [simp del]

lemma top_node_child [simp]:
  "0 < i \<Longrightarrow> top_node (Suc (2 * i)) = top_node i"
  "0 < i \<Longrightarrow> top_node (Suc (Suc (2 * i))) = top_node i"
  by (subst top_node.simps; simp)+

lemma top_node_small: "i \<le> 2 \<Longrightarrow> top_node i = i"
  by (simp add: top_node.simps)

lemma plru_climb_length: "plru_climb f i t = Inr t' \<Longrightarrow> length t' = length t"
proof (induction f i t rule: plru_climb.induct)
  case (1 f i t)
  then show ?case
    by (auto simp: plru_climb.simps[of f i t] Let_def split: if_splits)
qed

lemma plru_climb_above:
  "plru_climb f i t = Inr t' \<Longrightarrow> 0 < i \<Longrightarrow> i \<le> j \<Longrightarrow> j < length t \<Longrightarrow> t' ! j = t ! j"
proof (induction f i t rule: plru_climb.induct)
  case (1 f i t)
  let ?i = "parentIndex i"
  have lt: "?i < i" using "1.prems"(2) by (simp add: parentIndex_def)
  show ?case
  proof (cases "?i = 0")
    case True
    then show ?thesis
      using "1.prems" lt by (auto simp: plru_climb.simps[of f i t] Let_def split: if_splits)
  next
    case False
    then have r: "plru_climb f ?i (t[?i := f (isRightSubtree i)]) = Inr t'" "?i < length t"
      using "1.prems"(1) by (auto simp: plru_climb.simps[of f i t] Let_def split: if_splits)
    then show ?thesis
      using "1.IH"[OF refl refl r(2) refl False r(1)] False lt "1.prems"(3,4) by simp
  qed
qed

lemma plru_climb_total:
  "0 < i \<Longrightarrow> i \<le> 2 * length t \<Longrightarrow> \<exists>t'. plru_climb f i t = Inr t'"
proof (induction f i t rule: plru_climb.induct)
  case (1 f i t)
  let ?i = "parentIndex i"
  have lt: "?i < length t" using "1.prems" by (auto simp: parentIndex_def)
  show ?case
  proof (cases "?i = 0")
    case True
    then show ?thesis using lt by (simp add: plru_climb.simps[of f i t])
  next
    case False
    then show ?thesis
      using "1.IH"[OF refl refl lt refl False] lt by (auto simp: plru_climb.simps[of f i t] Let_def)
  qed
qed

lemma plru_child:
  "0 < i \<Longrightarrow> (if isRightSubtree i then rightSubtreeIndex (parentIndex i)
             else leftSubtreeIndex (parentIndex i)) = i"
  by (auto simp: isRightSubtree_def rightSubtreeIndex_def leftSubtreeIndex_def parentIndex_def)
    presburger+

lemma plru_climb_towards:
  "plru_climb (\<lambda>right. right) i t = Inr t' \<Longrightarrow> 0 < i \<Longrightarrow> plru_walk t' 0 = plru_walk t' i"
proof (induction "\<lambda>right :: bool. right" i t rule: plru_climb.induct)
  case (1 i t)
  let ?i = "parentIndex i" and ?t = "t[parentIndex i := isRightSubtree i]"
  have lt: "?i < length t"
    using "1.prems"(1) by (auto simp: plru_climb.simps[of _ i t] Let_def split: if_splits)
  have len: "length t' = length t" using plru_climb_length "1.prems"(1) .
  have bit: "t' ! ?i = isRightSubtree i"
  proof (cases "?i = 0")
    case True
    then show ?thesis using "1.prems"(1) lt by (auto simp: plru_climb.simps[of _ i t] Let_def)
  next
    case False
    then have "plru_climb (\<lambda>right. right) ?i ?t = Inr t'"
      using "1.prems"(1) lt by (simp add: plru_climb.simps[of _ i t] Let_def)
    from plru_climb_above[OF this, of ?i] False lt show ?thesis by simp
  qed
  have "plru_walk t' 0 = plru_walk t' ?i"
  proof (cases "?i = 0")
    case False
    then have "plru_climb (\<lambda>right. right) ?i ?t = Inr t'"
      using "1.prems"(1) lt by (simp add: plru_climb.simps[of _ i t] Let_def)
    with "1.hyps"[OF refl refl lt refl False] False show ?thesis by simp
  qed simp
  also have "\<dots> = plru_walk t' i"
    using plru_child[OF "1.prems"(2)] bit lt len by (simp add: plru_walk.simps[of t' ?i])
  finally show ?case .
qed

lemma plru_climb_root:
  "plru_climb f i t = Inr t' \<Longrightarrow> 0 < i \<Longrightarrow> 0 < length t \<and> t' ! 0 = f (isRightSubtree (top_node i))"
proof (induction f i t rule: plru_climb.induct)
  case (1 f i t)
  let ?i = "parentIndex i"
  have lt: "?i < length t"
    using "1.prems"(1) by (auto simp: plru_climb.simps[of f i t] Let_def split: if_splits)
  show ?case
  proof (cases "?i = 0")
    case True
    then have "i \<le> 2" using "1.prems"(2) by (auto simp: parentIndex_def split: if_splits)
    then show ?thesis
      using True "1.prems" lt by (auto simp: plru_climb.simps[of f i t] Let_def top_node_small)
  next
    case False
    then have r: "plru_climb f ?i (t[?i := f (isRightSubtree i)]) = Inr t'"
      using "1.prems"(1) lt by (simp add: plru_climb.simps[of f i t] Let_def)
    have "\<not> i \<le> 2" using False "1.prems"(2) by (auto simp: parentIndex_def)
    then have "top_node i = top_node ?i"
      by (subst top_node.simps) (simp add: parentIndex_def)
    then show ?thesis
      using "1.IH"[OF refl refl lt refl False r] False by simp
  qed
qed

lemma plru_walk_top: "0 < i \<Longrightarrow> top_node (plru_walk t i) = top_node i"
proof (induction t i rule: plru_walk.induct)
  case (1 t i)
  then show ?case
    by (cases "i < length t")
      (auto simp: plru_walk.simps[of t i] rightSubtreeIndex_def leftSubtreeIndex_def)
qed

lemma plru_walk_leaf: "length t \<le> i \<Longrightarrow> plru_walk t i = i"
  by (simp add: plru_walk.simps)

lemma plru_walk_range:
  "i \<le> 2 * length t \<Longrightarrow> length t \<le> plru_walk t i \<and> plru_walk t i \<le> 2 * length t"
proof (induction t i rule: plru_walk.induct)
  case (1 t i)
  then show ?case
    by (cases "i < length t")
      (auto simp: plru_walk.simps[of t i] rightSubtreeIndex_def leftSubtreeIndex_def)
qed

text \<open>The complete, ordered candidate list of one set.\<close>

definition plru_set :: "plru_store \<Rightarrow> nat list \<Rightarrow> bool" where
  "plru_set s cands \<longleftrightarrow>
     2 \<le> numLeaves s \<and> length cands = numLeaves s \<and> distinct cands \<and>
     (\<forall>e \<in> set cands. plruTree s e = plruTree s (hd cands)) \<and>
     (\<forall>j < length cands. plruIndex s (cands ! j) = j + numLeaves s - 1) \<and>
     length (plruTrees s (plruTree s (hd cands))) = numLeaves s - 1"

lemma plru_update_total:
  assumes "plru_set s cands" and "j < length cands"
  shows "\<exists>t'. plru_climb f (j + numLeaves s - 1) (plruTrees s (plruTree s (hd cands))) = Inr t'
     \<and> TreePLRU_update f (cands ! j) s =
         Inr (s\<lparr>plruTrees := (plruTrees s)(plruTree s (hd cands) := t')\<rparr>)
     \<and> length t' = numLeaves s - 1"
proof -
  let ?t = "plruTrees s (plruTree s (hd cands))" and ?i = "j + numLeaves s - 1"
  have "0 < ?i" "?i \<le> 2 * length ?t"
    using assms by (auto simp: plru_set_def)
  then obtain t' where t': "plru_climb f ?i ?t = Inr t'"
    using plru_climb_total by blast
  moreover have "length t' = numLeaves s - 1"
    using plru_climb_length[OF t'] assms(1) by (simp add: plru_set_def)
  ultimately show ?thesis
    using assms by (simp add: plru_set_def TreePLRU_update_def)
qed

lemma plru_victim_of:
  assumes "length t' = numLeaves s - 1" "cands' \<noteq> []"
    and "plruTree s (hd cands') = tid"
  shows "TreePLRU_getVictim env cands' (s\<lparr>plruTrees := (plruTrees s)(tid := t')\<rparr>) =
     (let k = plru_walk t' 0 - (numLeaves s - 1)
      in if k < length cands' then Inr (cands' ! k, s\<lparr>plruTrees := (plruTrees s)(tid := t')\<rparr>)
         else Inl OutOfRange)"
  using assms by (simp add: TreePLRU_getVictim_def Let_def)

text \<open>
  C33. Tree PLRU keeps its promise on a complete set, for any number of ways: an invalidated
  way is the next victim, and a way that was just touched is not.
\<close>

theorem TreePLRU_victim:
  assumes "plru_set s cands" and "j < length cands"
  shows "(\<exists>s1. TreePLRU_invalidate (cands ! j) s = Inr s1
           \<and> TreePLRU_getVictim env cands s1 = Inr (cands ! j, s1))
     \<and> (\<exists>s2 v. TreePLRU_touch env (cands ! j) s = Inr s2
           \<and> TreePLRU_getVictim env cands s2 = Inr (v, s2) \<and> v \<in> set cands \<and> v \<noteq> cands ! j)"
proof
  let ?i = "j + numLeaves s - 1" and ?tid = "plruTree s (hd cands)"
  have n: "2 \<le> numLeaves s" "length cands = numLeaves s" "cands \<noteq> []" "distinct cands" "0 < ?i"
    using assms by (auto simp: plru_set_def)
  obtain t1 where t1: "plru_climb (\<lambda>right. right) ?i (plruTrees s ?tid) = Inr t1"
      "TreePLRU_update (\<lambda>right. right) (cands ! j) s = Inr (s\<lparr>plruTrees := (plruTrees s)(?tid := t1)\<rparr>)"
      "length t1 = numLeaves s - 1"
    using plru_update_total[OF assms] by blast
  have "plru_walk t1 0 = ?i"
    using plru_climb_towards[OF t1(1) n(5)] t1(3) by (simp add: plru_walk_leaf)
  then show "\<exists>s1. TreePLRU_invalidate (cands ! j) s = Inr s1
           \<and> TreePLRU_getVictim env cands s1 = Inr (cands ! j, s1)"
    using plru_victim_of[OF t1(3) n(3) refl, of env] t1(2) n assms(2)
    by (simp add: TreePLRU_invalidate_def)
  obtain t2 where t2: "plru_climb (\<lambda>right. \<not> right) ?i (plruTrees s ?tid) = Inr t2"
      "TreePLRU_update (\<lambda>right. \<not> right) (cands ! j) s = Inr (s\<lparr>plruTrees := (plruTrees s)(?tid := t2)\<rparr>)"
      "length t2 = numLeaves s - 1"
    using plru_update_total[OF assms] by blast
  have root: "0 < length t2" "t2 ! 0 = (\<not> isRightSubtree (top_node ?i))"
    using plru_climb_root[OF t2(1) n(5)] plru_climb_length[OF t2(1)] by auto
  let ?c = "if t2 ! 0 then 2 else 1 :: nat"
  have "plru_walk t2 0 = plru_walk t2 ?c"
    using root(1) by (simp add: plru_walk.simps[of t2 0] rightSubtreeIndex_def leftSubtreeIndex_def
        numeral_2_eq_2)
  then have "top_node (plru_walk t2 0) = ?c"
    using plru_walk_top[of ?c t2] by (simp add: top_node_small)
  moreover have "top_node ?i \<noteq> ?c"
    using root(2) by (auto simp: isRightSubtree_def)
  ultimately have ne: "plru_walk t2 0 \<noteq> ?i" by auto
  let ?k = "plru_walk t2 0 - (numLeaves s - 1)"
  have rng: "numLeaves s - 1 \<le> plru_walk t2 0" "plru_walk t2 0 \<le> 2 * (numLeaves s - 1)"
    using plru_walk_range[of 0 t2] t2(3) by auto
  have k: "?k < length cands" "?k \<noteq> j"
    using rng ne n(1,2) by auto
  then have "cands ! ?k \<in> set cands" "cands ! ?k \<noteq> cands ! j"
    using assms(2) n(4) by (auto simp: nth_eq_iff_index_eq)
  then show "\<exists>s2 v. TreePLRU_touch env (cands ! j) s = Inr s2
           \<and> TreePLRU_getVictim env cands s2 = Inr (v, s2) \<and> v \<in> set cands \<and> v \<noteq> cands ! j"
    using plru_victim_of[OF t2(3) n(3) refl, of env] t2(2) k(1)
    by (simp add: TreePLRU_touch_def)
qed


definition sample_plru :: plru_store where
  "sample_plru = fold TreePLRU_instantiateEntry [0..<4]
     \<lparr>numLeaves = 4, plruCount = 0, plruTrees = (\<lambda>_. []), plruIndex = (\<lambda>_. 0), plruTree = (\<lambda>_. 0)\<rparr>"

lemma sample_plru_set: "plru_set sample_plru [0, 1, 2, 3]"
  by code_simp

theorem TreePLRU_victim_witness:
  "\<exists>s2 v. TreePLRU_touch sample_repl_env 2 sample_plru = Inr s2
     \<and> TreePLRU_getVictim sample_repl_env [0, 1, 2, 3] s2 = Inr (v, s2) \<and> v \<noteq> 2"
  using TreePLRU_victim[OF sample_plru_set, of 2 sample_repl_env] by (auto simp: eval_nat_numeral)


end
