(* ===== verification/Partitioning.thy ===== *)
theory Partitioning
  imports Prelude
begin

text \<open>
  Cache partitioning (src/gem5/src/mem/cache/tags/partitioning_policies): the maximum
  capacity and the way policies and the manager that applies a list of them. The maps of the
  code are maps here; \<^verbatim>\<open>operator[]\<close> inserts a zero for a missing key, as it does in
  the code. How a fraction of the cache becomes a block count is floating-point arithmetic of
  the constructor and is left out: the model starts from the configured counts. The owner and
  the way of a candidate are passed as functions of the candidate.
\<close>

section \<open>Policies\<close>

record max_capacity_policy =
  partitionIdMaxCapacity :: "64 word \<rightharpoonup> nat"
  partitionIdCurCapacity :: "64 word \<rightharpoonup> nat"

record way_policy =
  partitionIdWays :: "64 word \<rightharpoonup> nat list"

datatype partitioning_policy = MaxCapacity max_capacity_policy | Way way_policy

definition map_index :: "64 word \<Rightarrow> (64 word \<rightharpoonup> nat) \<Rightarrow> nat" where
  "map_index k m = (case m k of None \<Rightarrow> 0 | Some v \<Rightarrow> v)"

definition MaxCapacity_filterByPartition ::
  "('e \<Rightarrow> 64 word) \<Rightarrow> max_capacity_policy \<Rightarrow> 'e list \<Rightarrow> 64 word \<Rightarrow> 'e list" where
  "MaxCapacity_filterByPartition owner mp entries pid =
     (if entries = [] \<or> partitionIdMaxCapacity mp pid = None \<or> partitionIdCurCapacity mp pid = None
         \<or> map_index pid (partitionIdCurCapacity mp) < map_index pid (partitionIdMaxCapacity mp)
      then entries
      else filter (\<lambda>e. owner e = pid) entries)"

definition MaxCapacity_notifyAcquire :: "64 word \<Rightarrow> max_capacity_policy \<Rightarrow> max_capacity_policy res" where
  "MaxCapacity_notifyAcquire pid mp =
     (let cur = map_index pid (partitionIdCurCapacity mp);
          mx = map_index pid (partitionIdMaxCapacity mp)
      in must (cur \<le> mx)
           (Inr (mp\<lparr>partitionIdCurCapacity := (partitionIdCurCapacity mp)(pid \<mapsto> cur + 1),
                    partitionIdMaxCapacity := (partitionIdMaxCapacity mp)(pid \<mapsto> mx)\<rparr>)))"

definition MaxCapacity_notifyRelease :: "64 word \<Rightarrow> max_capacity_policy \<Rightarrow> max_capacity_policy res" where
  "MaxCapacity_notifyRelease pid mp =
     (let cur = map_index pid (partitionIdCurCapacity mp)
      in must (cur > 0) (Inr (mp\<lparr>partitionIdCurCapacity := (partitionIdCurCapacity mp)(pid \<mapsto> cur - 1)\<rparr>)))"

definition addWayToPartition :: "64 word \<Rightarrow> nat \<Rightarrow> way_policy \<Rightarrow> way_policy" where
  "addWayToPartition pid way wp =
     (let ws = (case partitionIdWays wp pid of None \<Rightarrow> [] | Some ws \<Rightarrow> ws)
      in wp\<lparr>partitionIdWays := (partitionIdWays wp)(pid \<mapsto> List.insert way ws)\<rparr>)"

definition removeWayToPartition :: "64 word \<Rightarrow> nat \<Rightarrow> way_policy \<Rightarrow> way_policy" where
  "removeWayToPartition pid way wp =
     (let ws = (case partitionIdWays wp pid of None \<Rightarrow> [] | Some ws \<Rightarrow> ws)
      in wp\<lparr>partitionIdWays := (partitionIdWays wp)(pid \<mapsto> removeAll way ws)\<rparr>)"

text \<open>The constructor: the allocations are (partition, ways) pairs.\<close>

definition WayPartitioningPolicy_new :: "nat \<Rightarrow> (64 word \<times> nat list) list \<Rightarrow> way_policy res" where
  "WayPartitioningPolicy_new cache_assoc allocations =
     must (cache_assoc > 0)
       (foldR (\<lambda>(pid, ways) wp. foldR (\<lambda>way wp. fatal_when (way \<ge> cache_assoc)
            (Inr (addWayToPartition pid way wp))) ways wp)
          allocations \<lparr>partitionIdWays = Map.empty\<rparr>)"

definition Way_filterByPartition ::
  "('e \<Rightarrow> nat) \<Rightarrow> way_policy \<Rightarrow> 'e list \<Rightarrow> 64 word \<Rightarrow> 'e list" where
  "Way_filterByPartition way_of wp entries pid =
     (case partitionIdWays wp pid of
        None \<Rightarrow> entries
      | Some ways \<Rightarrow> filter (\<lambda>e. way_of e \<in> set ways) entries)"

section \<open>The manager\<close>

primrec policy_filter ::
  "('e \<Rightarrow> 64 word) \<Rightarrow> ('e \<Rightarrow> nat) \<Rightarrow> partitioning_policy \<Rightarrow> 64 word \<Rightarrow> 'e list \<Rightarrow> 'e list" where
  "policy_filter owner way_of (MaxCapacity mp) pid entries = MaxCapacity_filterByPartition owner mp entries pid"
| "policy_filter owner way_of (Way wp) pid entries = Way_filterByPartition way_of wp entries pid"

primrec policy_acquire :: "64 word \<Rightarrow> partitioning_policy \<Rightarrow> partitioning_policy res" where
  "policy_acquire pid (MaxCapacity mp) =
     bindR (MaxCapacity_notifyAcquire pid mp) (\<lambda>m. Inr (MaxCapacity m))"
| "policy_acquire pid (Way wp) = Inr (Way wp)"

primrec policy_release :: "64 word \<Rightarrow> partitioning_policy \<Rightarrow> partitioning_policy res" where
  "policy_release pid (MaxCapacity mp) =
     bindR (MaxCapacity_notifyRelease pid mp) (\<lambda>m. Inr (MaxCapacity m))"
| "policy_release pid (Way wp) = Inr (Way wp)"

definition PM_notifyAcquire :: "64 word \<Rightarrow> partitioning_policy list \<Rightarrow> partitioning_policy list res" where
  "PM_notifyAcquire pid pm = mapR (policy_acquire pid) pm"

definition PM_notifyRelease :: "64 word \<Rightarrow> partitioning_policy list \<Rightarrow> partitioning_policy list res" where
  "PM_notifyRelease pid pm = mapR (policy_release pid) pm"

definition PM_filterByPartition ::
  "('e \<Rightarrow> 64 word) \<Rightarrow> ('e \<Rightarrow> nat) \<Rightarrow> partitioning_policy list \<Rightarrow> 64 word \<Rightarrow> 'e list \<Rightarrow> 'e list" where
  "PM_filterByPartition owner way_of pm pid entries =
     fold (\<lambda>pp es. policy_filter owner way_of pp pid es) pm entries"

section \<open>Filtering only removes candidates\<close>

lemma policy_filter_subset: "set (policy_filter owner way_of pp pid es) \<subseteq> set es"
  by (cases pp)
    (auto simp: MaxCapacity_filterByPartition_def Way_filterByPartition_def split: option.splits)

lemma PM_filter_subset: "set (PM_filterByPartition owner way_of pm pid es) \<subseteq> set es"
  unfolding PM_filterByPartition_def
  by (induction pm arbitrary: es) (simp, use policy_filter_subset in fastforce)

text \<open>
  C36. A partition the maximum-capacity policy was not configured for can own one block only:
  the first acquisition enters it with a limit of zero (\<^verbatim>\<open>operator[]\<close> inserts it), so
  the second one fails the assertion, and from the first one on its fills may only replace
  its own blocks. The comment of the filter calls such a partition not policed.
\<close>

theorem unconfigured_partition_limited:
  assumes "partitionIdMaxCapacity mp pid = None" and "partitionIdCurCapacity mp pid = None"
  shows "\<exists>mp'. MaxCapacity_notifyAcquire pid mp = Inr mp'
     \<and> MaxCapacity_notifyAcquire pid mp' = Inl Assertion
     \<and> MaxCapacity_filterByPartition owner mp entries pid = entries
     \<and> MaxCapacity_filterByPartition owner mp' entries pid = filter (\<lambda>e. owner e = pid) entries"
  using assms
  by (simp add: MaxCapacity_notifyAcquire_def MaxCapacity_filterByPartition_def map_index_def Let_def)

theorem unconfigured_partition_limited_witness:
  "\<exists>mp'. MaxCapacity_notifyAcquire 7
       \<lparr>partitionIdMaxCapacity = [1 \<mapsto> 4], partitionIdCurCapacity = Map.empty\<rparr> = Inr mp'
     \<and> MaxCapacity_notifyAcquire 7 mp' = Inl Assertion"
  using unconfigured_partition_limited
    [of "\<lparr>partitionIdMaxCapacity = [1 \<mapsto> 4], partitionIdCurCapacity = Map.empty\<rparr>" 7]
  by auto

end
