(* ===== verification/Set_Assoc_Tags.thy ===== *)
theory Set_Assoc_Tags
  imports Cache_Blk Repl_Policies Partitioning
begin

text \<open>
  The tag store: \<^verbatim>\<open>BaseTags\<close> (src/gem5/src/mem/cache/tags/base.hh and base.cc) and
  \<^verbatim>\<open>BaseSetAssoc\<close> (base_set_assoc.hh and base_set_assoc.cc) with CacheFlex's changes:
  victim selection skips scratchpad, waiting and pinned blocks, slots are found by set and
  way, and consumed blocks are demoted. A block pointer is an index into \<open>tagBlks\<close>. The
  replacement policy is an argument (its operations) together with its store in the state.
  Of the statistics, those that feed back into the state are kept.
\<close>

section \<open>State\<close>

record 's tags =
  tagsIp :: indexing_policy
  allocAssoc :: nat
  tagBlks :: "cache_blk list"
  tagsBlkSize :: nat
  sequentialAccess :: bool
  lookupLatency :: cycles
  partitionManager :: "partitioning_policy list option"
  rpStore :: 's
  warmupBound :: int
  warmedUp :: bool
  tagsInUse :: int
  tagAccesses :: nat
  dataAccesses :: nat
  occupancies :: "nat \<Rightarrow> int"
  totalRefs :: nat
  sampledRefs :: nat
  maxRequestors :: nat

definition blk_at :: "'s tags \<Rightarrow> nat \<Rightarrow> cache_blk" where
  "blk_at t i = tagBlks t ! i"

definition upd_blk :: "nat \<Rightarrow> cache_blk \<Rightarrow> 's tags \<Rightarrow> 's tags" where
  "upd_blk i b t = t\<lparr>tagBlks := (tagBlks t)[i := b]\<rparr>"

text \<open>\<^verbatim>\<open>readPacketPartitionID\<close> of the base partition manager.\<close>

definition readPacketPartitionID :: "packet \<Rightarrow> 64 word" where
  "readPacketPartitionID p = 0"

text \<open>
  Construction and \<^verbatim>\<open>tagsInit\<close>: \<open>fresh\<close> supplies the contents of the data array, \<open>rp\<close>
  the replacement data of all entries.
\<close>

definition tagsInit :: "indexing_policy \<Rightarrow> nat \<Rightarrow> nat \<Rightarrow> (nat \<Rightarrow> byte list) \<Rightarrow> cache_blk list res" where
  "tagsInit ip numBlocks blk_size fresh =
     foldR (\<lambda>i bs. bindR (setEntry ip i) (\<lambda>_. Inr (bs @ [CacheBlk_new (take blk_size (fresh i))])))
       [0..<numBlocks] []"

definition BaseSetAssoc_new ::
  "indexing_policy \<Rightarrow> nat \<Rightarrow> nat \<Rightarrow> bool \<Rightarrow> cycles \<Rightarrow> partitioning_policy list option \<Rightarrow> int \<Rightarrow> nat \<Rightarrow>
   (nat \<Rightarrow> byte list) \<Rightarrow> 's \<Rightarrow> 's tags res" where
  "BaseSetAssoc_new ip sz blk_size seq lat pm warmup maxReq fresh rp =
     fatal_when (blk_size < 4 \<or> \<not> isPowerOf2 (of_nat blk_size))
       (bindR (tagsInit ip (sz div blk_size) blk_size fresh) (\<lambda>bs.
          Inr \<lparr>tagsIp = ip, allocAssoc = assoc ip, tagBlks = bs, tagsBlkSize = blk_size,
               sequentialAccess = seq, lookupLatency = lat, partitionManager = pm, rpStore = rp,
               warmupBound = warmup, warmedUp = False, tagsInUse = 0, tagAccesses = 0,
               dataAccesses = 0, occupancies = (\<lambda>_. 0), totalRefs = 0, sampledRefs = 0,
               maxRequestors = maxReq\<rparr>))"

section \<open>Lookups\<close>

definition findBlockBySetAndWay :: "nat \<Rightarrow> nat \<Rightarrow> 's tags \<Rightarrow> nat" where
  "findBlockBySetAndWay st way t = getEntry (tagsIp t) st way"

definition findBlock :: "addr \<Rightarrow> bool \<Rightarrow> 's tags \<Rightarrow> nat option" where
  "findBlock a sec t =
     find (\<lambda>i. blk_match (tagsIp t) a sec (blk_at t i)) (getPossibleEntries (tagsIp t) a)"

definition blkAlign :: "addr \<Rightarrow> 's tags \<Rightarrow> addr" where
  "blkAlign a t = a AND NOT (blk_mask (tagsBlkSize t))"

definition extractBlkOffset :: "addr \<Rightarrow> 's tags \<Rightarrow> nat" where
  "extractBlkOffset a t = unat (a AND blk_mask (tagsBlkSize t))"

definition regenerateBlkAddr :: "nat \<Rightarrow> 's tags \<Rightarrow> addr" where
  "regenerateBlkAddr i t = regenerateAddr (tagsIp t) (blkTag (blk_at t i)) i"

definition anyBlk :: "(cache_blk \<Rightarrow> bool) \<Rightarrow> 's tags \<Rightarrow> bool" where
  "anyBlk visitor t = list_ex visitor (tagBlks t)"

definition accessBlock ::
  "'s policy_ops \<Rightarrow> repl_env \<Rightarrow> packet \<Rightarrow> 's tags \<Rightarrow> (nat option \<times> cycles \<times> 's tags) res" where
  "accessBlock ops env p t =
     (let blk = findBlock (getAddr p) (isSecure p) t;
          t1 = t\<lparr>tagAccesses := tagAccesses t + allocAssoc t,
                 dataAccesses := (if sequentialAccess t
                    then (if blk \<noteq> None then dataAccesses t + 1 else dataAccesses t)
                    else dataAccesses t + allocAssoc t)\<rparr>
      in (case blk of
            None \<Rightarrow> Inr (None, lookupLatency t1, t1)
          | Some i \<Rightarrow>
              bindR (rp_touch ops env i (rpStore t1)) (\<lambda>rp.
                Inr (Some i, lookupLatency t1,
                     (upd_blk i (increaseRefCount (blk_at t1 i)) t1)\<lparr>rpStore := rp\<rparr>))))"

text \<open>
  \<open>findSPMSlot\<close> reads the block at the slot's set and way, whatever it holds.
\<close>

definition findSPMSlot :: "packet \<Rightarrow> 's tags \<Rightarrow> nat option \<times> cycles \<times> 's tags" where
  "findSPMSlot p t =
     (let slotAddr = getSlot p;
          entries = getPossibleEntries (tagsIp t) slotAddr;
          wayIdx = extractWay (tagsIp t) slotAddr;
          t1 = t\<lparr>dataAccesses := dataAccesses t + 1\<rparr>;
          slot = find (\<lambda>i. getWay (tagsIp t) i = wayIdx) entries
      in (case slot of
            None \<Rightarrow> (None, lookupLatency t1, t1)
          | Some i \<Rightarrow>
              (Some i, lookupLatency t1,
               if blkValid (blk_at t1 i) then upd_blk i (increaseRefCount (blk_at t1 i)) t1 else t1)))"

section \<open>Victim selection\<close>

definition evictable :: "cache_blk \<Rightarrow> bool" where
  "evictable b \<longleftrightarrow> \<not> (blk_isSet WaitBit b \<or> blk_isSet ScratchpadBit b)"

definition victim_candidates :: "addr \<Rightarrow> 64 word \<Rightarrow> 's tags \<Rightarrow> nat list" where
  "victim_candidates a pid t =
     (let entries = getPossibleEntries (tagsIp t) a;
          entries1 = (case partitionManager t of
             None \<Rightarrow> entries
           | Some pm \<Rightarrow> PM_filterByPartition (\<lambda>i. partitionId (blk_at t i)) (getWay (tagsIp t)) pm pid entries);
          entries2 = filter (\<lambda>i. evictable (blk_at t i)) entries1;
          unpinned = filter (\<lambda>i. \<not> blk_isSet PinnedBit (blk_at t i)) entries2
      in if unpinned \<noteq> [] then unpinned else entries2)"

text \<open>Returns the victim; the list of blocks to evict is that victim alone, also when there is none.\<close>

definition findVictim ::
  "'s policy_ops \<Rightarrow> repl_env \<Rightarrow> addr \<Rightarrow> 64 word \<Rightarrow> 's tags \<Rightarrow> (nat option \<times> nat option list \<times> 's tags) res" where
  "findVictim ops env a pid t =
     (let entries = victim_candidates a pid t
      in if entries = [] then Inr (None, [None], t)
         else bindR (rp_getVictim ops env entries (rpStore t)) (\<lambda>(v, rp).
                Inr (Some v, [Some v], t\<lparr>rpStore := rp\<rparr>)))"

definition demoteToLRU :: "'s policy_ops \<Rightarrow> nat \<Rightarrow> 's tags \<Rightarrow> 's tags res" where
  "demoteToLRU ops i t =
     must (blkValid (blk_at t i))
       (bindR (rp_invalidate ops i (rpStore t)) (\<lambda>rp. Inr (t\<lparr>rpStore := rp\<rparr>)))"

section \<open>Insertion, invalidation, moves\<close>

definition base_insertBlock :: "tick \<Rightarrow> packet \<Rightarrow> nat \<Rightarrow> 's tags \<Rightarrow> 's tags res" where
  "base_insertBlock tk p i t =
     must (\<not> blkValid (blk_at t i))
       (let rid = requestorId (req p);
            pid = (case partitionManager t of None \<Rightarrow> 0 | Some pm \<Rightarrow> readPacketPartitionID p)
        in must (rid < maxRequestors t)
             (bindR (blk_insert tk (tagsIp t) (getAddr p) (isSecure p) rid (taskId (req p)) pid (blk_at t i)) (\<lambda>b.
                let t1 = (upd_blk i b t)\<lparr>occupancies := (occupancies t)(rid := occupancies t rid + 1)\<rparr>;
                    t2 = t1\<lparr>warmedUp := (warmedUp t1 \<or> tagsInUse t1 \<ge> warmupBound t1)\<rparr>
                in Inr (t2\<lparr>tagAccesses := tagAccesses t2 + 1, dataAccesses := dataAccesses t2 + 1\<rparr>))))"

definition insertBlock ::
  "'s policy_ops \<Rightarrow> repl_env \<Rightarrow> packet \<Rightarrow> nat \<Rightarrow> 's tags \<Rightarrow> 's tags res" where
  "insertBlock ops env p i t =
     bindR (base_insertBlock (now env) p i t) (\<lambda>t1.
       let t2 = t1\<lparr>tagsInUse := tagsInUse t1 + 1\<rparr>
       in bindR (case partitionManager t2 of
                   None \<Rightarrow> Inr t2
                 | Some pm \<Rightarrow> bindR (PM_notifyAcquire (readPacketPartitionID p) pm)
                                (\<lambda>pm'. Inr (t2\<lparr>partitionManager := Some pm'\<rparr>)))
            (\<lambda>t3. bindR (rp_reset ops env i (rpStore t3)) (\<lambda>rp. Inr (t3\<lparr>rpStore := rp\<rparr>))))"

definition base_invalidate :: "nat \<Rightarrow> 's tags \<Rightarrow> 's tags res" where
  "base_invalidate i t =
     (let b = blk_at t i
      in must (blkValid b)
           (bindR (blk_invalidate b) (\<lambda>b'.
              Inr ((upd_blk i b' t)
                \<lparr>occupancies := (occupancies t)(srcRequestorId b := occupancies t (srcRequestorId b) - 1),
                 totalRefs := totalRefs t + refCount b, sampledRefs := sampledRefs t + 1\<rparr>))))"

definition tags_invalidate :: "'s policy_ops \<Rightarrow> nat \<Rightarrow> 's tags \<Rightarrow> 's tags res" where
  "tags_invalidate ops i t =
     bindR (case partitionManager t of
              None \<Rightarrow> Inr t
            | Some pm \<Rightarrow> bindR (PM_notifyRelease (partitionId (blk_at t i)) pm)
                           (\<lambda>pm'. Inr (t\<lparr>partitionManager := Some pm'\<rparr>)))
       (\<lambda>t1. bindR (base_invalidate i t1) (\<lambda>t2.
          bindR (rp_invalidate ops i (rpStore t2)) (\<lambda>rp.
            Inr (t2\<lparr>tagsInUse := tagsInUse t2 - 1, rpStore := rp\<rparr>))))"

definition moveBlock :: "'s policy_ops \<Rightarrow> repl_env \<Rightarrow> nat \<Rightarrow> nat \<Rightarrow> 's tags \<Rightarrow> 's tags res" where
  "moveBlock ops env src dst t =
     must (\<not> blkValid (blk_at t dst)) (must (blkValid (blk_at t src))
       (bindR (blk_move (now env) (tagsIp t) (blk_at t src) (blk_at t dst)) (\<lambda>(s', d').
        must (blkValid d') (must (\<not> blkValid s')
          (bindR (rp_invalidate ops src (rpStore t)) (\<lambda>rp1.
           bindR (rp_reset ops env dst rp1) (\<lambda>rp2.
             Inr ((upd_blk dst d' (upd_blk src s' t))\<lparr>rpStore := rp2\<rparr>))))))))"

definition setWayAllocationMax :: "int \<Rightarrow> 's tags \<Rightarrow> 's tags res" where
  "setWayAllocationMax ways t = fatal_when (ways < 1) (Inr (t\<lparr>allocAssoc := nat ways\<rparr>))"

definition getWayAllocationMax :: "'s tags \<Rightarrow> nat" where
  "getWayAllocationMax t = allocAssoc t"

section \<open>Well-formed tag stores\<close>

text \<open>
  No two blocks of a set answer to the same tag; the reserved tag of scratchpad slots, which
  no address has, may occur many times.
\<close>

definition blk_key :: "cache_blk \<Rightarrow> (addr \<times> bool) option" where
  "blk_key b = (if blkValid b \<and> blkTag b \<noteq> MaxAddr then Some (blkTag b, blkSecure b) else None)"

definition tags_unique :: "indexing_policy \<Rightarrow> cache_blk list \<Rightarrow> bool" where
  "tags_unique ip bs \<longleftrightarrow>
     (\<forall>i < length bs. \<forall>j < length bs. i \<noteq> j \<and> getSet ip i = getSet ip j \<and> blk_key (bs ! i) \<noteq> None
        \<longrightarrow> blk_key (bs ! i) \<noteq> blk_key (bs ! j))"

definition tags_wf :: "'s tags \<Rightarrow> bool" where
  "tags_wf t \<longleftrightarrow>
     0 < assoc (tagsIp t) \<and> 0 < tagShift (tagsIp t) \<and>
     (\<forall>a. extractSet (tagsIp t) a < numSets (tagsIp t)) \<and>
     length (tagBlks t) = numSets (tagsIp t) * assoc (tagsIp t) \<and>
     (\<forall>b \<in> set (tagBlks t). blk_wf b \<and> length (blkData b) = tagsBlkSize t) \<and>
     tags_unique (tagsIp t) (tagBlks t)"

lemma upd_blk_simps [simp]:
  "tagsIp (upd_blk i b t) = tagsIp t" "tagBlks (upd_blk i b t) = (tagBlks t)[i := b]"
  "rpStore (upd_blk i b t) = rpStore t" "tagsBlkSize (upd_blk i b t) = tagsBlkSize t"
  "partitionManager (upd_blk i b t) = partitionManager t"
  "occupancies (upd_blk i b t) = occupancies t" "tagsInUse (upd_blk i b t) = tagsInUse t"
  by (simp_all add: upd_blk_def)

lemma blk_at_cong: "tagBlks t = tagBlks t' \<Longrightarrow> blk_at t i = blk_at t' i"
  by (simp add: blk_at_def)

lemma findBlock_cong:
  "tagsIp t = tagsIp t' \<Longrightarrow> tagBlks t = tagBlks t' \<Longrightarrow> findBlock a sec t = findBlock a sec t'"
  by (simp add: findBlock_def blk_at_def)

lemma tags_wf_cong:
  "tagsIp t = tagsIp t' \<Longrightarrow> tagBlks t = tagBlks t' \<Longrightarrow> tagsBlkSize t = tagsBlkSize t' \<Longrightarrow>
   tags_wf t \<longleftrightarrow> tags_wf t'"
  by (simp add: tags_wf_def)

lemma set_possible_entries:
  "set (getPossibleEntries ip a) = (\<lambda>k. extractSet ip a * assoc ip + k) ` {0..<assoc ip}"
  unfolding getPossibleEntries_def set_map set_upt getEntry_def ..

lemma tags_uniqueD:
  "tags_unique ip bs \<Longrightarrow> i < length bs \<Longrightarrow> j < length bs \<Longrightarrow> getSet ip i = getSet ip j \<Longrightarrow>
   blk_key (bs ! i) = Some k \<Longrightarrow> blk_key (bs ! j) = Some k \<Longrightarrow> i = j"
  unfolding tags_unique_def by fastforce

lemma blk_match_key:
  "0 < tagShift ip \<Longrightarrow> blk_match ip a sec b \<longleftrightarrow> blk_key b = Some (extractTag ip a, sec)"
  using extractTag_not_MaxAddr[of ip a] by (auto simp: blk_match_def blk_key_def)

lemma possible_entry_iff:
  "0 < assoc ip \<Longrightarrow> i \<in> set (getPossibleEntries ip a) \<longleftrightarrow> getSet ip i = extractSet ip a"
proof
  assume n: "0 < assoc ip"
  show "i \<in> set (getPossibleEntries ip a) \<Longrightarrow> getSet ip i = extractSet ip a"
    unfolding set_possible_entries getSet_def using n by (elim imageE) simp
  assume h: "getSet ip i = extractSet ip a"
  then have "i = getEntry ip (extractSet ip a) (i mod assoc ip)"
    by (simp add: getEntry_def getSet_def flip: h)
  then show "i \<in> set (getPossibleEntries ip a)"
    unfolding set_possible_entries getEntry_def using n by (intro image_eqI[of _ _ "i mod assoc ip"]) simp_all
qed

lemma possible_entry_less:
  assumes "tags_wf t" and "i \<in> set (getPossibleEntries (tagsIp t) a)"
  shows "i < length (tagBlks t)"
proof -
  let ?ip = "tagsIp t"
  have w: "0 < assoc ?ip" "extractSet ?ip a < numSets ?ip"
      "length (tagBlks t) = numSets ?ip * assoc ?ip"
    using assms(1) by (auto simp: tags_wf_def)
  obtain k where k: "i = extractSet ?ip a * assoc ?ip + k" "k < assoc ?ip"
    using assms(2) unfolding set_possible_entries by (elim imageE) simp
  have "Suc (extractSet ?ip a) * assoc ?ip \<le> numSets ?ip * assoc ?ip"
    using w(2) by (intro mult_le_mono1) simp
  with k w(3) show ?thesis by simp
qed

lemma blk_at_wf: "tags_wf t \<Longrightarrow> i < length (tagBlks t) \<Longrightarrow> blk_wf (blk_at t i)"
  by (simp add: tags_wf_def blk_at_def)

lemma findBlock_SomeD:
  assumes "findBlock a sec t = Some i" and "0 < assoc (tagsIp t)"
  shows "getSet (tagsIp t) i = extractSet (tagsIp t) a \<and> blk_match (tagsIp t) a sec (blk_at t i)
     \<and> i \<in> set (getPossibleEntries (tagsIp t) a)"
  using find_Some_mem[OF assms(1)[unfolded findBlock_def]] possible_entry_iff[OF assms(2)] by auto

lemma findBlock_NoneD:
  "findBlock a sec t = None \<Longrightarrow> 0 < assoc (tagsIp t) \<Longrightarrow> getSet (tagsIp t) i = extractSet (tagsIp t) a \<Longrightarrow>
   \<not> blk_match (tagsIp t) a sec (blk_at t i)"
  using possible_entry_iff by (auto simp: findBlock_def find_None_iff)

lemma findBlock_match:
  assumes "tags_wf t" and "i < length (tagBlks t)"
    and "getSet (tagsIp t) i = extractSet (tagsIp t) a" "blk_match (tagsIp t) a sec (blk_at t i)"
  shows "findBlock a sec t = Some i"
proof (cases "findBlock a sec t")
  case None
  then show ?thesis
    using findBlock_NoneD[OF None _ assms(3)] assms(1,4) by (simp add: tags_wf_def)
next
  case (Some j)
  have n: "0 < assoc (tagsIp t)" using assms(1) by (simp add: tags_wf_def)
  note j = findBlock_SomeD[OF Some n]
  have "j < length (tagBlks t)" using possible_entry_less[OF assms(1)] j by blast
  moreover have "tags_unique (tagsIp t) (tagBlks t)" "0 < tagShift (tagsIp t)"
    using assms(1) by (simp_all add: tags_wf_def)
  ultimately have "j = i"
    using j assms(2-4) tags_uniqueD[of "tagsIp t" "tagBlks t" j i "(extractTag (tagsIp t) a, sec)"]
    by (simp add: blk_match_key blk_at_def)
  with Some show ?thesis by simp
qed

lemma tags_unique_upd:
  assumes "tags_unique ip bs" and "i < length bs"
    and "\<And>j k. j < length bs \<Longrightarrow> j \<noteq> i \<Longrightarrow> getSet ip j = getSet ip i \<Longrightarrow> blk_key (bs ! j) = Some k \<Longrightarrow>
           blk_key b \<noteq> Some k"
  shows "tags_unique ip (bs[i := b])"
  unfolding tags_unique_def
proof (intro allI impI, elim conjE)
  fix j k
  assume j: "j < length (bs[i := b])" and k: "k < length (bs[i := b])" and ne: "j \<noteq> k"
    and st: "getSet ip j = getSet ip k" and some: "blk_key (bs[i := b] ! j) \<noteq> None"
  consider "j = i" "k \<noteq> i" | "k = i" "j \<noteq> i" | "j \<noteq> i" "k \<noteq> i" using ne by blast
  then show "blk_key (bs[i := b] ! j) \<noteq> blk_key (bs[i := b] ! k)"
  proof cases
    case 1
    then show ?thesis
      using assms(2) assms(3)[of k] st some k by (cases "blk_key (bs ! k)") simp_all
  next
    case 2
    then show ?thesis
      using assms(2) assms(3)[of j] st some j by (cases "blk_key (bs ! j)") simp_all
  next
    case 3
    then show ?thesis
      using assms(1) j k ne st some by (simp add: tags_unique_def)
  qed
qed

lemma tags_unique_upd_same:
  assumes "tags_unique ip bs" "i < length bs" "blk_key b = blk_key (bs ! i)"
  shows "tags_unique ip (bs[i := b])"
  using tags_uniqueD[OF assms(1)] assms(2,3) by (intro tags_unique_upd[OF assms(1,2)]) auto

lemma tags_wf_upd:
  assumes "tags_wf t" and "i < length (tagBlks t)" and "blk_wf b" "length (blkData b) = tagsBlkSize t"
    and "tags_unique (tagsIp t) ((tagBlks t)[i := b])"
  shows "tags_wf (upd_blk i b t)"
proof -
  have "set ((tagBlks t)[i := b]) \<subseteq> insert b (set (tagBlks t))"
    by (rule set_update_subset_insert)
  with assms show ?thesis
    by (auto simp: tags_wf_def)
qed

text \<open>An update that changes neither tag nor validity nor data of a block.\<close>

lemma tags_wf_upd_same:
  assumes "tags_wf t" "i < length (tagBlks t)" "blk_wf b" "blk_key b = blk_key (blk_at t i)"
    "length (blkData b) = tagsBlkSize t"
  shows "tags_wf (upd_blk i b t)"
  using assms tags_unique_upd_same[of "tagsIp t" "tagBlks t" i b]
  by (intro tags_wf_upd) (simp_all add: tags_wf_def blk_at_def)

lemma tags_wf_upd_none:
  assumes "tags_wf t" "i < length (tagBlks t)" "blk_wf b" "blk_key b = None"
    "length (blkData b) = tagsBlkSize t"
  shows "tags_wf (upd_blk i b t)"
  using assms tags_unique_upd[of "tagsIp t" "tagBlks t" i b]
  by (intro tags_wf_upd) (simp_all add: tags_wf_def)

section \<open>The operations keep the store well formed\<close>

lemma blk_wf_increaseRefCount [simp]: "blk_wf (increaseRefCount b) = blk_wf b"
  by (simp add: blk_wf_def increaseRefCount_def)

lemma blk_key_increaseRefCount [simp]: "blk_key (increaseRefCount b) = blk_key b"
  by (simp add: blk_key_def increaseRefCount_def)

lemma blkData_increaseRefCount [simp]: "blkData (increaseRefCount b) = blkData b"
  by (simp add: increaseRefCount_def)

lemma tags_wf_blk: "tags_wf t \<Longrightarrow> i < length (tagBlks t) \<Longrightarrow>
   blk_wf (blk_at t i) \<and> length (blkData (blk_at t i)) = tagsBlkSize t"
  by (simp add: tags_wf_def blk_at_def)

lemma tags_wf_touch:
  "tags_wf t \<Longrightarrow> i < length (tagBlks t) \<Longrightarrow> tags_wf (upd_blk i (increaseRefCount (blk_at t i)) t)"
  by (rule tags_wf_upd_same) (simp_all add: tags_wf_blk)

lemma base_insertBlock_blks:
  assumes "base_insertBlock tk p i t = Inr t'"
  shows "\<exists>b part. blk_insert tk (tagsIp t) (getAddr p) (isSecure p) (requestorId (req p))
       (taskId (req p)) part (blk_at t i) = Inr b
     \<and> tagBlks t' = (tagBlks t)[i := b] \<and> tagsIp t' = tagsIp t \<and> tagsBlkSize t' = tagsBlkSize t
     \<and> \<not> blkValid (blk_at t i) \<and> rpStore t' = rpStore t"
proof -
  define part where "part = (case partitionManager t of None \<Rightarrow> 0 | Some pm \<Rightarrow> readPacketPartitionID p)"
  from assms obtain b where "blk_insert tk (tagsIp t) (getAddr p) (isSecure p) (requestorId (req p))
       (taskId (req p)) part (blk_at t i) = Inr b" "\<not> blkValid (blk_at t i)"
      "tagBlks t' = (tagBlks t)[i := b]" "tagsIp t' = tagsIp t" "tagsBlkSize t' = tagsBlkSize t"
      "rpStore t' = rpStore t"
    by (auto simp: base_insertBlock_def Let_def simp flip: part_def)
  then show ?thesis by blast
qed

lemma insertBlock_blks:
  assumes "insertBlock ops env p i t = Inr t'"
  shows "\<exists>b part. blk_insert (now env) (tagsIp t) (getAddr p) (isSecure p) (requestorId (req p))
       (taskId (req p)) part (blk_at t i) = Inr b
     \<and> tagBlks t' = (tagBlks t)[i := b] \<and> tagsIp t' = tagsIp t \<and> tagsBlkSize t' = tagsBlkSize t
     \<and> \<not> blkValid (blk_at t i) \<and> rp_reset ops env i (rpStore t) = Inr (rpStore t')"
proof -
  obtain t1 where t1: "base_insertBlock (now env) p i t = Inr t1"
    using assms by (auto simp: insertBlock_def)
  obtain b part where "\<not> blkValid (blk_at t i)"
      "blk_insert (now env) (tagsIp t) (getAddr p) (isSecure p) (requestorId (req p))
         (taskId (req p)) part (blk_at t i) = Inr b"
      "tagBlks t1 = (tagBlks t)[i := b]" "tagsIp t1 = tagsIp t" "tagsBlkSize t1 = tagsBlkSize t"
      "rpStore t1 = rpStore t"
    using base_insertBlock_blks[OF t1] by blast
  moreover have "tagBlks t' = tagBlks t1" "tagsIp t' = tagsIp t1" "tagsBlkSize t' = tagsBlkSize t1"
      "rp_reset ops env i (rpStore t1) = Inr (rpStore t')"
    using assms t1 by (auto simp: insertBlock_def Let_def split: option.splits)
  ultimately show ?thesis by auto
qed

lemma tags_invalidate_blks:
  assumes "tags_invalidate ops i t = Inr t'"
  shows "\<exists>b. blk_invalidate (blk_at t i) = Inr b \<and> tagBlks t' = (tagBlks t)[i := b]
     \<and> tagsIp t' = tagsIp t \<and> tagsBlkSize t' = tagsBlkSize t \<and> blkValid (blk_at t i)
     \<and> rp_invalidate ops i (rpStore t) = Inr (rpStore t')"
  using assms
  by (auto simp: tags_invalidate_def base_invalidate_def Let_def upd_blk_def blk_at_def
      split: option.splits)

lemma blk_invalidate_data: "blk_invalidate b = Inr b' \<Longrightarrow> blkData b' = blkData b"
  by (auto simp: blk_invalidate_def Let_def setWhenReady_def clearCoherenceBits_def
      clearPrefetched_def tagged_invalidate_def)

lemma tags_wf_invalidate:
  assumes "tags_wf t" "i < length (tagBlks t)" "tags_invalidate ops i t = Inr t'"
  shows "tags_wf t' \<and> \<not> blkValid (blk_at t' i)"
proof -
  obtain b where b: "blk_invalidate (blk_at t i) = Inr b" "tagBlks t' = (tagBlks t)[i := b]"
      "tagsIp t' = tagsIp t" "tagsBlkSize t' = tagsBlkSize t"
    using tags_invalidate_blks[OF assms(3)] by blast
  have w: "blk_wf b" "\<not> blkValid b" using blk_wf_invalidate[OF b(1)] by auto
  then have "tags_wf (upd_blk i b t)"
    using assms(1,2) blk_invalidate_data[OF b(1)]
    by (intro tags_wf_upd_none) (auto simp: blk_key_def tags_wf_blk)
  then have "tags_wf t'"
    using b by (subst tags_wf_cong[of t' "upd_blk i b t"]) simp_all
  with w(2) b(2) assms(2) show ?thesis by (simp add: blk_at_def)
qed

lemma insert_finds:
  assumes "tags_wf t" "i < length (tagBlks t)"
    and "getSet (tagsIp t) i = extractSet (tagsIp t) (getAddr p)"
    and "findBlock (getAddr p) (isSecure p) t = None" "insertBlock ops env p i t = Inr t'"
  shows "tags_wf t' \<and> findBlock (getAddr p) (isSecure p) t' = Some i"
proof -
  let ?ip = "tagsIp t"
  have g: "0 < assoc ?ip" "0 < tagShift ?ip" using assms(1) by (auto simp: tags_wf_def)
  obtain b part where b: "blk_insert (now env) ?ip (getAddr p) (isSecure p) (requestorId (req p))
       (taskId (req p)) part (blk_at t i) = Inr b"
      "tagBlks t' = (tagBlks t)[i := b]" "tagsIp t' = ?ip" "tagsBlkSize t' = tagsBlkSize t"
    using insertBlock_blks[OF assms(5)] by blast
  note w = blk_wf_insert[OF blk_at_wf[OF assms(1,2)] b(1)]
  have m: "blk_match ?ip (getAddr p) (isSecure p) b"
    using w by (simp add: blk_match_def)
  have "tags_unique ?ip ((tagBlks t)[i := b])"
  proof (rule tags_unique_upd)
    show "tags_unique ?ip (tagBlks t)" using assms(1) by (simp add: tags_wf_def)
    fix j k assume "j < length (tagBlks t)" "j \<noteq> i" "getSet ?ip j = getSet ?ip i"
      and key: "blk_key (tagBlks t ! j) = Some k"
    then have "\<not> blk_match ?ip (getAddr p) (isSecure p) (blk_at t j)"
      using findBlock_NoneD[OF assms(4) g(1)] assms(3) by simp
    with key m g(2) show "blk_key b \<noteq> Some k"
      by (simp add: blk_match_key blk_at_def)
  qed (rule assms(2))
  then have "tags_wf (upd_blk i b t)"
    using assms(1,2) w tags_wf_blk[OF assms(1,2)] by (intro tags_wf_upd) simp_all
  then have wf: "tags_wf t'"
    using b by (subst tags_wf_cong[of t' "upd_blk i b t"]) simp_all
  then show ?thesis
    using findBlock_match[OF wf, of i "getAddr p" "isSecure p"] assms(2,3) b m
    by (simp add: blk_at_def)
qed

lemma accessBlock_blks:
  assumes "tags_wf t" and "accessBlock ops env p t = Inr (r, lat, t')"
  shows "r = findBlock (getAddr p) (isSecure p) t \<and> lat = lookupLatency t \<and> tags_wf t'
     \<and> tagsIp t' = tagsIp t \<and> tagsBlkSize t' = tagsBlkSize t \<and> length (tagBlks t') = length (tagBlks t)
     \<and> tagBlks t' = (case r of None \<Rightarrow> tagBlks t
                     | Some i \<Rightarrow> (tagBlks t)[i := increaseRefCount (blk_at t i)])"
proof (cases "findBlock (getAddr p) (isSecure p) t")
  case None
  then show ?thesis
    using assms by (auto simp: accessBlock_def Let_def tags_wf_def)
next
  case (Some i)
  have "i < length (tagBlks t)"
    using findBlock_SomeD[OF Some] possible_entry_less[OF assms(1)] assms(1)
    by (auto simp: tags_wf_def)
  then have "tags_wf (upd_blk i (increaseRefCount (blk_at t i)) t)"
    by (rule tags_wf_touch[OF assms(1)])
  then show ?thesis
    using assms(2) Some
    by (auto simp: accessBlock_def Let_def blk_at_def tags_wf_def)
qed

section \<open>Victims\<close>

lemma victim_candidates_mem:
  assumes "i \<in> set (victim_candidates a pid t)"
  shows "i \<in> set (getPossibleEntries (tagsIp t) a) \<and> evictable (blk_at t i)
     \<and> (blk_isSet PinnedBit (blk_at t i) \<longrightarrow>
          (\<forall>j \<in> set (victim_candidates a pid t). blk_isSet PinnedBit (blk_at t j)))"
proof -
  define es where "es = (case partitionManager t of
      None \<Rightarrow> getPossibleEntries (tagsIp t) a
    | Some pm \<Rightarrow> PM_filterByPartition (\<lambda>i. partitionId (blk_at t i)) (getWay (tagsIp t)) pm pid
        (getPossibleEntries (tagsIp t) a))"
  have sub: "set es \<subseteq> set (getPossibleEntries (tagsIp t) a)"
    by (auto simp: es_def split: option.splits dest: subsetD[OF PM_filter_subset])
  define ev where "ev = filter (\<lambda>i. evictable (blk_at t i)) es"
  define un where "un = filter (\<lambda>i. \<not> blk_isSet PinnedBit (blk_at t i)) ev"
  have vc: "victim_candidates a pid t = (if un \<noteq> [] then un else ev)"
    by (simp add: victim_candidates_def es_def ev_def un_def Let_def)
  have "set (victim_candidates a pid t) \<subseteq> set ev"
    by (auto simp: vc un_def)
  then have "i \<in> set (getPossibleEntries (tagsIp t) a) \<and> evictable (blk_at t i)"
    using assms sub by (auto simp: ev_def)
  moreover have "\<forall>j \<in> set (victim_candidates a pid t). blk_isSet PinnedBit (blk_at t j)"
    if p: "blk_isSet PinnedBit (blk_at t i)"
  proof -
    have "un = []" using p assms by (auto simp: vc un_def split: if_splits)
    then show ?thesis by (auto simp: vc un_def filter_empty_conv)
  qed
  ultimately show ?thesis by blast
qed

lemma victim_candidates_unpartitioned:
  assumes "partitionManager t = None" and "victim_candidates a pid t = []"
    and "i \<in> set (getPossibleEntries (tagsIp t) a)"
  shows "\<not> evictable (blk_at t i)"
  using assms by (auto simp: victim_candidates_def Let_def filter_empty_conv split: if_splits)

context replacement_policy
begin

lemma findVictim_total:
  assumes "rng_ok env" and "wf (rpStore t)"
  shows "\<exists>r t'. findVictim ops env a pid t = Inr (r, [r], t') \<and> wf (rpStore t')
     \<and> tagBlks t' = tagBlks t \<and> tagsIp t' = tagsIp t \<and> tagsBlkSize t' = tagsBlkSize t
     \<and> (case r of None \<Rightarrow> victim_candidates a pid t = []
        | Some v \<Rightarrow> v \<in> set (victim_candidates a pid t))"
proof (cases "victim_candidates a pid t = []")
  case True
  then show ?thesis using assms by (simp add: findVictim_def)
next
  case False
  obtain v rp where "rp_getVictim ops env (victim_candidates a pid t) (rpStore t) = Inr (v, rp)"
      "v \<in> set (victim_candidates a pid t)" "wf rp"
    using victim_candidate[OF assms False] by blast
  with False show ?thesis by (simp add: findVictim_def Let_def)
qed

end


text \<open>
  C14. What is inserted is found and what is invalidated is not: filling an invalid block of
  the right set with a packet whose address is not cached makes the lookup of that address
  return exactly that block; invalidating the block makes the address miss again; and both
  keep the store well formed.
\<close>

theorem insert_lookup_invalidate:
  assumes "tags_wf t" "i < length (tagBlks t)"
    and "getSet (tagsIp t) i = extractSet (tagsIp t) (getAddr p)"
    and "findBlock (getAddr p) (isSecure p) t = None"
    and "insertBlock ops env p i t = Inr t1" and "tags_invalidate ops i t1 = Inr t2"
  shows "tags_wf t1 \<and> findBlock (getAddr p) (isSecure p) t1 = Some i
     \<and> tags_wf t2 \<and> findBlock (getAddr p) (isSecure p) t2 = None"
proof -
  have t1: "tags_wf t1" "findBlock (getAddr p) (isSecure p) t1 = Some i"
    using insert_finds[OF assms(1-5)] by auto
  have len: "i < length (tagBlks t1)"
    using insertBlock_blks[OF assms(5)] assms(2) by auto
  obtain b where b: "tagBlks t2 = (tagBlks t1)[i := b]" "tagsIp t2 = tagsIp t1"
    using tags_invalidate_blks[OF assms(6)] by blast
  have t2: "tags_wf t2" "\<not> blkValid (blk_at t2 i)"
    using tags_wf_invalidate[OF t1(1) len assms(6)] by auto
  have "findBlock (getAddr p) (isSecure p) t2 = None"
  proof (rule ccontr)
    assume "findBlock (getAddr p) (isSecure p) t2 \<noteq> None"
    then obtain j where j: "findBlock (getAddr p) (isSecure p) t2 = Some j" by blast
    have n: "0 < assoc (tagsIp t2)" using t2(1) by (simp add: tags_wf_def)
    note d = findBlock_SomeD[OF j n]
    have "j \<noteq> i" using d t2(2) by (auto simp: blk_match_def)
    then have "blk_match (tagsIp t1) (getAddr p) (isSecure p) (blk_at t1 j)"
      using d b by (simp add: blk_at_def)
    moreover have "j < length (tagBlks t1)"
      using possible_entry_less[OF t1(1), of j "getAddr p"] d b(2) by simp
    ultimately have "findBlock (getAddr p) (isSecure p) t1 = Some j"
      using findBlock_match[OF t1(1)] d b(2) by simp
    with t1(2) \<open>j \<noteq> i\<close> show False by simp
  qed
  with t1 t2 show ?thesis by simp
qed

text \<open>
  C15. The scratchpad is addressed by position: with a power-of-two associativity the slot
  lookup of the address of (way, set, offset) returns exactly the block in that set and way,
  whether or not it is valid and whatever its tag, without touching its data or the
  replacement state; so different ways or sets never share a slot.
\<close>

theorem findSPMSlot_by_position:
  assumes "IndexingPolicy_new (2 ^ m) n sh = Inr (tagsIp t)" and "n < 2 ^ 32" and "m < 32"
    and "wayShift (tagsIp t) + m \<le> 64"
    and "way < 2 ^ m" "st < numSets (tagsIp t)" "off < 2 ^ sh"
    and "getSlot p = slot_address (tagsIp t) way st off"
  shows "\<exists>t'. findSPMSlot p t = (Some (getEntry (tagsIp t) st way), lookupLatency t, t')
     \<and> getSet (tagsIp t) (getEntry (tagsIp t) st way) = st
     \<and> getWay (tagsIp t) (getEntry (tagsIp t) st way) = way
     \<and> rpStore t' = rpStore t \<and> map blkData (tagBlks t') = map blkData (tagBlks t)"
proof -
  let ?ip = "tagsIp t" and ?i = "getEntry (tagsIp t) st way"
  have as: "assoc ?ip = 2 ^ m"
    using IndexingPolicy_new_geometry[OF assms(1,2)] by auto
  have dec: "extractWay ?ip (getSlot p) = way" "extractSet ?ip (getSlot p) = st"
    using slot_decode[OF assms(1-7)] assms(8) by auto
  have pos: "getSet ?ip ?i = st" "getWay ?ip ?i = way"
    using assms(5) as by (auto simp: getSet_def getWay_def getEntry_def)
  have uniq: "getWay ?ip j = way \<longleftrightarrow> j = ?i" if "j \<in> set (getPossibleEntries ?ip (getSlot p))" for j
  proof
    assume "getWay ?ip j = way"
    moreover have "getSet ?ip j = st"
      using that possible_entry_iff[of ?ip j] as dec by simp
    ultimately show "j = ?i"
      by (auto simp: getSet_def getWay_def getEntry_def)
  qed (use pos in simp)
  have "?i \<in> set (getPossibleEntries ?ip (getSlot p))"
    using possible_entry_iff[of ?ip ?i] as dec pos by simp
  then have "find (\<lambda>j. getWay ?ip j = way) (getPossibleEntries ?ip (getSlot p)) = Some ?i"
    using find_unique[of ?i _ "\<lambda>j. getWay ?ip j = way"] uniq by blast
  moreover have "map blkData ((tagBlks t)[?i := increaseRefCount (blk_at t ?i)]) = map blkData (tagBlks t)"
    unfolding map_update blkData_increaseRefCount blk_at_def
    by (cases "?i < length (tagBlks t)") (simp_all add: list_update_same_conv list_update_beyond)
  ultimately show ?thesis
    using dec pos by (simp add: findSPMSlot_def Let_def blk_at_def)
qed

section \<open>Demotion of consumed blocks\<close>

lemma victim_candidates_cong:
  "tagsIp t' = tagsIp t \<Longrightarrow> tagBlks t' = tagBlks t \<Longrightarrow> partitionManager t' = partitionManager t \<Longrightarrow>
   victim_candidates a pid t' = victim_candidates a pid t"
  by (simp add: victim_candidates_def blk_at_def Let_def split: option.split)

context invalid_first_policy
begin

lemma demoted_is_next_victim:
  assumes "rng_ok env" "wf (rpStore t)" "demoteToLRU ops i t = Inr t1"
    and "i \<in> set (victim_candidates a pid t)"
    and "\<forall>j \<in> set (victim_candidates a pid t). j \<noteq> i \<longrightarrow> \<not> is_invalid j (rpStore t1)"
  shows "\<exists>t2. findVictim ops env a pid t1 = Inr (Some i, [Some i], t2)"
proof -
  obtain rp where rp: "rp_invalidate ops i (rpStore t) = Inr rp" "t1 = t\<lparr>rpStore := rp\<rparr>"
    using assms(3) by (auto simp: demoteToLRU_def)
  have vc: "victim_candidates a pid t1 = victim_candidates a pid t"
    using rp(2) by (intro victim_candidates_cong) simp_all
  obtain s2 where "rp_getVictim ops env (victim_candidates a pid t) rp = Inr (i, s2)"
    using invalidated_is_next_victim[OF assms(1,2) rp(1) assms(4)] assms(5) rp(2) by auto
  moreover have "victim_candidates a pid t \<noteq> []" using assms(4) by auto
  ultimately show ?thesis
    using vc rp(2) by (simp add: findVictim_def Let_def)
qed

end


section \<open>A concrete store\<close>

definition sample_tags :: "lru_store tags" where
  "sample_tags =
     \<lparr>tagsIp = sample_indexing, allocAssoc = 4, tagBlks = replicate 8 (CacheBlk_new (replicate 64 0)),
      tagsBlkSize = 64, sequentialAccess = False, lookupLatency = 2, partitionManager = None,
      rpStore = (\<lambda>_. 0), warmupBound = 0, warmedUp = False, tagsInUse = 0, tagAccesses = 0,
      dataAccesses = 0, occupancies = (\<lambda>_. 0), totalRefs = 0, sampledRefs = 0, maxRequestors = 4\<rparr>"

lemma sample_tags_wf: "tags_wf sample_tags"
proof -
  have "\<forall>a. extractSet sample_indexing a < numSets sample_indexing"
    using extractSet_less[OF sample_indexing_new] by simp
  moreover have "blk_wf (CacheBlk_new (replicate 64 0))"
    by (rule blk_wf_CacheBlk_new)
  ultimately show ?thesis
    by (simp add: tags_wf_def sample_tags_def tags_unique_def blk_key_def CacheBlk_new_def
        sample_indexing_def)
qed

lemma sample_rng_ok: "rng_ok sample_repl_env"
  by (simp add: rng_ok_def sample_repl_env_def)

lemma sample_candidates: "victim_candidates 0x40 0 sample_tags = [4, 5, 6, 7]"
  by (simp add: victim_candidates_def sample_tags_def getPossibleEntries_def extractSet_def
      sample_indexing_def getEntry_def blk_at_def evictable_def blk_isSet_def CacheBlk_new_def
      upt_rec)


theorem insert_lookup_invalidate_witness:
  "\<exists>t1 t2. insertBlock LRU_ops sample_repl_env (sample_functional ReadReq) 0 sample_tags = Inr t1
     \<and> tags_invalidate LRU_ops 0 t1 = Inr t2
     \<and> findBlock 0x100 False t1 = Some 0 \<and> findBlock 0x100 False t2 = None"
proof -
  let ?p = "sample_functional ReadReq"
  have ev: "getAddr ?p = 0x100" "\<not> isSecure ?p" "requestorId (req ?p) = 0"
    by (simp_all add: sample_defs isSecure_def packet_flag_defs flag_defs)
  have miss: "findBlock (getAddr ?p) (isSecure ?p) sample_tags = None"
    by (auto simp: findBlock_def sample_tags_def find_None_iff blk_match_def blk_at_def
        CacheBlk_new_def getPossibleEntries_def sample_indexing_def extractSet_def ev getEntry_def)
  obtain t1 where t1: "insertBlock LRU_ops sample_repl_env ?p 0 sample_tags = Inr t1"
      "partitionManager t1 = None" "blkValid (blk_at t1 0)" "tickInserted (blk_at t1 0) = 100"
    by (simp add: insertBlock_def base_insertBlock_def sample_tags_def blk_at_def CacheBlk_new_def
        ev blk_insert_def tagged_insert_def setValid_def Let_def LRU_ops_def LRU_reset_def
        upd_blk_def increaseRefCount_def sample_repl_env_def)
  obtain t2 where t2: "tags_invalidate LRU_ops 0 t1 = Inr t2"
    using t1(2-4)
    by (simp add: tags_invalidate_def base_invalidate_def blk_invalidate_def Let_def
        setWhenReady_def clearCoherenceBits_def clearPrefetched_def tagged_invalidate_def
        MaxTick_def LRU_ops_def LRU_invalidate_def)
  have "getSet (tagsIp sample_tags) 0 = extractSet (tagsIp sample_tags) (getAddr ?p)"
    by (simp add: getSet_def extractSet_def sample_tags_def sample_indexing_def ev)
  then show ?thesis
    using insert_lookup_invalidate[OF sample_tags_wf _ _ miss t1(1) t2] t1(1) t2
    by (auto simp: ev sample_tags_def)
qed

theorem findSPMSlot_by_position_witness:
  "\<exists>t'. findSPMSlot ((sample_functional SPMLoadReq)\<lparr>slotidx := slot_address sample_indexing 2 1 17\<rparr>)
       sample_tags = (Some 6, 2, t')"
  using findSPMSlot_by_position[of 2 8 6 sample_tags 2 1 17
      "(sample_functional SPMLoadReq)\<lparr>slotidx := slot_address sample_indexing 2 1 17\<rparr>"]
    sample_indexing_new
  by (simp add: sample_tags_def getSlot_def sample_indexing_def getEntry_def) blast


end
