(* ===== verification/Queue.thy ===== *)
theory Queue
  imports Packet
begin

text \<open>
  The entry queue shared by the MSHR queue and the write buffer
  (src/gem5/src/mem/cache/queue.hh, queue_entry.hh). Entries are named by their index in the
  storage vector; the three lists hold indices, and an iterator kept in an entry is the
  entry's position in the list. What a queue needs from its entries (whether there are
  targets, and what the entry does on its own allocation and deallocation) are arguments of
  the operations, and the locale \<open>queue_entries\<close> says what they have to satisfy for the
  invariant \<open>queue_wf\<close> to be kept. The current tick is an argument.
\<close>

section \<open>Queue entries\<close>

record qentry =
  e_readyTime :: tick
  e_uncacheable :: bool
  e_inService :: bool
  e_order :: nat
  e_blkAddr :: addr
  e_blkSize :: nat
  e_secure :: bool

record qtarget =
  t_recvTime :: tick
  t_readyTime :: tick
  t_order :: nat
  t_pkt :: packet

definition QueueEntry_new :: qentry where
  "QueueEntry_new = \<lparr>e_readyTime = 0, e_uncacheable = False, e_inService = False, e_order = 0,
     e_blkAddr = 0, e_blkSize = 0, e_secure = False\<rparr>"

text \<open>The three virtual address checks, identical in both entry classes.\<close>

definition e_matchBlockAddr ::
  "('x qentry_scheme \<Rightarrow> bool) \<Rightarrow> addr \<Rightarrow> bool \<Rightarrow> 'x qentry_scheme \<Rightarrow> bool res" where
  "e_matchBlockAddr hasTargets a sec e =
     must (hasTargets e) (Inr (e_blkAddr e = a \<and> e_secure e = sec))"

definition e_matchBlockPkt ::
  "('x qentry_scheme \<Rightarrow> bool) \<Rightarrow> packet \<Rightarrow> 'x qentry_scheme \<Rightarrow> bool res" where
  "e_matchBlockPkt hasTargets p e =
     must (hasTargets e) (Inr (matchBlockAddr (e_blkAddr e) (e_secure e) (e_blkSize e) p))"

text \<open>\<open>conflictAddr\<close> compares with an entry of the other queue, a different class.\<close>

definition e_conflictAddr ::
  "('x qentry_scheme \<Rightarrow> bool) \<Rightarrow> ('y qentry_scheme \<Rightarrow> bool) \<Rightarrow> 'y qentry_scheme \<Rightarrow>
   'x qentry_scheme \<Rightarrow> bool res" where
  "e_conflictAddr hasTargets hasTargets' other e =
     must (hasTargets e) (e_matchBlockAddr hasTargets' (e_blkAddr e) (e_secure e) other)"

text \<open>The search through the targets, in both target list classes; a functional write updates them.\<close>

fun targets_functional ::
  "packet \<Rightarrow> 'x qtarget_scheme list \<Rightarrow> (bool \<times> packet \<times> 'x qtarget_scheme list) res" where
  "targets_functional p [] = Inr (False, p, [])"
| "targets_functional p (t # ts) =
     bindR (trySatisfyFunctional_pkt p (t_pkt t)) (\<lambda>(done, p', o').
       if done then Inr (True, p', t\<lparr>t_pkt := o'\<rparr> # ts)
       else bindR (targets_functional p' ts) (\<lambda>(d, p'', ts').
              Inr (d, p'', t\<lparr>t_pkt := o'\<rparr> # ts')))"

section \<open>The queue\<close>

datatype drain_state = Running | Draining | Drained | Resuming

record 'e queue =
  numEntries :: nat
  numReserve :: nat
  entries :: "'e list"
  allocatedList :: "nat list"
  readyList :: "nat list"
  freeList :: "nat list"
  numInService :: int
  allocated :: int
  drainState :: drain_state

definition Queue_new :: "'e \<Rightarrow> nat \<Rightarrow> nat \<Rightarrow> 'e queue" where
  "Queue_new blank num_entries reserve =
     \<lparr>numEntries = num_entries + reserve, numReserve = reserve,
      entries = replicate (num_entries + reserve) blank, allocatedList = [], readyList = [],
      freeList = [0..<num_entries + reserve], numInService = 0, allocated = 0,
      drainState = Running\<rparr>"

definition entry_at :: "'e queue \<Rightarrow> nat \<Rightarrow> 'e" where
  "entry_at q i = entries q ! i"

definition upd_entry :: "nat \<Rightarrow> 'e \<Rightarrow> 'e queue \<Rightarrow> 'e queue" where
  "upd_entry i e q = q\<lparr>entries := (entries q)[i := e]\<rparr>"

text \<open>The loop of \<open>addToReadyList\<close>: insertion before the first entry that is ready later.\<close>

fun insert_before_later :: "(nat \<Rightarrow> tick) \<Rightarrow> nat \<Rightarrow> nat list \<Rightarrow> nat list option" where
  "insert_before_later rt i [] = None"
| "insert_before_later rt i (j # js) =
     (if rt j > rt i then Some (i # j # js)
      else map_option (Cons j) (insert_before_later rt i js))"

definition addToReadyList :: "nat \<Rightarrow> 'x qentry_scheme queue \<Rightarrow> 'x qentry_scheme queue res" where
  "addToReadyList i q =
     (let rt = (\<lambda>j. e_readyTime (entry_at q j)) in
      if readyList q = [] \<or> rt (last (readyList q)) \<le> rt i
      then Inr (q\<lparr>readyList := readyList q @ [i]\<rparr>)
      else (case insert_before_later rt i (readyList q) of
              None \<Rightarrow> Inl Panic
            | Some l \<Rightarrow> Inr (q\<lparr>readyList := l\<rparr>)))"

definition isEmpty :: "'e queue \<Rightarrow> bool" where
  "isEmpty q \<longleftrightarrow> allocated q = 0"

definition isFull :: "'e queue \<Rightarrow> bool" where
  "isFull q \<longleftrightarrow> allocated q \<ge> int (numEntries q) - int (numReserve q)"

definition findMatch ::
  "('x qentry_scheme \<Rightarrow> bool) \<Rightarrow> addr \<Rightarrow> bool \<Rightarrow> bool \<Rightarrow> 'x qentry_scheme queue \<Rightarrow> nat option res" where
  "findMatch hasTargets a sec ignore_uncacheable q =
     findR (\<lambda>i. if ignore_uncacheable \<and> e_uncacheable (entry_at q i) then Inr False
                else e_matchBlockAddr hasTargets a sec (entry_at q i)) (allocatedList q)"

fun functional_loop ::
  "('x qentry_scheme \<Rightarrow> bool) \<Rightarrow>
   (packet \<Rightarrow> 'x qentry_scheme \<Rightarrow> (bool \<times> packet \<times> 'x qentry_scheme) res) \<Rightarrow>
   nat list \<Rightarrow> packet \<Rightarrow> 'x qentry_scheme queue \<Rightarrow> (bool \<times> packet \<times> 'x qentry_scheme queue) res" where
  "functional_loop hasTargets sat [] p q = Inr (False, p, q)"
| "functional_loop hasTargets sat (i # is) p q =
     bindR (e_matchBlockPkt hasTargets p (entry_at q i)) (\<lambda>m.
       if \<not> m then functional_loop hasTargets sat is p q
       else bindR (sat p (entry_at q i)) (\<lambda>(done, p', e').
         if done then Inr (True, p', upd_entry i e' q)
         else functional_loop hasTargets sat is p' (upd_entry i e' q)))"

definition queue_trySatisfyFunctional ::
  "('x qentry_scheme \<Rightarrow> bool) \<Rightarrow>
   (packet \<Rightarrow> 'x qentry_scheme \<Rightarrow> (bool \<times> packet \<times> 'x qentry_scheme) res) \<Rightarrow>
   packet \<Rightarrow> 'x qentry_scheme queue \<Rightarrow> (bool \<times> packet \<times> 'x qentry_scheme queue) res" where
  "queue_trySatisfyFunctional hasTargets sat p q =
     functional_loop hasTargets sat (allocatedList q) p q"

definition findPending ::
  "('x qentry_scheme \<Rightarrow> bool) \<Rightarrow> ('y qentry_scheme \<Rightarrow> bool) \<Rightarrow> 'y qentry_scheme \<Rightarrow>
   'x qentry_scheme queue \<Rightarrow> nat option res" where
  "findPending hasTargets hasTargets' other q =
     findR (\<lambda>i. e_conflictAddr hasTargets hasTargets' other (entry_at q i)) (readyList q)"

definition getNext :: "tick \<Rightarrow> 'x qentry_scheme queue \<Rightarrow> nat option" where
  "getNext now q =
     (if readyList q = [] \<or> e_readyTime (entry_at q (hd (readyList q))) > now then None
      else Some (hd (readyList q)))"

definition nextReadyTime :: "'x qentry_scheme queue \<Rightarrow> tick" where
  "nextReadyTime q =
     (if readyList q = [] then MaxTick else e_readyTime (entry_at q (hd (readyList q))))"

text \<open>The body both \<open>allocate\<close> functions share; \<open>e_alloc\<close> is the entry's own \<open>allocate\<close>.\<close>

definition queue_allocate ::
  "('x qentry_scheme \<Rightarrow> nat) \<Rightarrow> ('x qentry_scheme \<Rightarrow> 'x qentry_scheme res) \<Rightarrow>
   'x qentry_scheme queue \<Rightarrow> (nat \<times> 'x qentry_scheme queue) res" where
  "queue_allocate getNumTargets e_alloc q =
     (case freeList q of [] \<Rightarrow> Inl Assertion
      | i # rest \<Rightarrow>
          must (getNumTargets (entry_at q i) = 0)
            (bindR (e_alloc (entry_at q i)) (\<lambda>e.
               bindR (addToReadyList i
                        (upd_entry i e (q\<lparr>freeList := rest, allocatedList := allocatedList q @ [i]\<rparr>)))
                 (\<lambda>q'. Inr (i, q'\<lparr>allocated := allocated q' + 1\<rparr>)))))"

definition queue_deallocate ::
  "('x qentry_scheme \<Rightarrow> 'x qentry_scheme res) \<Rightarrow> nat \<Rightarrow> 'x qentry_scheme queue \<Rightarrow>
   'x qentry_scheme queue res" where
  "queue_deallocate e_dealloc i q =
     (let e = entry_at q i;
          q1 = q\<lparr>allocatedList := remove1 i (allocatedList q), freeList := i # freeList q,
                 allocated := allocated q - 1\<rparr>;
          q2 = (if e_inService e then q1\<lparr>numInService := numInService q1 - 1\<rparr>
                else q1\<lparr>readyList := remove1 i (readyList q1)\<rparr>)
      in bindR (e_dealloc e) (\<lambda>e'.
           let q3 = upd_entry i e' q2 in
           Inr (if drainState q3 = Draining \<and> allocated q3 = 0 then q3\<lparr>drainState := Drained\<rparr>
                else q3)))"

definition queue_drain :: "'e queue \<Rightarrow> drain_state" where
  "queue_drain q = (if allocated q = 0 then Drained else Draining)"

lemma targets_functional_length:
  "targets_functional p ts = Inr (d, p', ts') \<Longrightarrow> length ts' = length ts"
proof (induction ts arbitrary: p d p' ts')
  case (Cons t ts)
  obtain fin p1 o1 where t: "trySatisfyFunctional_pkt p (t_pkt t) = Inr (fin, p1, o1)"
    using Cons.prems by (auto split: prod.splits)
  show ?case
  proof (cases fin)
    case True
    then show ?thesis using Cons.prems t by auto
  next
    case False
    with Cons.prems t obtain ts1 where "targets_functional p1 ts = Inr (d, p', ts1)"
      "ts' = t\<lparr>t_pkt := o1\<rparr> # ts1"
      by (auto split: prod.splits)
    then show ?thesis using Cons.IH by simp
  qed
qed simp

section \<open>The ready list\<close>

definition ready_sorted :: "'x qentry_scheme queue \<Rightarrow> bool" where
  "ready_sorted q \<longleftrightarrow> sorted (map (\<lambda>i. e_readyTime (entry_at q i)) (readyList q))"

lemma insert_before_later_None:
  "insert_before_later rt i xs = None \<longleftrightarrow> (\<forall>x \<in> set xs. rt x \<le> rt i)"
  by (induction xs) auto

lemma insert_before_later_Some:
  "insert_before_later rt i xs = Some l \<Longrightarrow>
   \<exists>ys z zs. xs = ys @ z # zs \<and> l = ys @ i # z # zs \<and> (\<forall>y \<in> set ys. rt y \<le> rt i) \<and> rt i < rt z"
proof (induction xs arbitrary: l)
  case (Cons x xs)
  show ?case
  proof (cases "rt x > rt i")
    case True
    then have "x # xs = [] @ x # xs \<and> l = [] @ i # x # xs \<and> (\<forall>y \<in> set []. rt y \<le> rt i) \<and> rt i < rt x"
      using Cons.prems by simp
    then show ?thesis by blast
  next
    case False
    with Cons.prems obtain l' where l': "insert_before_later rt i xs = Some l'" "l = x # l'"
      by auto
    from Cons.IH[OF l'(1)] obtain ys z zs where
      "xs = ys @ z # zs" "l' = ys @ i # z # zs" "\<forall>y \<in> set ys. rt y \<le> rt i" "rt i < rt z"
      by blast
    with False l'(2)
    have "x # xs = (x # ys) @ z # zs \<and> l = (x # ys) @ i # z # zs \<and>
        (\<forall>y \<in> set (x # ys). rt y \<le> rt i) \<and> rt i < rt z"
      by simp
    then show ?thesis by blast
  qed
qed simp

text \<open>
  Insertion never reaches the panic, and puts the entry somewhere in the list; in a sorted
  list it comes after every entry that is ready at the same time or earlier.
\<close>

lemma addToReadyList_split:
  obtains ys zs where "readyList q = ys @ zs"
    and "addToReadyList i q = Inr (q\<lparr>readyList := ys @ i # zs\<rparr>)"
    and "ready_sorted q \<Longrightarrow>
      (\<forall>y \<in> set ys. e_readyTime (entry_at q y) \<le> e_readyTime (entry_at q i)) \<and>
      (\<forall>z \<in> set zs. e_readyTime (entry_at q i) < e_readyTime (entry_at q z))"
proof -
  let ?rt = "\<lambda>j. e_readyTime (entry_at q j)"
  show ?thesis
  proof (cases "readyList q = [] \<or> ?rt (last (readyList q)) \<le> ?rt i")
    case True
    have "\<forall>y \<in> set (readyList q). ?rt y \<le> ?rt i" if "ready_sorted q"
    proof (cases "readyList q" rule: rev_cases)
      case (snoc xs x)
      with True that show ?thesis
        by (auto simp: ready_sorted_def sorted_append intro: order_trans)
    qed simp
    with True show ?thesis
      by (intro that[of "readyList q" "[]"]) (auto simp: addToReadyList_def)
  next
    case False
    then have "insert_before_later ?rt i (readyList q) \<noteq> None"
      unfolding insert_before_later_None by (metis last_in_set linorder_not_le)
    then obtain l where l: "insert_before_later ?rt i (readyList q) = Some l" by blast
    from insert_before_later_Some[OF this] obtain ys z zs where
      w: "readyList q = ys @ z # zs" "l = ys @ i # z # zs" "\<forall>y \<in> set ys. ?rt y \<le> ?rt i" "?rt i < ?rt z"
      by blast
    have "\<forall>x \<in> set (z # zs). ?rt i < ?rt x" if "ready_sorted q"
      using that w(1,4) by (auto simp: ready_sorted_def sorted_append)
    with w False l show ?thesis
      by (intro that[of ys "z # zs"]) (auto simp: addToReadyList_def)
  qed
qed

lemma addToReadyList_sorted:
  assumes "ready_sorted q" "addToReadyList i q = Inr q'"
  shows "ready_sorted q'"
proof -
  obtain ys zs where w: "readyList q = ys @ zs"
    "addToReadyList i q = Inr (q\<lparr>readyList := ys @ i # zs\<rparr>)"
    "(\<forall>y \<in> set ys. e_readyTime (entry_at q y) \<le> e_readyTime (entry_at q i)) \<and>
     (\<forall>z \<in> set zs. e_readyTime (entry_at q i) < e_readyTime (entry_at q z))"
    using addToReadyList_split[of q i] assms(1) by metis
  then have "q' = q\<lparr>readyList := ys @ i # zs\<rparr>" using assms(2) by simp
  with w(1,3) assms(1) show ?thesis
    by (auto simp: ready_sorted_def sorted_append entry_at_def intro: less_imp_le)
qed

lemma getNext_sorted:
  assumes "ready_sorted q"
  shows "getNext now q = Some i \<Longrightarrow>
      i \<in> set (readyList q) \<and> e_readyTime (entry_at q i) \<le> now \<and>
      (\<forall>j \<in> set (readyList q). e_readyTime (entry_at q i) \<le> e_readyTime (entry_at q j))"
    and "getNext now q = None \<Longrightarrow> \<forall>j \<in> set (readyList q). now < e_readyTime (entry_at q j)"
  using assms by (cases "readyList q"; force simp: getNext_def ready_sorted_def split: if_splits)+

section \<open>The queue invariant\<close>

definition queue_wf :: "'x qentry_scheme queue \<Rightarrow> bool" where
  "queue_wf q \<longleftrightarrow>
     length (entries q) = numEntries q \<and>
     distinct (allocatedList q @ freeList q) \<and>
     set (allocatedList q @ freeList q) = {..<numEntries q} \<and>
     allocated q = int (length (allocatedList q)) \<and>
     distinct (readyList q) \<and>
     set (readyList q) = {i \<in> set (allocatedList q). \<not> e_inService (entry_at q i)} \<and>
     numInService q = int (length (filter (\<lambda>i. e_inService (entry_at q i)) (allocatedList q)))"

lemma queue_wfI:
  assumes "length (entries q) = numEntries q" "distinct (allocatedList q @ freeList q)"
    "set (allocatedList q @ freeList q) = {..<numEntries q}"
    "allocated q = int (length (allocatedList q))" "distinct (readyList q)"
    "set (readyList q) = {i \<in> set (allocatedList q). \<not> e_inService (entry_at q i)}"
    "numInService q = int (length (filter (\<lambda>i. e_inService (entry_at q i)) (allocatedList q)))"
  shows "queue_wf q"
  unfolding queue_wf_def by (intro conjI assms)

lemma queue_wf_allocated_less: "queue_wf q \<Longrightarrow> i \<in> set (allocatedList q) \<Longrightarrow> i < length (entries q)"
  by (auto simp: queue_wf_def)

lemma queue_wf_count:
  assumes "queue_wf q"
  shows "allocated q = int (length (readyList q)) + numInService q"
    and "length (allocatedList q) + length (freeList q) = numEntries q"
proof -
  let ?s = "\<lambda>i. e_inService (entry_at q i)"
  have "set (readyList q) = set (filter (\<lambda>i. \<not> ?s i) (allocatedList q))"
    using assms by (auto simp: queue_wf_def)
  moreover have "distinct (readyList q)" "distinct (filter (\<lambda>i. \<not> ?s i) (allocatedList q))"
    using assms by (auto simp: queue_wf_def)
  ultimately have "length (readyList q) = length (filter (\<lambda>i. \<not> ?s i) (allocatedList q))"
    by (metis distinct_card)
  then show "allocated q = int (length (readyList q)) + numInService q"
    using assms sum_length_filter_compl[of ?s "allocatedList q"] by (simp add: queue_wf_def)
  have "card (set (allocatedList q @ freeList q)) = numEntries q"
    using assms by (simp add: queue_wf_def)
  then show "length (allocatedList q) + length (freeList q) = numEntries q"
    using assms by (metis distinct_card length_append queue_wf_def)
qed

text \<open>Replacing an entry without changing whether it is in service.\<close>

lemma entry_at_upd [simp]:
  "entry_at (upd_entry i e q) j = (if j = i \<and> i < length (entries q) then e else entry_at q j)"
  by (cases "i < length (entries q)") (auto simp: entry_at_def upd_entry_def nth_list_update list_update_beyond)

lemma upd_entry_simps [simp]:
  "numEntries (upd_entry i e q) = numEntries q" "numReserve (upd_entry i e q) = numReserve q"
  "allocatedList (upd_entry i e q) = allocatedList q" "readyList (upd_entry i e q) = readyList q"
  "freeList (upd_entry i e q) = freeList q" "numInService (upd_entry i e q) = numInService q"
  "allocated (upd_entry i e q) = allocated q" "drainState (upd_entry i e q) = drainState q"
  "length (entries (upd_entry i e q)) = length (entries q)"
  by (simp_all add: upd_entry_def)

lemma queue_wf_upd:
  assumes "queue_wf q" "e_inService e = e_inService (entry_at q i)"
  shows "queue_wf (upd_entry i e q)"
proof -
  have s: "e_inService (entry_at (upd_entry i e q) j) = e_inService (entry_at q j)" for j
    using assms(2) by simp
  show ?thesis
    using assms(1) unfolding queue_wf_def s by simp
qed

lemma ready_sorted_upd:
  assumes "e_readyTime e = e_readyTime (entry_at q i)"
  shows "ready_sorted (upd_entry i e q) = ready_sorted q"
proof -
  have "map (\<lambda>j. e_readyTime (entry_at (upd_entry i e q) j)) (readyList q)
      = map (\<lambda>j. e_readyTime (entry_at q j)) (readyList q)"
    using assms by (intro map_cong) auto
  then show ?thesis unfolding ready_sorted_def upd_entry_simps by (rule arg_cong)
qed

lemma entry_at_scalar [simp]:
  "entry_at (q\<lparr>readyList := l\<rparr>) = entry_at q" "entry_at (q\<lparr>freeList := l\<rparr>) = entry_at q"
  "entry_at (q\<lparr>allocatedList := l\<rparr>) = entry_at q" "entry_at (q\<lparr>allocated := n\<rparr>) = entry_at q"
  "entry_at (q\<lparr>numInService := n\<rparr>) = entry_at q" "entry_at (q\<lparr>drainState := d\<rparr>) = entry_at q"
  by (simp_all add: entry_at_def fun_eq_iff)

lemma queue_wf_new: "\<not> e_inService e \<Longrightarrow> queue_wf (Queue_new e n r)"
  by (auto simp: queue_wf_def Queue_new_def)

text \<open>What an insertion into the ready list leaves alone.\<close>

lemma addToReadyList_result:
  obtains l where "addToReadyList i q = Inr (q\<lparr>readyList := l\<rparr>)"
    and "set l = insert i (set (readyList q))"
    and "i \<notin> set (readyList q) \<Longrightarrow> distinct (readyList q) \<Longrightarrow> distinct l"
  by (rule addToReadyList_split[of q i]) auto

text \<open>A functional access over the queue replaces entries one by one.\<close>

lemma functional_loop_invariant:
  assumes "functional_loop h f is p q = Inr (d, p', q')" and "P q"
    and "\<And>p q i fin p1 e1. P q \<Longrightarrow> f p (entry_at q i) = Inr (fin, p1, e1) \<Longrightarrow> P (upd_entry i e1 q)"
  shows "P q'"
  using assms(1,2)
proof (induction "is" arbitrary: p q)
  case (Cons i js)
  from Cons.prems(1) obtain m where m: "e_matchBlockPkt h p (entry_at q i) = Inr m"
    by auto
  show ?case
  proof (cases m)
    case False
    then show ?thesis using Cons m by auto
  next
    case True
    with Cons.prems(1) m obtain fin p1 e1 where
      s: "f p (entry_at q i) = Inr (fin, p1, e1)"
      and r: "(if fin then Inr (True, p1, upd_entry i e1 q)
               else functional_loop h f js p1 (upd_entry i e1 q)) = Inr (d, p', q')"
      by (auto split: prod.splits)
    have "P (upd_entry i e1 q)" using assms(3)[OF Cons.prems(2) s] .
    then show ?thesis using r Cons.IH by (cases fin) auto
  qed
qed simp

lemma functional_loop_size:
  assumes "functional_loop h f is p q = Inr (d, p', q')"
  shows "numEntries q' = numEntries q \<and> numReserve q' = numReserve q \<and> allocatedList q' = allocatedList q"
  by (rule functional_loop_invariant[OF assms]) auto

lemma addToReadyList_size:
  assumes "addToReadyList i q = Inr q'"
  shows "numEntries q' = numEntries q \<and> numReserve q' = numReserve q"
proof -
  obtain l where "addToReadyList i q = Inr (q\<lparr>readyList := l\<rparr>)"
    using addToReadyList_result[of i q] by blast
  with assms have "q' = q\<lparr>readyList := l\<rparr>" by simp
  then show ?thesis by simp
qed

lemma queue_allocate_size:
  assumes "queue_allocate getNumTargets e_alloc q = Inr (i, q')"
  shows "numEntries q' = numEntries q \<and> numReserve q' = numReserve q"
proof -
  from assms obtain rest e q1 where "addToReadyList i
      (upd_entry i e (q\<lparr>freeList := rest, allocatedList := allocatedList q @ [i]\<rparr>)) = Inr q1"
    "q' = q1\<lparr>allocated := allocated q1 + 1\<rparr>"
    by (auto simp: queue_allocate_def split: list.splits)
  from addToReadyList_size[OF this(1)] this(2) show ?thesis by simp
qed

lemma queue_deallocate_fields:
  assumes "queue_deallocate e_dealloc i q = Inr q'"
  shows "allocatedList q' = remove1 i (allocatedList q)" "freeList q' = i # freeList q"
    "allocated q' = allocated q - 1" "numEntries q' = numEntries q \<and> numReserve q' = numReserve q"
    "length (entries q') = length (entries q) \<and>
     numInService q' = (if e_inService (entry_at q i) then numInService q - 1 else numInService q)"
    "readyList q' = (if e_inService (entry_at q i) then readyList q else remove1 i (readyList q))"
    "\<exists>e'. e_dealloc (entry_at q i) = Inr e' \<and>
       entry_at q' j = (if j = i \<and> i < length (entries q) then e' else entry_at q j)"
proof -
  from assms obtain e' where e': "e_dealloc (entry_at q i) = Inr e'"
    by (auto simp: queue_deallocate_def Let_def)
  define q2 where "q2 = (let q1 = q\<lparr>allocatedList := remove1 i (allocatedList q),
      freeList := i # freeList q, allocated := allocated q - 1\<rparr> in
    if e_inService (entry_at q i) then q1\<lparr>numInService := numInService q1 - 1\<rparr>
    else q1\<lparr>readyList := remove1 i (readyList q1)\<rparr>)"
  have q': "\<exists>d. q' = (upd_entry i e' q2)\<lparr>drainState := d\<rparr>"
  proof (cases "drainState q2 = Draining \<and> allocated q2 = 0")
    case True
    then show ?thesis using assms e' by (auto simp: queue_deallocate_def q2_def Let_def)
  next
    case False
    then have "q' = (upd_entry i e' q2)\<lparr>drainState := drainState q2\<rparr>"
      using assms e' by (auto simp: queue_deallocate_def q2_def Let_def upd_entry_def)
    then show ?thesis by blast
  qed
  have len: "length (entries q2) = length (entries q)" and at: "entry_at q2 = entry_at q"
    by (simp_all add: q2_def Let_def)
  show "allocatedList q' = remove1 i (allocatedList q)" "freeList q' = i # freeList q"
    "allocated q' = allocated q - 1" "numEntries q' = numEntries q \<and> numReserve q' = numReserve q"
    using q' by (auto simp: q2_def Let_def)
  show "length (entries q') = length (entries q) \<and>
     numInService q' = (if e_inService (entry_at q i) then numInService q - 1 else numInService q)"
    "readyList q' = (if e_inService (entry_at q i) then readyList q else remove1 i (readyList q))"
    using q' by (auto simp: q2_def Let_def)
  show "\<exists>e'. e_dealloc (entry_at q i) = Inr e' \<and>
       entry_at q' j = (if j = i \<and> i < length (entries q) then e' else entry_at q j)"
    using q' e' len at by auto
qed

section \<open>What a queue needs from its entries\<close>

text \<open>
  \<open>queue_inv\<close> adds the entries' own invariant and the state of the free ones: no target is
  left in an entry that went back to the free list, which is what \<open>allocate\<close> asserts.
\<close>

definition queue_inv ::
  "('x qentry_scheme \<Rightarrow> nat) \<Rightarrow> ('x qentry_scheme \<Rightarrow> bool) \<Rightarrow> 'x qentry_scheme queue \<Rightarrow> bool" where
  "queue_inv getNumTargets e_wf q \<longleftrightarrow>
     queue_wf q \<and> (\<forall>i < numEntries q. e_wf (entry_at q i)) \<and>
     (\<forall>i \<in> set (freeList q). getNumTargets (entry_at q i) = 0)"

locale queue_entries =
  fixes getNumTargets :: "'x qentry_scheme \<Rightarrow> nat"
    and e_dealloc :: "'x qentry_scheme \<Rightarrow> 'x qentry_scheme res"
    and e_wf :: "'x qentry_scheme \<Rightarrow> bool"
  assumes dealloc_idle: "e_wf e \<Longrightarrow> e_dealloc e = Inr e' \<Longrightarrow>
    e_wf e' \<and> getNumTargets e' = 0 \<and> \<not> e_inService e'"
begin

lemma allocate_inv:
  assumes inv: "queue_inv getNumTargets e_wf q"
    and alloc: "\<forall>e e'. e_wf e \<longrightarrow> getNumTargets e = 0 \<longrightarrow> e_alloc e = Inr e' \<longrightarrow> e_wf e' \<and> \<not> e_inService e'"
    and run: "queue_allocate getNumTargets e_alloc q = Inr (i, q')"
  shows "queue_inv getNumTargets e_wf q'" and "i \<notin> set (allocatedList q)"
    and "allocatedList q' = allocatedList q @ [i]" and "e_alloc (entry_at q i) = Inr (entry_at q' i)"
    and "i \<in> set (readyList q')"
    and "\<And>j. j \<noteq> i \<Longrightarrow> entry_at q' j = entry_at q j"
proof -
  from run obtain rest e where free: "freeList q = i # rest" and e: "e_alloc (entry_at q i) = Inr e"
    by (auto simp: queue_allocate_def split: list.splits)
  define q1 where "q1 = upd_entry i e (q\<lparr>freeList := rest, allocatedList := allocatedList q @ [i]\<rparr>)"
  obtain l where l: "addToReadyList i q1 = Inr (q1\<lparr>readyList := l\<rparr>)"
    "set l = insert i (set (readyList q1))"
    "i \<notin> set (readyList q1) \<Longrightarrow> distinct (readyList q1) \<Longrightarrow> distinct l"
    using addToReadyList_result[of i q1] by blast
  have q': "q' = q1\<lparr>readyList := l, allocated := allocated q + 1\<rparr>"
    using run free e l(1) by (auto simp: queue_allocate_def q1_def)
  have wf: "queue_wf q" and small: "i < length (entries q)" and fresh: "i \<notin> set (allocatedList q)"
    using inv free by (auto simp: queue_inv_def queue_wf_def)
  have ewf: "e_wf e" "\<not> e_inService e"
    using alloc e inv free small by (auto simp: queue_inv_def queue_wf_def)
  have at: "entry_at q1 j = (if j = i then e else entry_at q j)" for j
    using small by (simp add: q1_def entry_at_def upd_entry_def nth_list_update)
  have nr: "i \<notin> set (readyList q)" using wf fresh by (auto simp: queue_wf_def)
  have fl: "filter (\<lambda>j. e_inService (entry_at q1 j)) (allocatedList q @ [i])
      = filter (\<lambda>j. e_inService (entry_at q j)) (allocatedList q)"
    using fresh ewf(2) by (auto simp: at intro!: filter_cong)
  have f1: "allocatedList q1 = allocatedList q @ [i]" "freeList q1 = rest" "readyList q1 = readyList q"
    "numEntries q1 = numEntries q" "numInService q1 = numInService q" "length (entries q1) = length (entries q)"
    by (simp_all add: q1_def)
  have "queue_wf q'"
  proof (rule queue_wfI)
    show "distinct (allocatedList q' @ freeList q')" "set (allocatedList q' @ freeList q') = {..<numEntries q'}"
      "length (entries q') = numEntries q'" "allocated q' = int (length (allocatedList q'))"
      using wf free by (auto simp: queue_wf_def q' f1)
    show "distinct (readyList q')"
      using l(3) nr wf by (simp add: q' f1 queue_wf_def)
    show "set (readyList q') = {j \<in> set (allocatedList q'). \<not> e_inService (entry_at q' j)}"
      using l(2) wf fresh ewf(2) by (auto simp: q' f1 at queue_wf_def)
    show "numInService q' = int (length (filter (\<lambda>j. e_inService (entry_at q' j)) (allocatedList q')))"
      using wf fl by (simp add: q' f1 queue_wf_def)
  qed
  then show "queue_inv getNumTargets e_wf q'"
    using inv free ewf(1) wf unfolding queue_inv_def queue_wf_def q'
    by (auto simp: at q1_def)
  show "i \<notin> set (allocatedList q)" by (fact fresh)
  show "allocatedList q' = allocatedList q @ [i]" by (simp add: q' q1_def)
  show "e_alloc (entry_at q i) = Inr (entry_at q' i)" by (simp add: q' at e)
  show "i \<in> set (readyList q')" by (simp add: q' l(2))
  show "entry_at q' j = entry_at q j" if "j \<noteq> i" for j using that by (simp add: q' at)
qed

lemma allocate_total:
  assumes "queue_inv getNumTargets e_wf q" "freeList q = i # rest"
    and "e_alloc (entry_at q i) = Inr e"
  shows "\<exists>q'. queue_allocate getNumTargets e_alloc q = Inr (i, q')"
proof -
  define q1 where "q1 = upd_entry i e (q\<lparr>freeList := rest, allocatedList := allocatedList q @ [i]\<rparr>)"
  obtain l where "addToReadyList i q1 = Inr (q1\<lparr>readyList := l\<rparr>)"
    using addToReadyList_result[of i q1] by blast
  with assms show ?thesis by (auto simp: queue_allocate_def queue_inv_def q1_def)
qed

lemma deallocate_inv:
  assumes inv: "queue_inv getNumTargets e_wf q" and i: "i \<in> set (allocatedList q)"
    and run: "queue_deallocate e_dealloc i q = Inr q'"
  shows "queue_inv getNumTargets e_wf q'" and "allocatedList q' = remove1 i (allocatedList q)"
    and "readyList q' = remove1 i (readyList q)"
    and "\<And>j. j \<noteq> i \<Longrightarrow> entry_at q' j = entry_at q j"
proof -
  from run obtain e' where e': "e_dealloc (entry_at q i) = Inr e'"
    by (auto simp: queue_deallocate_def Let_def)
  have wf: "queue_wf q" and small: "i < length (entries q)"
    using inv i by (auto simp: queue_inv_def queue_wf_def)
  have idle: "e_wf e'" "getNumTargets e' = 0" "\<not> e_inService e'"
    using dealloc_idle[OF _ e'] inv small by (auto simp: queue_inv_def queue_wf_def)
  have nr: "i \<in> set (readyList q) \<longleftrightarrow> \<not> e_inService (entry_at q i)"
    using wf i by (auto simp: queue_wf_def)
  note f = queue_deallocate_fields[OF run]
  have rl: "readyList q' = remove1 i (readyList q)"
    using f(6) nr by (simp add: remove1_idem)
  then show "readyList q' = remove1 i (readyList q)" .
  show "allocatedList q' = remove1 i (allocatedList q)" by (fact f(1))
  have at: "entry_at q' j = (if j = i then e' else entry_at q j)" for j
    using f(7)[of j] e' small by auto
  then show "entry_at q' j = entry_at q j" if "j \<noteq> i" for j using that by simp
  have d: "distinct (allocatedList q)" using wf by (simp add: queue_wf_def)
  have fl: "filter (\<lambda>j. e_inService (entry_at q' j)) (remove1 i (allocatedList q))
      = remove1 i (filter (\<lambda>j. e_inService (entry_at q j)) (allocatedList q))"
    unfolding filter_remove1[symmetric] using d by (intro filter_cong) (auto simp: at)
  have sets: "set (remove1 i (allocatedList q)) = set (allocatedList q) - {i}"
    "set (remove1 i (readyList q)) = set (readyList q) - {i}"
    using wf by (auto simp: queue_wf_def)
  have "queue_wf q'"
  proof (rule queue_wfI)
    show "length (entries q') = numEntries q'" "distinct (allocatedList q' @ freeList q')"
      "set (allocatedList q' @ freeList q') = {..<numEntries q'}" "distinct (readyList q')"
      using wf i sets by (auto simp: queue_wf_def f(1,2,4,5) rl)
    show "allocated q' = int (length (allocatedList q'))"
      using wf i length_pos_if_in_set[OF i]
      by (simp add: queue_wf_def f(1,3) length_remove1 of_nat_diff Suc_le_eq)
    show "set (readyList q') = {j \<in> set (allocatedList q'). \<not> e_inService (entry_at q' j)}"
      using wf sets by (auto simp: rl f(1) at queue_wf_def)
    show "numInService q' = int (length (filter (\<lambda>j. e_inService (entry_at q' j)) (allocatedList q')))"
    proof (cases "e_inService (entry_at q i)")
      case True
      then have m: "i \<in> set (filter (\<lambda>j. e_inService (entry_at q j)) (allocatedList q))"
        using i by simp
      show ?thesis
        unfolding f(1) fl using True m length_pos_if_in_set[OF m] wf
        by (simp add: f(5) length_remove1 queue_wf_def of_nat_diff Suc_le_eq)
    next
      case False
      then show ?thesis
        unfolding f(1) fl using wf by (simp add: f(5) remove1_idem queue_wf_def)
    qed
  qed
  then show "queue_inv getNumTargets e_wf q'"
    using inv idle f(4) unfolding queue_inv_def f(2) by (auto simp: at)
qed

lemma allocate_sorted:
  assumes inv: "queue_inv getNumTargets e_wf q" and so: "ready_sorted q"
    and run: "queue_allocate getNumTargets e_alloc q = Inr (i, q')"
  shows "ready_sorted q'"
proof -
  from run obtain rest e where free: "freeList q = i # rest" and e: "e_alloc (entry_at q i) = Inr e"
    by (auto simp: queue_allocate_def split: list.splits)
  define q1 where "q1 = upd_entry i e (q\<lparr>freeList := rest, allocatedList := allocatedList q @ [i]\<rparr>)"
  obtain q2 where q2: "addToReadyList i q1 = Inr q2" "q' = q2\<lparr>allocated := allocated q2 + 1\<rparr>"
    using run free e by (auto simp: queue_allocate_def q1_def)
  have "i \<notin> set (readyList q)"
    using inv free by (auto simp: queue_inv_def queue_wf_def)
  then have "map (\<lambda>j. e_readyTime (entry_at q1 j)) (readyList q1)
      = map (\<lambda>j. e_readyTime (entry_at q j)) (readyList q)"
    by (auto simp: q1_def)
  with so have "ready_sorted q1" by (simp add: ready_sorted_def)
  from addToReadyList_sorted[OF this q2(1)] show ?thesis
    by (simp add: q2(2) ready_sorted_def)
qed

lemma deallocate_sorted:
  assumes inv: "queue_inv getNumTargets e_wf q" and i: "i \<in> set (allocatedList q)"
    and so: "ready_sorted q" and run: "queue_deallocate e_dealloc i q = Inr q'"
  shows "ready_sorted q'"
proof -
  note d = deallocate_inv[OF inv i run]
  have "i \<notin> set (remove1 i (readyList q))"
    using inv by (auto simp: queue_inv_def queue_wf_def)
  then have "map (\<lambda>j. e_readyTime (entry_at q' j)) (readyList q')
      = map (\<lambda>j. e_readyTime (entry_at q j)) (remove1 i (readyList q))"
    unfolding d(3) by (intro map_cong refl) (metis d(4))
  with so show ?thesis by (simp add: ready_sorted_def sorted_map_remove1)
qed

end

section \<open>Going into service and back\<close>

lemma queue_wf_serve:
  assumes wf: "queue_wf q" and i: "i \<in> set (readyList q)" and e: "e_inService e"
  shows "queue_wf ((upd_entry i e q)\<lparr>readyList := remove1 i (readyList q),
    numInService := numInService q + 1\<rparr>)" (is "queue_wf ?q")
proof (rule queue_wfI)
  have small: "i < length (entries q)" and al: "i \<in> set (allocatedList q)"
    and ns: "\<not> e_inService (entry_at q i)" and d: "distinct (allocatedList q)"
    using wf i by (auto simp: queue_wf_def)
  show "length (entries ?q) = numEntries ?q" "distinct (allocatedList ?q @ freeList ?q)"
    "set (allocatedList ?q @ freeList ?q) = {..<numEntries ?q}"
    "allocated ?q = int (length (allocatedList ?q))" "distinct (readyList ?q)"
    using wf by (simp_all add: queue_wf_def)
  show "set (readyList ?q) = {j \<in> set (allocatedList ?q). \<not> e_inService (entry_at ?q j)}"
    using wf e small by (auto simp: queue_wf_def)
  from split_list[OF al] obtain ys zs where sp: "allocatedList q = ys @ i # zs" by blast
  with d have "i \<notin> set ys" "i \<notin> set zs" by auto
  then have "filter (\<lambda>j. e_inService (entry_at ?q j)) ys = filter (\<lambda>j. e_inService (entry_at q j)) ys"
    "filter (\<lambda>j. e_inService (entry_at ?q j)) zs = filter (\<lambda>j. e_inService (entry_at q j)) zs"
    by (auto intro!: filter_cong)
  then show "numInService ?q = int (length (filter (\<lambda>j. e_inService (entry_at ?q j)) (allocatedList ?q)))"
    using wf e ns small by (simp add: queue_wf_def sp)
qed

lemma queue_wf_pend:
  assumes wf: "queue_wf q" and i: "i \<in> set (allocatedList q)" and si: "e_inService (entry_at q i)"
    and e: "\<not> e_inService e"
  obtains l where
    "addToReadyList i ((upd_entry i e q)\<lparr>numInService := numInService q - 1\<rparr>)
       = Inr ((upd_entry i e q)\<lparr>numInService := numInService q - 1, readyList := l\<rparr>)"
    "queue_wf ((upd_entry i e q)\<lparr>numInService := numInService q - 1, readyList := l\<rparr>)"
    "i \<in> set l"
proof -
  let ?q1 = "(upd_entry i e q)\<lparr>numInService := numInService q - 1\<rparr>"
  have small: "i < length (entries q)" and d: "distinct (allocatedList q)" and nr: "i \<notin> set (readyList q)"
    using wf i si by (auto simp: queue_wf_def)
  obtain l where l: "addToReadyList i ?q1 = Inr (?q1\<lparr>readyList := l\<rparr>)"
    "set l = insert i (set (readyList ?q1))"
    "i \<notin> set (readyList ?q1) \<Longrightarrow> distinct (readyList ?q1) \<Longrightarrow> distinct l"
    using addToReadyList_result[of i ?q1] by blast
  let ?q = "?q1\<lparr>readyList := l\<rparr>"
  have "queue_wf ?q"
  proof (rule queue_wfI)
    show "length (entries ?q) = numEntries ?q" "distinct (allocatedList ?q @ freeList ?q)"
      "set (allocatedList ?q @ freeList ?q) = {..<numEntries ?q}"
      "allocated ?q = int (length (allocatedList ?q))" "distinct (readyList ?q)"
      using wf nr l(3) by (simp_all add: queue_wf_def)
    show "set (readyList ?q) = {j \<in> set (allocatedList ?q). \<not> e_inService (entry_at ?q j)}"
      using wf e small i l(2) by (auto simp: queue_wf_def)
    from split_list[OF i] obtain ys zs where sp: "allocatedList q = ys @ i # zs" by blast
    with d have "i \<notin> set ys" "i \<notin> set zs" by auto
    then have "filter (\<lambda>j. e_inService (entry_at ?q j)) ys = filter (\<lambda>j. e_inService (entry_at q j)) ys"
      "filter (\<lambda>j. e_inService (entry_at ?q j)) zs = filter (\<lambda>j. e_inService (entry_at q j)) zs"
      by (auto intro!: filter_cong)
    then show "numInService ?q = int (length (filter (\<lambda>j. e_inService (entry_at ?q j)) (allocatedList ?q)))"
      using wf e si small by (simp add: queue_wf_def sp)
  qed
  with l(1,2) show ?thesis by (intro that[of l]) auto
qed

end
