(* ===== verification/Write_Queue.thy ===== *)
theory Write_Queue
  imports Queue
begin

text \<open>
  The write buffer (src/gem5/src/mem/cache/write_queue_entry.hh, write_queue_entry.cc and
  write_queue.cc): an entry queue whose entries hold the writebacks, clean evictions and
  uncacheable writes on their way out, and the scratchpad writes CacheFlex sends through it.
  An entry leaves the queue as soon as its packet is sent.
\<close>

section \<open>Entries\<close>

record wq_entry = qentry +
  wq_targets :: "qtarget list"

definition WriteQueueEntry_new :: wq_entry where
  "WriteQueueEntry_new = qentry.extend QueueEntry_new \<lparr>wq_targets = []\<rparr>"

definition wq_getNumTargets :: "wq_entry \<Rightarrow> nat" where
  "wq_getNumTargets e = length (wq_targets e)"

definition wq_hasTargets :: "wq_entry \<Rightarrow> bool" where
  "wq_hasTargets e \<longleftrightarrow> wq_targets e \<noteq> []"

definition wq_getTarget :: "wq_entry \<Rightarrow> qtarget res" where
  "wq_getTarget e = must (wq_hasTargets e) (Inr (hd (wq_targets e)))"

definition wq_popTarget :: "wq_entry \<Rightarrow> wq_entry" where
  "wq_popTarget e = e\<lparr>wq_targets := tl (wq_targets e)\<rparr>"

definition wq_add :: "tick \<Rightarrow> packet \<Rightarrow> tick \<Rightarrow> nat \<Rightarrow> wq_entry \<Rightarrow> wq_entry" where
  "wq_add now pkt ready ord e =
     e\<lparr>wq_targets := wq_targets e @
         [\<lparr>t_recvTime = now, t_readyTime = ready, t_order = ord, t_pkt = pkt\<rparr>]\<rparr>"

definition wq_entry_allocate ::
  "tick \<Rightarrow> addr \<Rightarrow> nat \<Rightarrow> packet \<Rightarrow> tick \<Rightarrow> nat \<Rightarrow> wq_entry \<Rightarrow> wq_entry res" where
  "wq_entry_allocate now blk_addr blk_size target when_ready ord e =
     (let e1 = e\<lparr>e_blkAddr := blk_addr, e_blkSize := blk_size, e_secure := isSecure target,
                 e_readyTime := when_ready, e_order := ord,
                 e_uncacheable := isUncacheable (req target), e_inService := False\<rparr>;
          unc = isUncacheable (req target);
          e2 = wq_add now target when_ready ord e1;
          front = t_pkt (hd (wq_targets e2))
      in panic_when (\<not> isSPMcmd (cmd target) \<and> \<not> unc \<and> wq_targets e \<noteq> [])
          (panic_when (\<not> isSPMcmd (cmd target) \<and>
              \<not> ((isWrite (cmd target) \<and> unc) \<or> (isEviction (cmd target) \<and> \<not> unc) \<or>
                 cmd target = WriteClean))
            (must (matchBlockAddr (getBlockAddr blk_size front) (isSecure front) blk_size target)
              (Inr e2))))"

definition wq_entry_deallocate :: "wq_entry \<Rightarrow> wq_entry res" where
  "wq_entry_deallocate e = must (wq_targets e = []) (Inr (e\<lparr>e_inService := False\<rparr>))"

definition wq_entry_functional :: "packet \<Rightarrow> wq_entry \<Rightarrow> (bool \<times> packet \<times> wq_entry) res" where
  "wq_entry_functional p e =
     (if isPrint (cmd p)
      then bindR (trySatisfyFunctional p (e_blkAddr e) (e_secure e) (e_blkSize e) None)
             (\<lambda>(_, p', _). Inr (False, p', e))
      else bindR (targets_functional p (wq_targets e))
             (\<lambda>(d, p', ts). Inr (d, p', e\<lparr>wq_targets := ts\<rparr>)))"

section \<open>The queue\<close>

definition WriteQueue_new :: "nat \<Rightarrow> nat \<Rightarrow> wq_entry queue" where
  "WriteQueue_new = Queue_new WriteQueueEntry_new"

definition wq_allocate ::
  "tick \<Rightarrow> addr \<Rightarrow> nat \<Rightarrow> packet \<Rightarrow> tick \<Rightarrow> nat \<Rightarrow> wq_entry queue \<Rightarrow> (nat \<times> wq_entry queue) res" where
  "wq_allocate now blk_addr blk_size pkt when_ready ord q =
     queue_allocate wq_getNumTargets
       (wq_entry_allocate now blk_addr blk_size pkt when_ready ord) q"

definition wq_deallocate :: "nat \<Rightarrow> wq_entry queue \<Rightarrow> wq_entry queue res" where
  "wq_deallocate i q = queue_deallocate wq_entry_deallocate i q"

definition wq_markInService :: "nat \<Rightarrow> wq_entry queue \<Rightarrow> wq_entry queue res" where
  "wq_markInService i q = wq_deallocate i (upd_entry i (wq_popTarget (entry_at q i)) q)"

definition wq_findMatch :: "addr \<Rightarrow> bool \<Rightarrow> wq_entry queue \<Rightarrow> nat option res" where
  "wq_findMatch a sec q = findMatch wq_hasTargets a sec True q"

definition wq_trySatisfyFunctional ::
  "packet \<Rightarrow> wq_entry queue \<Rightarrow> (bool \<times> packet \<times> wq_entry queue) res" where
  "wq_trySatisfyFunctional p q = queue_trySatisfyFunctional wq_hasTargets wq_entry_functional p q"

section \<open>The buffer keeps its invariant\<close>

text \<open>
  An entry of the write buffer always holds exactly one target while it is allocated: it gets
  one on allocation and leaves with it. It is never in service.
\<close>

definition wq_inv :: "wq_entry queue \<Rightarrow> bool" where
  "wq_inv q \<longleftrightarrow>
     queue_inv wq_getNumTargets (\<lambda>e. \<not> e_inService e) q \<and> ready_sorted q \<and>
     (\<forall>i \<in> set (allocatedList q). wq_getNumTargets (entry_at q i) = 1)"

interpretation wq: queue_entries wq_getNumTargets wq_entry_deallocate "\<lambda>e. \<not> e_inService e"
  by unfold_locales (auto simp: wq_entry_deallocate_def wq_getNumTargets_def)

lemma wq_entry_allocate_result:
  assumes "wq_entry_allocate now a n p t k e = Inr e'"
  shows "\<not> e_inService e'" and "wq_targets e' = wq_targets e @ [\<lparr>t_recvTime = now, t_readyTime = t, t_order = k, t_pkt = p\<rparr>]"
    and "e_readyTime e' = t" and "e_blkAddr e' = a" and "e_secure e' = isSecure p"
    and "e_uncacheable e' = isUncacheable (req p)"
  using assms by (auto simp: wq_entry_allocate_def wq_add_def Let_def)

lemma wq_inv_new: "wq_inv (WriteQueue_new n r)"
  by (auto simp: wq_inv_def queue_inv_def WriteQueue_new_def Queue_new_def queue_wf_def ready_sorted_def
      entry_at_def WriteQueueEntry_new_def QueueEntry_new_def wq_getNumTargets_def qentry.defs)

lemma wq_allocate_inv:
  assumes inv: "wq_inv q" and run: "wq_allocate now a n p t k q = Inr (i, q')"
  shows "wq_inv q'" and "allocatedList q' = allocatedList q @ [i]" and "i \<notin> set (allocatedList q)"
    and "wq_targets (entry_at q' i) = [\<lparr>t_recvTime = now, t_readyTime = t, t_order = k, t_pkt = p\<rparr>]"
proof -
  have qi: "queue_inv wq_getNumTargets (\<lambda>e. \<not> e_inService e) q" and so: "ready_sorted q"
    using inv by (auto simp: wq_inv_def)
  note r = run[unfolded wq_allocate_def]
  have law: "\<forall>e e'. \<not> e_inService e \<longrightarrow> wq_getNumTargets e = 0 \<longrightarrow>
      wq_entry_allocate now a n p t k e = Inr e' \<longrightarrow> \<not> e_inService e' \<and> \<not> e_inService e'"
    using wq_entry_allocate_result(1) by blast
  note w = wq.allocate_inv[OF qi law r]
  show al: "allocatedList q' = allocatedList q @ [i]" by (fact w(3))
  show fresh: "i \<notin> set (allocatedList q)" by (fact w(2))
  have "i \<in> set (freeList q)" using r by (auto simp: queue_allocate_def split: list.splits)
  then have "wq_targets (entry_at q i) = []"
    using qi by (auto simp: queue_inv_def wq_getNumTargets_def)
  then show tg: "wq_targets (entry_at q' i) = [\<lparr>t_recvTime = now, t_readyTime = t, t_order = k, t_pkt = p\<rparr>]"
    using wq_entry_allocate_result(2)[OF w(4)] by simp
  have "wq_getNumTargets (entry_at q' j) = 1" if "j \<in> set (allocatedList q')" for j
    using that inv tg w(6)[of j] by (cases "j = i") (auto simp: al wq_inv_def wq_getNumTargets_def)
  with w(1) wq.allocate_sorted[OF qi so r] show "wq_inv q'"
    by (simp add: wq_inv_def)
qed

text \<open>Sending an entry never fails, removes exactly it, and keeps the invariant.\<close>

lemma wq_markInService_inv:
  assumes inv: "wq_inv q" and i: "i \<in> set (allocatedList q)"
  obtains q' where "wq_markInService i q = Inr q'" "wq_inv q'"
    "allocatedList q' = remove1 i (allocatedList q)" "allocated q' = allocated q - 1"
    "\<And>j. j \<noteq> i \<Longrightarrow> entry_at q' j = entry_at q j"
proof -
  let ?e = "wq_popTarget (entry_at q i)" and ?q = "upd_entry i (wq_popTarget (entry_at q i)) q"
  have qi: "queue_inv wq_getNumTargets (\<lambda>e. \<not> e_inService e) q" and so: "ready_sorted q"
    and one: "wq_getNumTargets (entry_at q i) = 1" and wf: "queue_wf q"
    using inv i by (auto simp: wq_inv_def queue_inv_def)
  have small: "i < length (entries q)" using queue_wf_allocated_less[OF wf i] .
  have nt: "wq_targets ?e = []" and eq: "e_inService ?e = e_inService (entry_at q i)"
    "e_readyTime ?e = e_readyTime (entry_at q i)"
    using one by (auto simp: wq_popTarget_def wq_getNumTargets_def length_Suc_conv)
  have nf: "i \<notin> set (freeList q)" using wf i by (auto simp: queue_wf_def)
  have qi': "queue_inv wq_getNumTargets (\<lambda>e. \<not> e_inService e) ?q"
    using qi queue_wf_upd[OF wf eq(1)] nf eq by (auto simp: queue_inv_def)
  have so': "ready_sorted ?q"
    using so ready_sorted_upd[OF eq(2)] by simp
  have run: "\<exists>q'. wq_markInService i q = Inr q'"
    using small nt by (simp add: wq_markInService_def wq_deallocate_def queue_deallocate_def
        wq_entry_deallocate_def Let_def)
  then obtain q' where q': "wq_markInService i q = Inr q'" by blast
  note r = q'[unfolded wq_markInService_def wq_deallocate_def]
  have i': "i \<in> set (allocatedList ?q)" using i by simp
  note w = wq.deallocate_inv[OF qi' i' r]
  have al: "allocatedList q' = remove1 i (allocatedList q)" using w(2) by simp
  have at: "entry_at q' j = entry_at q j" if "j \<noteq> i" for j using w(4)[OF that] that by simp
  have "wq_getNumTargets (entry_at q' j) = 1" if "j \<in> set (allocatedList q')" for j
  proof -
    have "j \<noteq> i" "j \<in> set (allocatedList q)" using that wf by (auto simp: al queue_wf_def)
    then show ?thesis using inv by (simp add: at wq_inv_def)
  qed
  with w(1) wq.deallocate_sorted[OF qi' i' so' r] have "wq_inv q'" by (simp add: wq_inv_def)
  moreover have "allocated q' = allocated q - 1" using queue_deallocate_fields(3)[OF r] by simp
  ultimately show ?thesis using that q' al at by blast
qed

lemma wq_entry_functional_keeps:
  "wq_entry_functional p e = Inr (d, p', e') \<Longrightarrow>
   wq_getNumTargets e' = wq_getNumTargets e \<and> e_inService e' = e_inService e \<and>
   e_readyTime e' = e_readyTime e"
  by (cases "isPrint (cmd p)")
    (auto simp: wq_entry_functional_def wq_getNumTargets_def dest: targets_functional_length
      split: prod.splits)

section \<open>Every history of the buffer\<close>

text \<open>
  The states the buffer can be in: packets are added, entries are sent in any order, and
  functional accesses walk over it at any time.
\<close>

lemma functional_loop_wq:
  assumes "functional_loop wq_hasTargets wq_entry_functional is p q = Inr (d, p', q')" and "wq_inv q"
  shows "wq_inv q'"
proof (rule functional_loop_invariant[where P = wq_inv, OF assms])
  fix p q i fin p1 e1
  assume inv: "wq_inv q" and f: "wq_entry_functional p (entry_at q i) = Inr (fin, p1, e1)"
  then show "wq_inv (upd_entry i e1 q)"
    using wq_entry_functional_keeps[OF f] queue_wf_upd[of q e1 i] ready_sorted_upd[of e1 q i]
    by (auto simp: wq_inv_def queue_inv_def)
qed

inductive wq_reachable :: "nat \<Rightarrow> nat \<Rightarrow> wq_entry queue \<Rightarrow> bool" for n r where
  start: "wq_reachable n r (WriteQueue_new n r)"
| alloc: "wq_reachable n r q \<Longrightarrow> wq_allocate now a b p t k q = Inr (i, q') \<Longrightarrow> wq_reachable n r q'"
| send: "wq_reachable n r q \<Longrightarrow> i \<in> set (allocatedList q) \<Longrightarrow> wq_markInService i q = Inr q' \<Longrightarrow>
    wq_reachable n r q'"
| snoop: "wq_reachable n r q \<Longrightarrow> wq_trySatisfyFunctional p q = Inr (d, p', q') \<Longrightarrow>
    wq_reachable n r q'"

lemma wq_reachable_inv:
  "wq_reachable n r q \<Longrightarrow> wq_inv q \<and> numEntries q = n + r \<and> numReserve q = r"
proof (induction rule: wq_reachable.induct)
  case start
  show ?case using wq_inv_new by (simp add: WriteQueue_new_def Queue_new_def)
next
  case (alloc q now a b p t k i q')
  then show ?case using wq_allocate_inv(1) queue_allocate_size unfolding wq_allocate_def by metis
next
  case (send q i q')
  then obtain q2 where "wq_markInService i q = Inr q2" "wq_inv q2"
    using wq_markInService_inv by metis
  moreover have "numEntries q' = numEntries q \<and> numReserve q' = numReserve q"
    using queue_deallocate_fields(4)[OF send.hyps(3)[unfolded wq_markInService_def wq_deallocate_def]] by simp
  ultimately show ?case using send by simp
next
  case (snoop q p d p' q')
  then show ?case
    using functional_loop_wq functional_loop_size
    unfolding wq_trySatisfyFunctional_def queue_trySatisfyFunctional_def by metis
qed

section \<open>The property of the write buffer\<close>


definition sample_writeback :: "addr \<Rightarrow> packet" where
  "sample_writeback a = (sample_functional WritebackDirty)\<lparr>pkt_addr := a, pkt_size := 64\<rparr>"

definition sample_wq1 :: "wq_entry queue" where
  "sample_wq1 = snd (projr (wq_allocate 5 0x40 64 (sample_writeback 0x40) 30 1 (WriteQueue_new 1 1)))"

definition sample_wq2 :: "wq_entry queue" where
  "sample_wq2 = snd (projr (wq_allocate 6 0x80 64 (sample_writeback 0x80) 10 2 sample_wq1))"

lemma sample_wq_runs:
  "\<not> isl (wq_allocate 5 0x40 64 (sample_writeback 0x40) 30 1 (WriteQueue_new 1 1))"
  "\<not> isl (wq_allocate 6 0x80 64 (sample_writeback 0x80) 10 2 sample_wq1)"
  by code_simp+

lemma sample_wq_reachable: "wq_reachable 1 1 sample_wq2"
proof -
  have "wq_reachable 1 1 sample_wq1"
    unfolding sample_wq1_def
    by (rule wq_reachable.alloc[OF wq_reachable.start ran_pair[OF sample_wq_runs(1)]])
  then show ?thesis
    unfolding sample_wq2_def
    by (rule wq_reachable.alloc[OF _ ran_pair[OF sample_wq_runs(2)]])
qed


end
