(* ===== verification/MSHR.thy ===== *)
theory MSHR
  imports Queue
begin

text \<open>
  Miss-status holding registers (src/gem5/src/mem/cache/mshr.hh and mshr.cc): the target list
  with its summary flags, and the register with its regular and deferred targets.

  A target may mark the MSHR of an upstream cache that its packet came through as pending
  downstream. Those MSHRs belong to other caches; the argument \<open>up\<close> of the operations is the
  set of upstream MSHRs whose \<^verbatim>\<open>downstreamPending\<close> flag is set, and clearing a flag
  there is the upstream cache's own \<open>MSHR_clearDownstreamPending\<close>. The front of an empty
  list is an \<open>OutOfRange\<close> abort.
\<close>

section \<open>Targets and target lists\<close>

datatype mshr_source = FromCPU | FromSnoop | FromPrefetcher

record mshr_target = qtarget +
  t_source :: mshr_source
  t_markedPending :: bool
  t_allocOnFill :: bool

record target_list =
  tl_targets :: "mshr_target list"
  tl_needsWritable :: bool
  tl_hasUpgrade :: bool
  tl_allocOnFill :: bool
  tl_hasFromCache :: bool
  tl_blkAddr :: addr
  tl_blkSize :: nat
  tl_canMergeWrites :: bool
  tl_writesBitmap :: "bool list"

definition TargetList_new :: target_list where
  "TargetList_new = \<lparr>tl_targets = [], tl_needsWritable = False, tl_hasUpgrade = False,
     tl_allocOnFill = False, tl_hasFromCache = False, tl_blkAddr = 0, tl_blkSize = 0,
     tl_canMergeWrites = False, tl_writesBitmap = []\<rparr>"

definition tl_isWholeLineWrite :: "target_list \<Rightarrow> bool" where
  "tl_isWholeLineWrite l \<longleftrightarrow> list_all id (tl_writesBitmap l)"

definition resetFlags :: "target_list \<Rightarrow> target_list" where
  "resetFlags l = l\<lparr>tl_canMergeWrites := True,
     tl_writesBitmap := replicate (length (tl_writesBitmap l)) False,
     tl_needsWritable := False, tl_hasUpgrade := False, tl_allocOnFill := False,
     tl_hasFromCache := False\<rparr>"

definition tl_init :: "addr \<Rightarrow> nat \<Rightarrow> target_list \<Rightarrow> target_list" where
  "tl_init blk_addr blk_size l =
     resetFlags (l\<lparr>tl_blkAddr := blk_addr, tl_blkSize := blk_size,
                   tl_writesBitmap := take blk_size (tl_writesBitmap l) @
                     replicate (blk_size - length (tl_writesBitmap l)) False\<rparr>)"

definition isReset :: "target_list \<Rightarrow> bool" where
  "isReset l \<longleftrightarrow> \<not> tl_needsWritable l \<and> \<not> tl_hasUpgrade l \<and> \<not> tl_allocOnFill l \<and>
     \<not> tl_hasFromCache l \<and> tl_canMergeWrites l"

definition no_merge_flags :: flags64 where
  "no_merge_flags = UNCACHEABLE OR STRICT_ORDER OR PRIVILEGED OR LLSC OR MEM_SWAP OR
     MEM_SWAP_COND OR SECURE OR LOCKED_RMW"

definition updateWriteFlags :: "packet \<Rightarrow> target_list \<Rightarrow> target_list" where
  "updateWriteFlags pkt l =
     (if cmd pkt = CPTOSPMReq then l\<lparr>tl_canMergeWrites := False\<rparr>
      else if tl_isWholeLineWrite l then l
      else if tl_canMergeWrites l
      then (if \<not> isWrite (cmd pkt) then l\<lparr>tl_canMergeWrites := False\<rparr>
            else let compat_write = (\<not> flag_isSet (rflags (req pkt)) no_merge_flags);
                     first_write = (tl_targets l = []);
                     bm = (if \<not> isMaskedWrite pkt \<and> (first_write \<or> compat_write)
                           then memcpy (tl_writesBitmap l)
                                  (unat (getOffset (tl_blkSize l) pkt))
                                  (replicate (getSize pkt) True) (getSize pkt)
                           else tl_writesBitmap l)
                 in l\<lparr>tl_writesBitmap := bm, tl_canMergeWrites := compat_write\<rparr>)
      else l)"

definition updateFlags :: "packet \<Rightarrow> mshr_source \<Rightarrow> bool \<Rightarrow> target_list \<Rightarrow> target_list" where
  "updateFlags pkt source alloc_on_fill l =
     (if source = FromSnoop then l
      else let l1 = l\<lparr>tl_needsWritable := tl_needsWritable l \<or> needsWritable (cmd pkt),
                      tl_hasUpgrade := tl_hasUpgrade l \<or> isUpgrade (cmd pkt) \<or> cmd pkt = StoreCondReq,
                      tl_allocOnFill := tl_allocOnFill l \<or> alloc_on_fill\<rparr>
           in if source = FromPrefetcher then l1
              else updateWriteFlags pkt
                     (l1\<lparr>tl_hasFromCache := tl_hasFromCache l1 \<or> fromCache (cmd pkt)\<rparr>))"

definition populateFlags :: "target_list \<Rightarrow> target_list" where
  "populateFlags l =
     fold (\<lambda>t. updateFlags (t_pkt t) (t_source t) (t_allocOnFill t)) (tl_targets l) (resetFlags l)"

definition tl_add ::
  "tick \<Rightarrow> packet \<Rightarrow> tick \<Rightarrow> nat \<Rightarrow> mshr_source \<Rightarrow> bool \<Rightarrow> bool \<Rightarrow> nat set \<Rightarrow> target_list \<Rightarrow>
   (nat set \<times> target_list) res" where
  "tl_add now pkt ready ord source markPending alloc_on_fill up l =
     (let l1 = updateFlags pkt source alloc_on_fill l;
          fin = (\<lambda>up' mark. Inr (up', l1\<lparr>tl_targets := tl_targets l1 @
                  [\<lparr>t_recvTime = now, t_readyTime = ready, t_order = ord, t_pkt = pkt,
                    t_source = source, t_markedPending = mark,
                    t_allocOnFill = alloc_on_fill\<rparr>]\<rparr>))
      in if markPending
         then (case findNextSenderState pkt of
                 Some m \<Rightarrow> must (m \<notin> up) (fin (insert m up) True)
               | None \<Rightarrow> fin up False)
         else fin up False)"

definition replaceUpgrade :: "(nat \<Rightarrow> byte list) \<Rightarrow> packet \<Rightarrow> packet res" where
  "replaceUpgrade fresh pkt =
     (let had_data = (hasData (cmd pkt) \<or> hasRespData pkt);
          c = (if cmd pkt = UpgradeReq then ReadExReq
               else if cmd pkt = SCUpgradeReq then SCUpgradeFailReq
               else if cmd pkt = StoreCondReq then StoreCondFailReq
               else cmd pkt);
          p = pkt\<lparr>cmd := c\<rparr>
      in if had_data then Inr p
         else must (\<not> hasData (cmd p)) (if hasRespData p then allocate fresh p else Inr p))"

definition replaceUpgrades :: "(nat \<Rightarrow> byte list) \<Rightarrow> target_list \<Rightarrow> target_list res" where
  "replaceUpgrades fresh l =
     (if \<not> tl_hasUpgrade l then Inr l
      else bindR (mapR (\<lambda>t. bindR (replaceUpgrade fresh (t_pkt t)) (\<lambda>p. Inr (t\<lparr>t_pkt := p\<rparr>)))
                   (tl_targets l))
             (\<lambda>ts. Inr (l\<lparr>tl_targets := ts, tl_hasUpgrade := False\<rparr>)))"

fun clear_targets_pending :: "mshr_target list \<Rightarrow> nat set \<Rightarrow> (nat set \<times> mshr_target list) res" where
  "clear_targets_pending [] up = Inr (up, [])"
| "clear_targets_pending (t # ts) up =
     (if t_markedPending t
      then bindR (case findNextSenderState (t_pkt t) of
                    Some m \<Rightarrow> must (m \<in> up) (Inr (up - {m}))
                  | None \<Rightarrow> Inr up)
             (\<lambda>up1. bindR (clear_targets_pending ts up1)
               (\<lambda>(up2, ts'). Inr (up2, t\<lparr>t_markedPending := False\<rparr> # ts')))
      else bindR (clear_targets_pending ts up) (\<lambda>(up2, ts'). Inr (up2, t # ts')))"

definition tl_clearDownstreamPending :: "nat set \<Rightarrow> target_list \<Rightarrow> (nat set \<times> target_list) res" where
  "tl_clearDownstreamPending up l =
     bindR (clear_targets_pending (tl_targets l) up)
       (\<lambda>(up', ts). Inr (up', l\<lparr>tl_targets := ts\<rparr>))"

definition tl_trySatisfyFunctional ::
  "packet \<Rightarrow> target_list \<Rightarrow> (bool \<times> packet \<times> target_list) res" where
  "tl_trySatisfyFunctional p l =
     bindR (targets_functional p (tl_targets l)) (\<lambda>(d, p', ts). Inr (d, p', l\<lparr>tl_targets := ts\<rparr>))"

section \<open>The register\<close>

record mshr = qentry +
  downstreamPending :: bool
  pendingModified :: bool
  postInvalidate :: bool
  postDowngrade :: bool
  wasWholeLineWrite :: bool
  isForward :: bool
  m_targets :: target_list
  m_deferred :: target_list

definition MSHR_new :: mshr where
  "MSHR_new = qentry.extend QueueEntry_new
     \<lparr>downstreamPending = False, pendingModified = False, postInvalidate = False,
      postDowngrade = False, wasWholeLineWrite = False, isForward = False,
      m_targets = TargetList_new, m_deferred = TargetList_new\<rparr>"

abbreviation targets_of :: "mshr \<Rightarrow> mshr_target list" where
  "targets_of m \<equiv> tl_targets (m_targets m)"

abbreviation deferred_of :: "mshr \<Rightarrow> mshr_target list" where
  "deferred_of m \<equiv> tl_targets (m_deferred m)"

definition mshr_needsWritable :: "mshr \<Rightarrow> bool" where
  "mshr_needsWritable m \<longleftrightarrow> tl_needsWritable (m_targets m)"

definition mshr_front :: "mshr \<Rightarrow> mshr_target res" where
  "mshr_front m = (case targets_of m of [] \<Rightarrow> Inl OutOfRange | t # _ \<Rightarrow> Inr t)"

definition isCleaning :: "mshr \<Rightarrow> bool res" where
  "isCleaning m = bindR (mshr_front m) (\<lambda>t. Inr (isClean (cmd (t_pkt t))))"

definition isPendingModified :: "mshr \<Rightarrow> bool res" where
  "isPendingModified m = must (e_inService m) (Inr (pendingModified m))"

definition hasPostInvalidate :: "mshr \<Rightarrow> bool res" where
  "hasPostInvalidate m = must (e_inService m) (Inr (postInvalidate m))"

definition hasPostDowngrade :: "mshr \<Rightarrow> bool res" where
  "hasPostDowngrade m = must (e_inService m) (Inr (postDowngrade m))"

definition mshr_allocOnFill :: "mshr \<Rightarrow> bool" where
  "mshr_allocOnFill m \<longleftrightarrow> tl_allocOnFill (m_targets m)"

definition mshr_hasFromCache :: "mshr \<Rightarrow> bool" where
  "mshr_hasFromCache m \<longleftrightarrow> tl_hasFromCache (m_targets m)"

definition mshr_isWholeLineWrite :: "mshr \<Rightarrow> bool" where
  "mshr_isWholeLineWrite m \<longleftrightarrow> tl_isWholeLineWrite (m_targets m)"

definition mshr_getNumTargets :: "mshr \<Rightarrow> nat" where
  "mshr_getNumTargets m = length (targets_of m) + length (deferred_of m)"

definition mshr_hasTargets :: "mshr \<Rightarrow> bool" where
  "mshr_hasTargets m \<longleftrightarrow> targets_of m \<noteq> []"

definition mshr_getTarget :: "mshr \<Rightarrow> mshr_target res" where
  "mshr_getTarget m = must (mshr_hasTargets m) (mshr_front m)"

definition mshr_popTarget :: "mshr \<Rightarrow> mshr" where
  "mshr_popTarget m = m\<lparr>m_targets := (m_targets m)\<lparr>tl_targets := tl (targets_of m)\<rparr>\<rparr>"

definition MSHR_allocate ::
  "tick \<Rightarrow> addr \<Rightarrow> nat \<Rightarrow> packet \<Rightarrow> tick \<Rightarrow> nat \<Rightarrow> bool \<Rightarrow> nat set \<Rightarrow> mshr \<Rightarrow> (nat set \<times> mshr) res" where
  "MSHR_allocate now blk_addr blk_size target when_ready ord alloc_on_fill up m =
     (let m1 = m\<lparr>e_blkAddr := blk_addr, e_blkSize := blk_size, e_secure := isSecure target,
                 e_readyTime := when_ready, e_order := ord, isForward := False,
                 wasWholeLineWrite := False, e_uncacheable := isUncacheable (req target),
                 e_inService := False, downstreamPending := False,
                 m_targets := tl_init blk_addr blk_size (m_targets m),
                 m_deferred := tl_init blk_addr blk_size (m_deferred m)\<rparr>;
          source = (if cmd target = HardPFReq then FromPrefetcher else FromCPU)
      in bindR (tl_add now target when_ready ord source True alloc_on_fill up (m_targets m1))
           (\<lambda>(up', l). let front = t_pkt (hd (tl_targets l)) in
              must (matchBlockAddr (getBlockAddr blk_size front) (isSecure front) blk_size target)
                (Inr (up', m1\<lparr>m_targets := l\<rparr>))))"

definition MSHR_clearDownstreamPending :: "nat set \<Rightarrow> mshr \<Rightarrow> (nat set \<times> mshr) res" where
  "MSHR_clearDownstreamPending up m =
     must (downstreamPending m)
       (bindR (tl_clearDownstreamPending up (m_targets m))
         (\<lambda>(up', l). Inr (up', m\<lparr>downstreamPending := False, m_targets := l\<rparr>)))"

definition MSHR_markInService :: "bool \<Rightarrow> nat set \<Rightarrow> mshr \<Rightarrow> (nat set \<times> mshr) res" where
  "MSHR_markInService pending_modified_resp up m =
     must (\<not> e_inService m)
       (let m1 = m\<lparr>e_inService := True,
                   pendingModified := tl_needsWritable (m_targets m) \<or> pending_modified_resp,
                   postInvalidate := False, postDowngrade := False\<rparr>
        in bindR (if \<not> downstreamPending m1 then tl_clearDownstreamPending up (m_targets m1)
                  else Inr (up, m_targets m1))
             (\<lambda>(up', l). let m2 = m1\<lparr>m_targets := l\<rparr>
                         in Inr (up', m2\<lparr>wasWholeLineWrite := mshr_isWholeLineWrite m2\<rparr>)))"

definition MSHR_deallocate :: "mshr \<Rightarrow> mshr res" where
  "MSHR_deallocate m =
     must (targets_of m = [])
       (let m1 = m\<lparr>m_targets := resetFlags (m_targets m)\<rparr>
        in must (isReset (m_deferred m1)) (Inr (m1\<lparr>e_inService := False\<rparr>)))"

definition allocateTarget ::
  "(nat \<Rightarrow> byte list) \<Rightarrow> tick \<Rightarrow> packet \<Rightarrow> tick \<Rightarrow> nat \<Rightarrow> bool \<Rightarrow> nat set \<Rightarrow> mshr \<Rightarrow>
   (nat set \<times> mshr) res" where
  "allocateTarget fresh now pkt when_ready ord alloc_on_fill up m =
     must (cmd pkt \<noteq> HardPFReq)
       (bindR (mshr_front m) (\<lambda>tgt.
          if isCacheMaintenance (req pkt) \<or> isCacheMaintenance (req (t_pkt tgt)) \<or>
             deferred_of m \<noteq> [] \<or>
             (e_inService m \<and>
              (postInvalidate m \<or>
               (needsWritable (cmd pkt) \<and>
                (\<not> pendingModified m \<or> postDowngrade m \<or> isForward m))))
          then bindR (if e_inService m \<and> postInvalidate m then replaceUpgrade fresh pkt else Inr pkt)
                 (\<lambda>p. bindR (tl_add now p when_ready ord FromCPU True alloc_on_fill up (m_deferred m))
                   (\<lambda>(up', l). Inr (up', m\<lparr>m_deferred := l\<rparr>)))
          else bindR (tl_add now pkt when_ready ord FromCPU (\<not> e_inService m) alloc_on_fill up
                       (m_targets m))
                 (\<lambda>(up', l). Inr (up', m\<lparr>m_targets := l\<rparr>))))"

text \<open>
  \<open>handleSnoop\<close> returns whether this MSHR will respond, the snooped packet (it may have been
  flagged) and the updated register.
\<close>

definition snoop_replace_upgrades ::
  "(nat \<Rightarrow> byte list) \<Rightarrow> packet \<Rightarrow> target_list \<Rightarrow> target_list res" where
  "snoop_replace_upgrades fresh pkt l =
     (if needsWritable (cmd pkt) \<or> isCacheInvalidate (req pkt) then replaceUpgrades fresh l
      else Inr l)"

definition snoop_save ::
  "(nat \<Rightarrow> byte list) \<Rightarrow> tick \<Rightarrow> bool \<Rightarrow> packet \<Rightarrow> nat \<Rightarrow> nat set \<Rightarrow> mshr \<Rightarrow>
   (packet \<times> nat set \<times> mshr) res" where
  "snoop_save fresh now will_respond pkt ord up m =
     bindR (if will_respond then Packet_copy fresh pkt True True
            else Inr (Packet_blk (req pkt) (cmd pkt) (e_blkSize m)))
       (\<lambda>cp_pkt. bindR (if will_respond then bindR (setCacheResponding pkt) setResponderHadWritable
                        else if pendingModified m \<and> isClean (cmd pkt) then setSatisfied pkt
                        else Inr pkt)
         (\<lambda>pkt'. bindR (tl_add now cp_pkt now ord FromSnoop
                          (downstreamPending m \<and> tl_needsWritable (m_targets m)) False up
                          (m_targets m))
           (\<lambda>(up', l). Inr (pkt', up',
              m\<lparr>m_targets := l,
                postInvalidate := postInvalidate m \<or> needsWritable (cmd pkt) \<or>
                  isInvalidate (cmd pkt)\<rparr>))))"

definition mshr_handleSnoop ::
  "(nat \<Rightarrow> byte list) \<Rightarrow> tick \<Rightarrow> packet \<Rightarrow> nat \<Rightarrow> nat set \<Rightarrow> mshr \<Rightarrow>
   (bool \<times> packet \<times> nat set \<times> mshr) res" where
  "mshr_handleSnoop fresh now pkt ord up m =
     panic_when (needsWritable (cmd pkt) \<noteq> isInvalidate (cmd pkt) \<and> \<not> isCacheMaintenance (req pkt))
      (if \<not> e_inService m \<or> (isExpressSnoop pkt \<and> downstreamPending m)
       then bindR (snoop_replace_upgrades fresh pkt (m_targets m))
              (\<lambda>l. bindR (snoop_replace_upgrades fresh pkt (m_deferred m))
                (\<lambda>d. Inr (False, pkt, up, m\<lparr>m_targets := l, m_deferred := d\<rparr>)))
       else bindR (snoop_replace_upgrades fresh pkt (m_deferred m))
         (\<lambda>d. let m1 = m\<lparr>m_deferred := d\<rparr> in
            bindR (mshr_front m1) (\<lambda>tgt.
              if postInvalidate m \<or> isCacheInvalidate (req (t_pkt tgt))
              then Inr (True, pkt, up, m1)
              else let will_respond =
                         (pendingModified m \<and> needsResponse (cmd pkt) \<and> \<not> isClean (cmd pkt))
                   in bindR (if pendingModified m \<or> isInvalidate (cmd pkt)
                             then snoop_save fresh now will_respond pkt ord up m1
                             else Inr (pkt, up, m1))
                        (\<lambda>(p, up', m2).
                          if \<not> needsWritable (cmd pkt) \<and> \<not> isUncacheable (req pkt)
                          then Inr (will_respond, setHasSharers p, up', m2\<lparr>postDowngrade := True\<rparr>)
                          else Inr (will_respond, p, up', m2)))))"

text \<open>The targets a response can service now, and those that stay.\<close>

fun split_at_locked :: "mshr_target list \<Rightarrow> mshr_target list \<times> mshr_target list" where
  "split_at_locked [] = ([], [])"
| "split_at_locked (t # ts) =
     (if cmd (t_pkt t) = LockedRMWReadReq then ([t], t # ts)
      else let (a, b) = split_at_locked ts in (t # a, b))"

definition extractServiceableTargets :: "packet \<Rightarrow> mshr \<Rightarrow> (target_list \<times> mshr) res" where
  "extractServiceableTargets pkt m =
     (let ready0 = tl_init (e_blkAddr m) (e_blkSize m) TargetList_new;
          fin = (\<lambda>ready rest. Inr (populateFlags (ready0\<lparr>tl_targets := ready\<rparr>),
                   m\<lparr>m_targets := populateFlags ((m_targets m)\<lparr>tl_targets := rest\<rparr>)\<rparr>))
      in if cmd pkt = ReadRespWithInvalidate
         then (case targets_of m of [] \<Rightarrow> Inl OutOfRange
               | t # ts \<Rightarrow>
                   must (t_source t = FromCPU \<or> t_source t = FromPrefetcher)
                     (if cmd (t_pkt t) \<noteq> LockedRMWReadReq
                      then must (list_all (\<lambda>u. t_source u = FromCPU \<or> t_source u = FromSnoop) ts)
                             (fin (t # filter (\<lambda>u. t_source u \<noteq> FromCPU) ts)
                                (filter (\<lambda>u. t_source u = FromCPU) ts))
                      else fin [t] (t # ts)))
         else let (ready, rest) = split_at_locked (targets_of m) in fin ready rest)"

definition promoteDeferredTargets :: "tick \<Rightarrow> mshr \<Rightarrow> (bool \<times> mshr) res" where
  "promoteDeferredTargets now m =
     (if targets_of m = [] \<and> deferred_of m = [] then Inr (False, m)
      else let ok = (\<lambda>t. \<not> isCacheMaintenance (req (t_pkt t)));
               before = takeWhile ok (deferred_of m);
               (moved, stay) =
                 (if before = []
                  then (if targets_of m = [] then (take 1 (deferred_of m), drop 1 (deferred_of m))
                        else ([], deferred_of m))
                  else (before, dropWhile ok (deferred_of m)));
               m1 = m\<lparr>m_deferred := populateFlags ((m_deferred m)\<lparr>tl_targets := stay\<rparr>),
                      m_targets := populateFlags ((m_targets m)\<lparr>tl_targets := targets_of m @ moved\<rparr>)\<rparr>
           in bindR (mshr_front m1)
                (\<lambda>t. Inr (True, m1\<lparr>e_order := t_order t, e_readyTime := max now (t_readyTime t)\<rparr>)))"

fun spanR :: "('a \<Rightarrow> bool res) \<Rightarrow> 'a list \<Rightarrow> ('a list \<times> 'a list) res" where
  "spanR P [] = Inr ([], [])"
| "spanR P (x # xs) =
     bindR (P x) (\<lambda>b. if b then bindR (spanR P xs) (\<lambda>(a, c). Inr (x # a, c)) else Inr ([], x # xs))"

definition promoteIf :: "(mshr_target \<Rightarrow> bool res) \<Rightarrow> nat set \<Rightarrow> mshr \<Rightarrow> (nat set \<times> mshr) res" where
  "promoteIf P up m =
     must (\<not> downstreamPending m)
       (bindR (spanR P (deferred_of m)) (\<lambda>(moved, stay).
          bindR (clear_targets_pending moved up) (\<lambda>(up', moved').
            Inr (up', m\<lparr>m_targets := (m_targets m)\<lparr>tl_targets := targets_of m @ moved'\<rparr>,
                        m_deferred := populateFlags ((m_deferred m)\<lparr>tl_targets := stay\<rparr>)\<rparr>))))"

definition promoteReadable :: "nat set \<Rightarrow> mshr \<Rightarrow> (nat set \<times> mshr) res" where
  "promoteReadable up m =
     (if deferred_of m = [] then Inr (up, m)
      else bindR (hasPostInvalidate m) (\<lambda>pi.
        if pi then Inr (up, m)
        else promoteIf (\<lambda>t. must (t_source t = FromCPU)
               (Inr (\<not> isCacheInvalidate (req (t_pkt t)) \<and> \<not> needsWritable (cmd (t_pkt t))))) up m))"

definition promoteWritable :: "nat set \<Rightarrow> mshr \<Rightarrow> (nat set \<times> mshr) res" where
  "promoteWritable up m =
     (case deferred_of m of [] \<Rightarrow> Inr (up, m)
      | d # _ \<Rightarrow>
          if \<not> tl_needsWritable (m_deferred m) then Inr (up, m)
          else bindR (hasPostInvalidate m) (\<lambda>pi. bindR (hasPostDowngrade m) (\<lambda>pd.
            if \<not> (pi \<or> pd) \<and> \<not> isCacheInvalidate (req (t_pkt d))
            then must (\<not> tl_needsWritable (m_targets m))
              (promoteIf (\<lambda>t. must (t_source t = FromCPU) (Inr (\<not> isCacheInvalidate (req (t_pkt t)))))
                up (m\<lparr>m_targets := (m_targets m)\<lparr>tl_needsWritable := True\<rparr>\<rparr>))
            else Inr (up, m))))"

definition mshr_trySatisfyFunctional :: "packet \<Rightarrow> mshr \<Rightarrow> (bool \<times> packet \<times> mshr) res" where
  "mshr_trySatisfyFunctional p m =
     (if isPrint (cmd p)
      then bindR (trySatisfyFunctional p (e_blkAddr m) (e_secure m) (e_blkSize m) None)
             (\<lambda>(_, p', _). Inr (False, p', m))
      else bindR (tl_trySatisfyFunctional p (m_targets m)) (\<lambda>(d, p1, l).
             if d then Inr (True, p1, m\<lparr>m_targets := l\<rparr>)
             else bindR (tl_trySatisfyFunctional p1 (m_deferred m)) (\<lambda>(d2, p2, l2).
                    Inr (d2, p2, m\<lparr>m_targets := l, m_deferred := l2\<rparr>))))"

definition mshr_delay :: "tick \<Rightarrow> nat \<Rightarrow> mshr \<Rightarrow> mshr res" where
  "mshr_delay now delay_ticks m =
     must (e_readyTime m \<le> now) (Inr (m\<lparr>e_readyTime := now + delay_ticks\<rparr>))"

text \<open>
  Two packet pointers are compared by what they point to, except for the atomic functor, on
  which there is no decidable equality.
\<close>

definition same_packet :: "packet \<Rightarrow> packet \<Rightarrow> bool" where
  "same_packet p p' \<longleftrightarrow>
     cmd p = cmd p' \<and> pflags p = pflags p' \<and> pkt_addr p = pkt_addr p' \<and> pkt_size p = pkt_size p' \<and>
     pkt_secure p = pkt_secure p' \<and> pdata p = pdata p' \<and> senderState p = senderState p' \<and>
     slotidx p = slotidx p' \<and> spm_size p = spm_size p' \<and> bytesValid p = bytesValid p' \<and>
     headerDelay p = headerDelay p' \<and> snoopDelay p = snoopDelay p' \<and> payloadDelay p = payloadDelay p' \<and>
     (let r = req p; r' = req p' in
      paddr r = paddr r' \<and> rsize r = rsize r' \<and> byteEnable r = byteEnable r' \<and>
      requestorId r = requestorId r' \<and> rflags r = rflags r' \<and> privateFlags r = privateFlags r' \<and>
      taskId r = taskId r' \<and> vaddr r = vaddr r' \<and> extraData r = extraData r' \<and> contextId r = contextId r')"

definition updateLockedRMWReadTarget :: "packet \<Rightarrow> mshr \<Rightarrow> mshr res" where
  "updateLockedRMWReadTarget pkt m =
     (case targets_of m of [] \<Rightarrow> Inl Assertion
      | t # ts \<Rightarrow> must (same_packet (t_pkt t) pkt)
          (bindR (Packet_new (req pkt) LockedRMWReadReq) (\<lambda>p.
            Inr (m\<lparr>m_targets := (m_targets m)\<lparr>tl_targets := t\<lparr>t_pkt := p\<rparr> # ts\<rparr>\<rparr>))))"

definition hasLockedRMWReadTarget :: "mshr \<Rightarrow> bool" where
  "hasLockedRMWReadTarget m =
     (case targets_of m of [] \<Rightarrow> False | t # _ \<Rightarrow> cmd (t_pkt t) = LockedRMWReadReq)"

section \<open>Summary flags\<close>

lemma request_write_flags:
  "isRequest c \<Longrightarrow> isWrite c \<Longrightarrow> c \<noteq> CPTOSPMReq \<Longrightarrow> needsWritable c \<or> fromCache c"
  by (cases c) (simp_all add: cmd_table)

lemma upgrade_needsWritable: "isUpgrade c \<or> c = StoreCondReq \<Longrightarrow> isRequest c \<Longrightarrow> needsWritable c"
  by (cases c) (simp_all add: cmd_table)

lemma updateWriteFlags_keeps [simp]:
  "tl_targets (updateWriteFlags p l) = tl_targets l"
  "tl_needsWritable (updateWriteFlags p l) = tl_needsWritable l"
  "tl_hasUpgrade (updateWriteFlags p l) = tl_hasUpgrade l"
  "tl_allocOnFill (updateWriteFlags p l) = tl_allocOnFill l"
  "tl_hasFromCache (updateWriteFlags p l) = tl_hasFromCache l"
  "tl_blkSize (updateWriteFlags p l) = tl_blkSize l"
  by (simp_all add: updateWriteFlags_def Let_def)

lemma updateWriteFlags_mono: "tl_canMergeWrites (updateWriteFlags p l) \<Longrightarrow> tl_canMergeWrites l"
  by (auto simp: updateWriteFlags_def Let_def split: if_splits)

lemma updateFlags_keeps [simp]:
  "tl_targets (updateFlags p s a l) = tl_targets l"
  "tl_blkSize (updateFlags p s a l) = tl_blkSize l"
  by (simp_all add: updateFlags_def Let_def)

lemma memcpy_nonempty: "dst \<noteq> [] \<Longrightarrow> length src = n \<Longrightarrow> memcpy dst off src n \<noteq> []"
  by (cases n) (auto simp: memcpy_def)

lemma updateFlags_bitmap: "tl_writesBitmap l \<noteq> [] \<Longrightarrow> tl_writesBitmap (updateFlags p s a l) \<noteq> []"
  by (auto simp: updateFlags_def updateWriteFlags_def Let_def memcpy_nonempty)

lemma updateFlags_mono: "\<not> isReset l \<Longrightarrow> \<not> isReset (updateFlags p s a l)"
  by (auto simp: isReset_def updateFlags_def Let_def dest!: updateWriteFlags_mono split: if_splits)

text \<open>The first request of a target list always leaves a trace in the flags.\<close>

lemma updateFlags_first:
  assumes bm: "list_all Not (tl_writesBitmap l)" "tl_writesBitmap l \<noteq> []" and r: "isRequest (cmd p)"
  shows "\<not> isReset (updateFlags p FromCPU a l)"
proof -
  let ?l = "l\<lparr>tl_needsWritable := tl_needsWritable l \<or> needsWritable (cmd p),
      tl_hasUpgrade := tl_hasUpgrade l \<or> isUpgrade (cmd p) \<or> cmd p = StoreCondReq,
      tl_allocOnFill := tl_allocOnFill l \<or> a,
      tl_hasFromCache := tl_hasFromCache l \<or> fromCache (cmd p)\<rparr>"
  have u: "updateFlags p FromCPU a l = updateWriteFlags p ?l"
    by (simp add: updateFlags_def Let_def)
  have nw: "\<not> tl_isWholeLineWrite ?l"
    using bm by (cases "tl_writesBitmap l") (auto simp: tl_isWholeLineWrite_def)
  show ?thesis
  proof (cases "cmd p \<noteq> CPTOSPMReq \<and> isWrite (cmd p)")
    case True
    then show ?thesis using request_write_flags[OF r] unfolding u isReset_def by auto
  next
    case False
    then have "\<not> tl_canMergeWrites (updateWriteFlags p ?l)"
      using nw by (auto simp: updateWriteFlags_def)
    then show ?thesis unfolding u isReset_def by simp
  qed
qed

section \<open>The invariant of the deferred targets\<close>

text \<open>
  Deferred targets are requests from above; while there are any, the flags of the list are
  not the reset ones, so the assertion in \<open>MSHR_deallocate\<close> does say that none is left.
\<close>

definition tl_ok :: "target_list \<Rightarrow> bool" where
  "tl_ok l \<longleftrightarrow>
     (\<forall>t \<in> set (tl_targets l). t_source t = FromCPU \<and> isRequest (cmd (t_pkt t))) \<and>
     (tl_hasUpgrade l \<longrightarrow> tl_needsWritable l) \<and> tl_writesBitmap l \<noteq> [] \<and>
     (if tl_targets l = [] then list_all Not (tl_writesBitmap l) else \<not> isReset l)"

lemma resetFlags_simps [simp]:
  "tl_targets (resetFlags l) = tl_targets l" "tl_writesBitmap (resetFlags l) = replicate (length (tl_writesBitmap l)) False"
  "\<not> tl_hasUpgrade (resetFlags l)" "isReset (resetFlags l)" "tl_blkSize (resetFlags l) = tl_blkSize l"
  by (simp_all add: resetFlags_def isReset_def)

lemma updateFlags_upgrade:
  "isRequest (cmd p) \<Longrightarrow> tl_hasUpgrade l \<longrightarrow> tl_needsWritable l \<Longrightarrow>
   tl_hasUpgrade (updateFlags p s a l) \<longrightarrow> tl_needsWritable (updateFlags p s a l)"
  using upgrade_needsWritable[of "cmd p"] by (auto simp: updateFlags_def Let_def split: if_splits)

definition add_flags :: "mshr_target \<Rightarrow> target_list \<Rightarrow> target_list" where
  "add_flags t = updateFlags (t_pkt t) (t_source t) (t_allocOnFill t)"

lemma fold_add_flags_keeps:
  "tl_targets (fold add_flags ts l) = tl_targets l"
  "tl_writesBitmap l \<noteq> [] \<Longrightarrow> tl_writesBitmap (fold add_flags ts l) \<noteq> []"
  "\<not> isReset l \<Longrightarrow> \<not> isReset (fold add_flags ts l)"
  "\<forall>t \<in> set ts. isRequest (cmd (t_pkt t)) \<Longrightarrow> tl_hasUpgrade l \<longrightarrow> tl_needsWritable l \<Longrightarrow>
    tl_hasUpgrade (fold add_flags ts l) \<longrightarrow> tl_needsWritable (fold add_flags ts l)"
     apply (induction ts arbitrary: l)
            apply (simp_all add: add_flags_def updateFlags_bitmap updateFlags_mono)
  using updateFlags_upgrade by blast

lemma populateFlags_eq: "populateFlags l = fold add_flags (tl_targets l) (resetFlags l)"
proof -
  have "(\<lambda>t. updateFlags (t_pkt t) (t_source t) (t_allocOnFill t)) = add_flags"
    by (simp add: fun_eq_iff add_flags_def)
  then show ?thesis unfolding populateFlags_def by simp
qed

lemma populateFlags_targets [simp]: "tl_targets (populateFlags l) = tl_targets l"
  by (simp add: populateFlags_eq fold_add_flags_keeps(1))

lemma populateFlags_ok:
  assumes cpu: "\<forall>t \<in> set (tl_targets l). t_source t = FromCPU \<and> isRequest (cmd (t_pkt t))"
    and bm: "tl_writesBitmap l \<noteq> []"
  shows "tl_ok (populateFlags l)"
proof (cases "tl_targets l")
  case Nil
  then show ?thesis using bm by (auto simp: tl_ok_def populateFlags_eq list_all_iff)
next
  case (Cons t ts)
  have "\<not> isReset (add_flags t (resetFlags l))"
    using cpu bm updateFlags_first[of "resetFlags l" "t_pkt t" "t_allocOnFill t"]
    by (auto simp: add_flags_def Cons list_all_iff)
  then have "\<not> isReset (populateFlags l)"
    by (simp add: populateFlags_eq Cons fold_add_flags_keeps(3))
  moreover have "tl_hasUpgrade (populateFlags l) \<longrightarrow> tl_needsWritable (populateFlags l)"
    unfolding populateFlags_eq using cpu by (intro fold_add_flags_keeps(4)) auto
  moreover have "tl_writesBitmap (populateFlags l) \<noteq> []"
    unfolding populateFlags_eq using bm by (intro fold_add_flags_keeps(2)) simp
  ultimately show ?thesis
    using cpu Cons by (simp add: tl_ok_def)
qed

definition mshr_wf :: "mshr \<Rightarrow> bool" where
  "mshr_wf m \<longleftrightarrow> mshr_getNumTargets m = 0 \<or> tl_ok (m_deferred m)"

lemma tl_add_result:
  assumes "tl_add now p r k s mark a up l = Inr (up', l')"
  obtains mk where "l' = (updateFlags p s a l)\<lparr>tl_targets := tl_targets l @
      [\<lparr>t_recvTime = now, t_readyTime = r, t_order = k, t_pkt = p, t_source = s,
        t_markedPending = mk, t_allocOnFill = a\<rparr>]\<rparr>"
  using assms by (auto simp: tl_add_def Let_def split: if_splits option.splits)

lemma isReset_targets [simp]: "isReset (l\<lparr>tl_targets := ts\<rparr>) = isReset l"
  by (simp add: isReset_def)

lemma tl_add_ok:
  assumes ok: "tl_ok l" and r: "isRequest (cmd p)" and run: "tl_add now p t k FromCPU mark a up l = Inr (up', l')"
  shows "tl_ok l'"
proof -
  obtain mk where l': "l' = (updateFlags p FromCPU a l)\<lparr>tl_targets := tl_targets l @
      [\<lparr>t_recvTime = now, t_readyTime = t, t_order = k, t_pkt = p, t_source = FromCPU,
        t_markedPending = mk, t_allocOnFill = a\<rparr>]\<rparr>"
    using tl_add_result[OF run] .
  have "\<not> isReset (updateFlags p FromCPU a l)"
    using ok r updateFlags_first[of l p a] updateFlags_mono[of l p FromCPU a]
    by (auto simp: tl_ok_def split: if_splits)
  moreover have "tl_hasUpgrade (updateFlags p FromCPU a l) \<longrightarrow> tl_needsWritable (updateFlags p FromCPU a l)"
    using ok r by (intro updateFlags_upgrade) (auto simp: tl_ok_def)
  ultimately show ?thesis
    using ok r updateFlags_bitmap[of l p FromCPU a] by (auto simp: tl_ok_def l')
qed

lemma allocate_cmd: "allocate fresh p = Inr q \<Longrightarrow> cmd q = cmd p"
  by (auto simp: allocate_def split: if_splits)

lemma replaceUpgrade_cmd:
  assumes "replaceUpgrade fresh p = Inr p'" and r: "isRequest (cmd p)"
  shows "isRequest (cmd p')" and "\<not> isUpgrade (cmd p') \<and> cmd p' \<noteq> StoreCondReq"
proof -
  define c where "c = (if cmd p = UpgradeReq then ReadExReq else if cmd p = SCUpgradeReq then SCUpgradeFailReq
      else if cmd p = StoreCondReq then StoreCondFailReq else cmd p)"
  have "p' = p\<lparr>cmd := c\<rparr> \<or> allocate fresh (p\<lparr>cmd := c\<rparr>) = Inr p'"
    using assms unfolding replaceUpgrade_def Let_def c_def[symmetric] by (auto split: if_splits)
  then have c: "cmd p' = c" using allocate_cmd by fastforce
  show "isRequest (cmd p')"
    using r unfolding c c_def by (auto simp: cmd_table)
  show "\<not> isUpgrade (cmd p') \<and> cmd p' \<noteq> StoreCondReq"
    using r unfolding c c_def by (cases "cmd p") (auto simp: cmd_table)
qed

lemma mapR_set:
  "mapR f xs = Inr ys \<Longrightarrow> y \<in> set ys \<Longrightarrow> \<exists>x \<in> set xs. f x = Inr y"
  by (induction xs arbitrary: ys) auto

lemma mapR_length: "mapR f xs = Inr ys \<Longrightarrow> length ys = length xs"
  by (induction xs arbitrary: ys) auto

lemma replaceUpgrades_ok:
  assumes ok: "tl_ok l" and run: "replaceUpgrades fresh l = Inr l'"
  shows "tl_ok l'"
proof (cases "tl_hasUpgrade l")
  case True
  let ?f = "\<lambda>t. bindR (replaceUpgrade fresh (t_pkt t)) (\<lambda>p. Inr (t\<lparr>t_pkt := p\<rparr>))"
  from True run obtain ts where ts: "mapR ?f (tl_targets l) = Inr ts"
    and l': "l' = l\<lparr>tl_targets := ts, tl_hasUpgrade := False\<rparr>"
    by (auto simp: replaceUpgrades_def)
  have len: "length ts = length (tl_targets l)" by (rule mapR_length[OF ts])
  have "t_source t = FromCPU \<and> isRequest (cmd (t_pkt t))" if t: "t \<in> set ts" for t
  proof -
    from mapR_set[OF ts t] obtain u p where u: "u \<in> set (tl_targets l)"
      "replaceUpgrade fresh (t_pkt u) = Inr p" "t = u\<lparr>t_pkt := p\<rparr>"
      by auto
    then show ?thesis using ok replaceUpgrade_cmd(1)[OF u(2)] by (auto simp: tl_ok_def)
  qed
  moreover have "tl_needsWritable l" using ok True by (simp add: tl_ok_def)
  ultimately show ?thesis
    using ok len by (auto simp: tl_ok_def l' isReset_def)
next
  case False
  then show ?thesis using ok run by (simp add: replaceUpgrades_def)
qed

lemma snoop_replace_upgrades_ok:
  "tl_ok l \<Longrightarrow> snoop_replace_upgrades fresh p l = Inr l' \<Longrightarrow> tl_ok l'"
  by (auto simp: snoop_replace_upgrades_def intro: replaceUpgrades_ok split: if_splits)

lemma replaceUpgrades_length:
  "replaceUpgrades fresh l = Inr l' \<Longrightarrow> length (tl_targets l') = length (tl_targets l)"
  by (auto simp: replaceUpgrades_def dest: mapR_length split: if_splits)

lemma snoop_replace_upgrades_length:
  "snoop_replace_upgrades fresh p l = Inr l' \<Longrightarrow> length (tl_targets l') = length (tl_targets l)"
  by (auto simp: snoop_replace_upgrades_def dest: replaceUpgrades_length split: if_splits)

section \<open>Every operation keeps the register well formed\<close>

lemma tl_init_simps [simp]:
  "tl_targets (tl_init a n l) = tl_targets l"
  "tl_writesBitmap (tl_init a n l) = replicate n False"
  "tl_blkSize (tl_init a n l) = n" "isReset (tl_init a n l)" "\<not> tl_hasUpgrade (tl_init a n l)"
  by (auto simp: tl_init_def resetFlags_def isReset_def min_def)

lemma MSHR_allocate_wf:
  assumes "mshr_getNumTargets m = 0" "0 < n" "MSHR_allocate now a n p t k alloc up m = Inr (up', m')"
  shows "mshr_wf m'" and "\<not> e_inService m'" and "length (targets_of m') = 1" and "deferred_of m' = []"
    and "e_blkAddr m' = a" and "e_secure m' = isSecure p" and "t_pkt (hd (targets_of m')) = p"
proof -
  have e: "targets_of m = []" "deferred_of m = []" using assms(1) by (auto simp: mshr_getNumTargets_def)
  define m1 where "m1 = m\<lparr>e_blkAddr := a, e_blkSize := n, e_secure := isSecure p,
                 e_readyTime := t, e_order := k, isForward := False,
                 wasWholeLineWrite := False, e_uncacheable := isUncacheable (req p),
                 e_inService := False, downstreamPending := False,
                 m_targets := tl_init a n (m_targets m),
                 m_deferred := tl_init a n (m_deferred m)\<rparr>"
  have t1: "m_targets m1 = tl_init a n (m_targets m)" and f: "m_deferred m1 = tl_init a n (m_deferred m)"
    "\<not> e_inService m1" "e_blkAddr m1 = a" "e_secure m1 = isSecure p"
    by (simp_all add: m1_def)
  from assms(3) obtain l where l: "tl_add now p t k (if cmd p = HardPFReq then FromPrefetcher else FromCPU)
      True alloc up (tl_init a n (m_targets m)) = Inr (up', l)"
    and m': "m' = m1\<lparr>m_targets := l\<rparr>"
    unfolding MSHR_allocate_def Let_def m1_def[symmetric] t1 by (auto split: prod.splits)
  have "length (tl_targets l) = 1 \<and> t_pkt (hd (tl_targets l)) = p"
    by (rule tl_add_result[OF l]) (simp add: e)
  then show "length (targets_of m') = 1" "t_pkt (hd (targets_of m')) = p" by (simp_all add: m')
  show "mshr_wf m'" using assms(2) e by (auto simp: mshr_wf_def tl_ok_def m' f list_all_iff)
  show "\<not> e_inService m'" "deferred_of m' = []" "e_blkAddr m' = a" "e_secure m' = isSecure p"
    by (simp_all add: m' e f)
qed

lemma MSHR_allocate_source:
  assumes "mshr_getNumTargets m = 0" "MSHR_allocate now a n p t k alloc up m = Inr (up', m')"
  shows "\<forall>t \<in> set (targets_of m'). t_source t \<noteq> FromSnoop"
proof -
  from assms(2) obtain l m1 where l: "tl_add now p t k (if cmd p = HardPFReq then FromPrefetcher else FromCPU)
      True alloc up (tl_init a n (m_targets m)) = Inr (up', l)" and m': "m' = m1\<lparr>m_targets := l\<rparr>"
    unfolding MSHR_allocate_def Let_def by (auto split: prod.splits)
  have "targets_of m = []" using assms(1) by (auto simp: mshr_getNumTargets_def)
  then show ?thesis by - (rule tl_add_result[OF l], auto simp: m')
qed

lemma MSHR_deallocate_idle:
  assumes "mshr_wf m" "MSHR_deallocate m = Inr m'"
  shows "mshr_wf m' \<and> mshr_getNumTargets m' = 0 \<and> \<not> e_inService m'"
proof -
  from assms(2) have t: "targets_of m = []" and d: "isReset (m_deferred m)"
    and m': "m' = m\<lparr>m_targets := resetFlags (m_targets m), e_inService := False\<rparr>"
    by (auto simp: MSHR_deallocate_def Let_def)
  have "deferred_of m = []"
    using assms(1) t d by (auto simp: mshr_wf_def mshr_getNumTargets_def tl_ok_def split: if_splits)
  with t show ?thesis by (simp add: mshr_wf_def mshr_getNumTargets_def m')
qed

text \<open>Operations that leave the deferred targets as they are.\<close>

lemma mshr_wf_cong: "mshr_wf m \<Longrightarrow> m_deferred m' = m_deferred m \<Longrightarrow>
    (targets_of m = [] \<Longrightarrow> targets_of m' = []) \<Longrightarrow> mshr_wf m'"
  by (auto simp: mshr_wf_def mshr_getNumTargets_def)

lemma clear_targets_pending_map:
  "clear_targets_pending ts up = Inr (up', ts') \<Longrightarrow> map (\<lambda>t. t\<lparr>t_markedPending := False\<rparr>) ts' = map (\<lambda>t. t\<lparr>t_markedPending := False\<rparr>) ts"
proof (induction ts arbitrary: up up' ts')
  case (Cons t ts)
  show ?case
  proof (cases "t_markedPending t")
    case True
    with Cons.prems obtain up1 ts1 where "clear_targets_pending ts up1 = Inr (up', ts1)"
      "ts' = t\<lparr>t_markedPending := False\<rparr> # ts1"
      by (auto split: prod.splits)
    then show ?thesis using Cons.IH by simp
  next
    case False
    with Cons.prems obtain ts1 where "clear_targets_pending ts up = Inr (up', ts1)" "ts' = t # ts1"
      by (auto split: prod.splits)
    then show ?thesis using Cons.IH by simp
  qed
qed simp

lemma clear_targets_pending_length:
  "clear_targets_pending ts up = Inr (up', ts') \<Longrightarrow> length ts' = length ts"
  by (drule clear_targets_pending_map) (metis length_map)

lemma MSHR_markInService_result:
  assumes "MSHR_markInService pm up m = Inr (up', m')"
  obtains ts where "map (\<lambda>t. t\<lparr>t_markedPending := False\<rparr>) ts
      = map (\<lambda>t. t\<lparr>t_markedPending := False\<rparr>) (targets_of m)"
    "m' = m\<lparr>e_inService := True, pendingModified := tl_needsWritable (m_targets m) \<or> pm,
      postInvalidate := False, postDowngrade := False, m_targets := (m_targets m)\<lparr>tl_targets := ts\<rparr>,
      wasWholeLineWrite := tl_isWholeLineWrite ((m_targets m)\<lparr>tl_targets := ts\<rparr>)\<rparr>"
proof (cases "downstreamPending m")
  case True
  with assms show ?thesis
    by (intro that[of "targets_of m"]) (auto simp: MSHR_markInService_def mshr_isWholeLineWrite_def)
next
  case False
  with assms obtain ts where "clear_targets_pending (targets_of m) up = Inr (up', ts)"
    "m' = m\<lparr>e_inService := True, pendingModified := tl_needsWritable (m_targets m) \<or> pm,
      postInvalidate := False, postDowngrade := False, m_targets := (m_targets m)\<lparr>tl_targets := ts\<rparr>,
      wasWholeLineWrite := tl_isWholeLineWrite ((m_targets m)\<lparr>tl_targets := ts\<rparr>)\<rparr>"
    by (auto simp: MSHR_markInService_def tl_clearDownstreamPending_def mshr_isWholeLineWrite_def
        Let_def split: prod.splits)
  then show ?thesis by (intro that[of ts]) (auto dest: clear_targets_pending_map)
qed

lemma MSHR_markInService_wf:
  assumes "mshr_wf m" "MSHR_markInService pm up m = Inr (up', m')"
  shows "mshr_wf m'" and "e_inService m'" and "m_deferred m' = m_deferred m"
    and "e_readyTime m' = e_readyTime m" and "length (targets_of m') = length (targets_of m)"
proof -
  obtain ts where core: "map (\<lambda>t. t\<lparr>t_markedPending := False\<rparr>) ts
      = map (\<lambda>t. t\<lparr>t_markedPending := False\<rparr>) (targets_of m)"
    and m': "m' = m\<lparr>e_inService := True, pendingModified := tl_needsWritable (m_targets m) \<or> pm,
      postInvalidate := False, postDowngrade := False, m_targets := (m_targets m)\<lparr>tl_targets := ts\<rparr>,
      wasWholeLineWrite := tl_isWholeLineWrite ((m_targets m)\<lparr>tl_targets := ts\<rparr>)\<rparr>"
    using MSHR_markInService_result[OF assms(2)] .
  have len: "length ts = length (targets_of m)" using core by (metis length_map)
  show "mshr_wf m'" by (rule mshr_wf_cong[OF assms(1)]) (use len in \<open>auto simp: m'\<close>)
  show "e_inService m'" "m_deferred m' = m_deferred m" "e_readyTime m' = e_readyTime m"
    "length (targets_of m') = length (targets_of m)"
    using len by (simp_all add: m')
qed

section \<open>What waits in a register\<close>

text \<open>
  The requests from above that wait in a list of targets, in order; a snoop that waits
  there is not one of them. \<open>unlocked\<close> excludes the locked read, which stays in the register
  after it was serviced.
\<close>

definition cpu_reqs :: "mshr_target list \<Rightarrow> request list" where
  "cpu_reqs ts = map (\<lambda>t. req (t_pkt t)) (filter (\<lambda>t. t_source t \<noteq> FromSnoop) ts)"

definition waiting :: "mshr \<Rightarrow> mshr_target list" where
  "waiting m = targets_of m @ deferred_of m"

definition unlocked :: "mshr_target list \<Rightarrow> bool" where
  "unlocked ts \<longleftrightarrow> (\<forall>t \<in> set ts. cmd (t_pkt t) \<noteq> LockedRMWReadReq)"

lemma cpu_reqs_append [simp]: "cpu_reqs (xs @ ys) = cpu_reqs xs @ cpu_reqs ys"
  by (simp add: cpu_reqs_def)

lemma cpu_reqs_Nil [simp]: "cpu_reqs [] = []"
  by (simp add: cpu_reqs_def)

lemma unlocked_append [simp]: "unlocked (xs @ ys) \<longleftrightarrow> unlocked xs \<and> unlocked ys"
  by (auto simp: unlocked_def)

lemma unlocked_Nil [simp]: "unlocked []"
  by (simp add: unlocked_def)

text \<open>Two lists of targets that differ only in their pending marks.\<close>

lemma same_core:
  assumes "map (\<lambda>t. t\<lparr>t_markedPending := False\<rparr>) xs = map (\<lambda>t. t\<lparr>t_markedPending := False\<rparr>) ys"
  shows "cpu_reqs xs = cpu_reqs ys" and "unlocked xs = unlocked ys"
proof -
  let ?s = "\<lambda>t. t\<lparr>t_markedPending := False\<rparr>"
  have "cpu_reqs (map ?s zs) = cpu_reqs zs" "unlocked (map ?s zs) = unlocked zs" for zs
    by (induction zs) (auto simp: cpu_reqs_def unlocked_def)
  then show "cpu_reqs xs = cpu_reqs ys" "unlocked xs = unlocked ys"
    using assms by metis+
qed

lemma tl_add_waiting:
  assumes "tl_add now p r k s mark a up l = Inr (up', l')"
  shows "cpu_reqs (tl_targets l') = cpu_reqs (tl_targets l) @ (if s = FromSnoop then [] else [req p])"
    and "unlocked (tl_targets l') \<longleftrightarrow> unlocked (tl_targets l) \<and> cmd p \<noteq> LockedRMWReadReq"
  by (rule tl_add_result[OF assms], auto simp: cpu_reqs_def unlocked_def)+

lemma replaceUpgrade_req:
  assumes "replaceUpgrade fresh p = Inr p'"
  shows "req p' = req p" and "cmd p \<noteq> LockedRMWReadReq \<Longrightarrow> cmd p' \<noteq> LockedRMWReadReq"
proof -
  define c where "c = (if cmd p = UpgradeReq then ReadExReq else if cmd p = SCUpgradeReq then SCUpgradeFailReq
      else if cmd p = StoreCondReq then StoreCondFailReq else cmd p)"
  have d: "p' = p\<lparr>cmd := c\<rparr> \<or> allocate fresh (p\<lparr>cmd := c\<rparr>) = Inr p'"
    using assms unfolding replaceUpgrade_def Let_def c_def[symmetric] by (auto split: if_splits)
  then show "req p' = req p" by (auto simp: allocate_def split: if_splits)
  have "cmd p' = c" using d allocate_cmd by fastforce
  then show "cmd p \<noteq> LockedRMWReadReq \<Longrightarrow> cmd p' \<noteq> LockedRMWReadReq" by (simp add: c_def)
qed

lemma replaceUpgrades_waiting:
  assumes "replaceUpgrades fresh l = Inr l'"
  shows "cpu_reqs (tl_targets l') = cpu_reqs (tl_targets l)"
    and "unlocked (tl_targets l) \<Longrightarrow> unlocked (tl_targets l')"
proof -
  let ?f = "\<lambda>t. bindR (replaceUpgrade fresh (t_pkt t)) (\<lambda>p. Inr (t\<lparr>t_pkt := p\<rparr>))"
  have c: "cpu_reqs ts' = cpu_reqs ts \<and> (unlocked ts \<longrightarrow> unlocked ts')"
    if "mapR ?f ts = Inr ts'" for ts ts'
    using that
  proof (induction ts arbitrary: ts')
    case (Cons t ts)
    then obtain p ts1 where p: "replaceUpgrade fresh (t_pkt t) = Inr p" "mapR ?f ts = Inr ts1"
      "ts' = t\<lparr>t_pkt := p\<rparr> # ts1"
      by auto
    show ?case
      using Cons.IH[OF p(2)] replaceUpgrade_req[OF p(1)] by (auto simp: p(3) cpu_reqs_def unlocked_def)
  qed simp
  show "cpu_reqs (tl_targets l') = cpu_reqs (tl_targets l)"
    "unlocked (tl_targets l) \<Longrightarrow> unlocked (tl_targets l')"
    using assms c by (auto simp: replaceUpgrades_def split: if_splits)
qed

lemma snoop_replace_upgrades_waiting:
  assumes "snoop_replace_upgrades fresh p l = Inr l'"
  shows "cpu_reqs (tl_targets l') = cpu_reqs (tl_targets l)"
    and "unlocked (tl_targets l) \<Longrightarrow> unlocked (tl_targets l')"
  using assms replaceUpgrades_waiting[of fresh l l'] by (auto simp: snoop_replace_upgrades_def split: if_splits)

lemma split_at_locked_unlocked: "unlocked ts \<Longrightarrow> split_at_locked ts = (ts, [])"
  by (induction ts) (auto simp: unlocked_def)

section \<open>Each operation on what waits\<close>

lemma allocateTarget_cases:
  assumes run: "allocateTarget fresh now p r k a up m = Inr (up', m')"
  obtains
    (deferred) p1 l where "targets_of m \<noteq> []"
      "(if e_inService m \<and> postInvalidate m then replaceUpgrade fresh p else Inr p) = Inr p1"
      "tl_add now p1 r k FromCPU True a up (m_deferred m) = Inr (up', l)" "m' = m\<lparr>m_deferred := l\<rparr>"
  | (joined) l where "targets_of m \<noteq> []" "deferred_of m = []" "\<not> (e_inService m \<and> postInvalidate m)"
      "tl_add now p r k FromCPU (\<not> e_inService m) a up (m_targets m) = Inr (up', l)"
      "m' = m\<lparr>m_targets := l\<rparr>"
proof -
  from run obtain tgt where front: "mshr_front m = Inr tgt"
    by (auto simp: allocateTarget_def)
  then have ne: "targets_of m \<noteq> []" by (auto simp: mshr_front_def split: list.splits)
  show ?thesis
  proof (cases "isCacheMaintenance (req p) \<or> isCacheMaintenance (req (t_pkt tgt)) \<or> deferred_of m \<noteq> [] \<or>
      (e_inService m \<and> (postInvalidate m \<or> (needsWritable (cmd p) \<and>
        (\<not> pendingModified m \<or> postDowngrade m \<or> isForward m))))")
    case True
    then obtain p1 l where
      "(if e_inService m \<and> postInvalidate m then replaceUpgrade fresh p else Inr p) = Inr p1"
      "tl_add now p1 r k FromCPU True a up (m_deferred m) = Inr (up', l)" "m' = m\<lparr>m_deferred := l\<rparr>"
      using run front unfolding allocateTarget_def by (auto split: prod.splits)
    then show ?thesis using ne by (intro deferred)
  next
    case False
    then obtain l where
      "tl_add now p r k FromCPU (\<not> e_inService m) a up (m_targets m) = Inr (up', l)"
      "m' = m\<lparr>m_targets := l\<rparr>"
      using run front unfolding allocateTarget_def by (auto split: prod.splits)
    then show ?thesis using False ne by (intro joined) auto
  qed
qed

lemma allocateTarget_waiting:
  assumes wf: "mshr_wf m" and run: "allocateTarget fresh now p r k a up m = Inr (up', m')"
    and rq: "isRequest (cmd p)"
  shows "cpu_reqs (waiting m') = cpu_reqs (waiting m) @ [req p] \<and> mshr_wf m' \<and>
    (unlocked (waiting m) \<longrightarrow> cmd p \<noteq> LockedRMWReadReq \<longrightarrow> unlocked (waiting m'))"
  using run
proof (cases rule: allocateTarget_cases)
  case (deferred p1 l)
  then have ok: "tl_ok (m_deferred m)" using wf by (auto simp: mshr_wf_def mshr_getNumTargets_def)
  have q: "req p1 = req p" "isRequest (cmd p1)"
    "cmd p \<noteq> LockedRMWReadReq \<Longrightarrow> cmd p1 \<noteq> LockedRMWReadReq"
    using deferred(2) rq replaceUpgrade_req[of fresh p p1] replaceUpgrade_cmd[of fresh p p1]
    by (auto split: if_splits)
  have "tl_ok l" by (rule tl_add_ok[OF ok q(2) deferred(3)])
  then show ?thesis
    using tl_add_waiting[OF deferred(3)] q by (auto simp: waiting_def deferred(4) mshr_wf_def)
next
  case (joined l)
  then have ok: "tl_ok (m_deferred m)" using wf by (auto simp: mshr_wf_def mshr_getNumTargets_def)
  show ?thesis
    using tl_add_waiting[OF joined(4)] joined(2) ok by (auto simp: waiting_def joined(5) mshr_wf_def)
qed

lemma Packet_copy_cmd: "Packet_copy fresh p cf ad = Inr q \<Longrightarrow> cmd q = cmd p \<and> req q = req p"
  by (auto simp: Packet_copy_def allocate_def setHtmTransactional_def setHtmTransactionFailedInCache_def
      Let_def split: if_splits)

lemma snoop_save_result:
  assumes "snoop_save fresh now w p k up m = Inr (p', up', m')"
  obtains cp mark l where "cmd cp = cmd p" "tl_add now cp now k FromSnoop mark False up (m_targets m) = Inr (up', l)"
    "m' = m\<lparr>m_targets := l, postInvalidate := postInvalidate m \<or> needsWritable (cmd p) \<or> isInvalidate (cmd p)\<rparr>"
proof -
  from assms obtain cp where
    cp: "(if w then Packet_copy fresh p True True else Inr (Packet_blk (req p) (cmd p) (e_blkSize m))) = Inr cp"
    by (auto simp: snoop_save_def)
  then have "cmd cp = cmd p" by (auto simp: Packet_blk_def dest: Packet_copy_cmd split: if_splits)
  moreover from assms cp obtain l where
    "tl_add now cp now k FromSnoop (downstreamPending m \<and> tl_needsWritable (m_targets m)) False up (m_targets m)
       = Inr (up', l)"
    "m' = m\<lparr>m_targets := l, postInvalidate := postInvalidate m \<or> needsWritable (cmd p) \<or> isInvalidate (cmd p)\<rparr>"
    unfolding snoop_save_def by (auto split: prod.splits)
  ultimately show ?thesis by (rule that)
qed

text \<open>The three ways a snoop can go.\<close>

lemma mshr_handleSnoop_cases:
  assumes "mshr_handleSnoop fresh now p k up m = Inr (w, p', up', m')"
  obtains
    (before) l d where "\<not> e_inService m \<or> (isExpressSnoop p \<and> downstreamPending m)"
      "snoop_replace_upgrades fresh p (m_targets m) = Inr l"
      "snoop_replace_upgrades fresh p (m_deferred m) = Inr d"
      "\<not> w" "up' = up" "m' = m\<lparr>m_targets := l, m_deferred := d\<rparr>"
  | (gone) d t where "e_inService m" "\<not> (isExpressSnoop p \<and> downstreamPending m)"
      "snoop_replace_upgrades fresh p (m_deferred m) = Inr d" "mshr_front m = Inr t"
      "postInvalidate m \<or> isCacheInvalidate (req (t_pkt t))" "w" "up' = up" "m' = m\<lparr>m_deferred := d\<rparr>"
  | (after) d t p1 m2 where "e_inService m" "\<not> (isExpressSnoop p \<and> downstreamPending m)"
      "snoop_replace_upgrades fresh p (m_deferred m) = Inr d" "mshr_front m = Inr t"
      "\<not> postInvalidate m"
      "(if pendingModified m \<or> isInvalidate (cmd p) then snoop_save fresh now w p k up (m\<lparr>m_deferred := d\<rparr>)
        else Inr (p, up, m\<lparr>m_deferred := d\<rparr>)) = Inr (p1, up', m2)"
      "m' = (if \<not> needsWritable (cmd p) \<and> \<not> isUncacheable (req p) then m2\<lparr>postDowngrade := True\<rparr> else m2)"
proof (cases "\<not> e_inService m \<or> (isExpressSnoop p \<and> downstreamPending m)")
  case True
  with assms obtain l d where "snoop_replace_upgrades fresh p (m_targets m) = Inr l"
    "snoop_replace_upgrades fresh p (m_deferred m) = Inr d" "\<not> w" "up' = up"
    "m' = m\<lparr>m_targets := l, m_deferred := d\<rparr>"
    by (auto simp: mshr_handleSnoop_def)
  then show ?thesis using True by (intro before[of l d])
next
  case False
  with assms obtain d where d: "snoop_replace_upgrades fresh p (m_deferred m) = Inr d"
    by (auto simp: mshr_handleSnoop_def Let_def)
  have f: "mshr_front (m\<lparr>m_deferred := d\<rparr>) = mshr_front m" by (simp add: mshr_front_def)
  from assms False d obtain t where t: "mshr_front m = Inr t"
    by (auto simp: mshr_handleSnoop_def Let_def f)
  show ?thesis
  proof (cases "postInvalidate m \<or> isCacheInvalidate (req (t_pkt t))")
    case True
    then show ?thesis
      using assms False d t by (intro gone[of d t]) (auto simp: mshr_handleSnoop_def Let_def f)
  next
    case nopost: False
    let ?w = "pendingModified m \<and> needsResponse (cmd p) \<and> \<not> isClean (cmd p)"
    from assms False d t nopost obtain p1 up1 m2 where
      s: "(if pendingModified m \<or> isInvalidate (cmd p) then snoop_save fresh now ?w p k up (m\<lparr>m_deferred := d\<rparr>)
        else Inr (p, up, m\<lparr>m_deferred := d\<rparr>)) = Inr (p1, up1, m2)"
      and r: "(if \<not> needsWritable (cmd p) \<and> \<not> isUncacheable (req p)
        then Inr (?w, setHasSharers p1, up1, m2\<lparr>postDowngrade := True\<rparr>) else Inr (?w, p1, up1, m2))
        = (Inr (w, p', up', m') :: (bool \<times> packet \<times> nat set \<times> mshr) res)"
      unfolding mshr_handleSnoop_def Let_def panic_when_Inr by (auto simp: f split: prod.splits)
    have "w = ?w" "up' = up1"
      "m' = (if \<not> needsWritable (cmd p) \<and> \<not> isUncacheable (req p) then m2\<lparr>postDowngrade := True\<rparr> else m2)"
      using r by (auto split: if_splits)
    with s nopost show ?thesis using False d t by (intro after[of d t p1 m2]) auto
  qed
qed

lemma mshr_wf_replace:
  assumes "mshr_wf m" "snoop_replace_upgrades fresh p (m_deferred m) = Inr d" "m_deferred m' = d"
    and "targets_of m = [] \<Longrightarrow> targets_of m' = []"
  shows "mshr_wf m'"
  using assms snoop_replace_upgrades_ok[of "m_deferred m" fresh p d] snoop_replace_upgrades_length[OF assms(2)]
  by (auto simp: mshr_wf_def mshr_getNumTargets_def)

lemma mshr_handleSnoop_waiting:
  assumes wf: "mshr_wf m"
    and run: "mshr_handleSnoop fresh now p k up m = Inr (w, p', up', m')"
  shows "cpu_reqs (waiting m') = cpu_reqs (waiting m) \<and> mshr_wf m' \<and>
    (unlocked (waiting m) \<longrightarrow> cmd p \<noteq> LockedRMWReadReq \<longrightarrow> unlocked (waiting m')) \<and>
    e_inService m' = e_inService m \<and> e_readyTime m' = e_readyTime m"
  using run
proof (cases rule: mshr_handleSnoop_cases)
  case (before l d)
  have "targets_of m = [] \<Longrightarrow> tl_targets l = []"
    using snoop_replace_upgrades_length[OF before(2)] by auto
  then have "mshr_wf m'" using mshr_wf_replace[OF wf before(3)] by (simp add: before(6))
  then show ?thesis
    using snoop_replace_upgrades_waiting[OF before(2)] snoop_replace_upgrades_waiting[OF before(3)]
    by (simp add: before(6) waiting_def)
next
  case (gone d t)
  have "mshr_wf m'" using mshr_wf_replace[OF wf gone(3)] by (simp add: gone(8))
  then show ?thesis
    using snoop_replace_upgrades_waiting[OF gone(3)] by (simp add: gone(8) waiting_def)
next
  case (after d t p1 m2)
  have ne: "targets_of m \<noteq> []" using after(4) by (auto simp: mshr_front_def split: list.splits)
  have m2: "cpu_reqs (targets_of m2) = cpu_reqs (targets_of m) \<and> m_deferred m2 = d \<and>
      (unlocked (waiting m) \<longrightarrow> cmd p \<noteq> LockedRMWReadReq \<longrightarrow> unlocked (targets_of m2)) \<and>
      e_inService m2 = e_inService m \<and> e_readyTime m2 = e_readyTime m"
  proof (cases "pendingModified m \<or> isInvalidate (cmd p)")
    case True
    with after(6) have s: "snoop_save fresh now w p k up (m\<lparr>m_deferred := d\<rparr>) = Inr (p1, up', m2)" by simp
    show ?thesis
    proof (rule snoop_save_result[OF s])
      fix cp mark l assume c: "cmd cp = cmd p"
        and l: "tl_add now cp now k FromSnoop mark False up (m_targets (m\<lparr>m_deferred := d\<rparr>)) = Inr (up', l)"
        and e: "m2 = m\<lparr>m_deferred := d, m_targets := l, postInvalidate := postInvalidate (m\<lparr>m_deferred := d\<rparr>) \<or>
            needsWritable (cmd p) \<or> isInvalidate (cmd p)\<rparr>"
      show ?thesis
        using tl_add_waiting[OF l] by (simp add: e c waiting_def)
    qed
  next
    case False
    then show ?thesis using after(6) by (auto simp: waiting_def)
  qed
  have m': "m_targets m' = m_targets m2" "m_deferred m' = m_deferred m2" "e_inService m' = e_inService m2"
    "e_readyTime m' = e_readyTime m2"
    using after(7) by simp_all
  have "mshr_wf m'" using mshr_wf_replace[OF wf after(3)] m2 ne by (simp add: m')
  then show ?thesis
    using m2 snoop_replace_upgrades_waiting[OF after(3)] by (simp add: m' waiting_def)
qed

lemma unlocked_filter: "unlocked ts \<Longrightarrow> unlocked (filter P ts)"
  by (auto simp: unlocked_def)

lemma extract_wf:
  assumes "mshr_wf m" "extractServiceableTargets p m = Inr (r, m')"
  shows "mshr_wf m'"
proof (rule mshr_wf_cong[OF assms(1)])
  show "m_deferred m' = m_deferred m"
    using assms(2) by (auto simp: extractServiceableTargets_def Let_def split: if_splits list.splits prod.splits)
  show "targets_of m' = []" if "targets_of m = []"
    using assms(2) that by (auto simp: extractServiceableTargets_def Let_def split: if_splits)
qed

lemma extract_waiting:
  assumes wf: "mshr_wf m" and un: "unlocked (waiting m)"
    and run: "extractServiceableTargets p m = Inr (r, m')"
  shows "cpu_reqs (waiting m) = cpu_reqs (tl_targets r) @ cpu_reqs (waiting m')" (is ?order)
    and "mshr_wf m' \<and> unlocked (waiting m') \<and> m_deferred m' = m_deferred m" (is ?wf)
proof -
  let ?ready0 = "tl_init (e_blkAddr m) (e_blkSize m) TargetList_new"
  have unt: "unlocked (targets_of m)" using un by (simp add: waiting_def)
  obtain ready rest where r: "tl_targets r = ready" and m': "targets_of m' = rest" "m_deferred m' = m_deferred m"
    and c: "cpu_reqs (targets_of m) = cpu_reqs ready @ cpu_reqs rest" and u: "unlocked rest"
    and e: "targets_of m = [] \<Longrightarrow> rest = []"
  proof (cases "cmd p = ReadRespWithInvalidate")
    case True
    with run obtain t ts where t: "targets_of m = t # ts"
      by (auto simp: extractServiceableTargets_def Let_def split: list.splits)
    have nl: "cmd (t_pkt t) \<noteq> LockedRMWReadReq" using unt by (simp add: t unlocked_def)
    from True run t nl have src: "t_source t = FromCPU \<or> t_source t = FromPrefetcher"
      "list_all (\<lambda>u. t_source u = FromCPU \<or> t_source u = FromSnoop) ts"
      and rr: "tl_targets r = t # filter (\<lambda>u. t_source u \<noteq> FromCPU) ts"
      "targets_of m' = filter (\<lambda>u. t_source u = FromCPU) ts" "m_deferred m' = m_deferred m"
      by (auto simp: extractServiceableTargets_def Let_def)
    have "cpu_reqs (filter (\<lambda>u. t_source u \<noteq> FromCPU) ts) = []"
      using src(2) by (auto simp: cpu_reqs_def filter_empty_conv list_all_iff)
    moreover have "cpu_reqs (filter (\<lambda>u. t_source u = FromCPU) ts) = cpu_reqs ts"
      unfolding cpu_reqs_def filter_filter
      using src(2) by (intro arg_cong[where f = "map _"] filter_cong) (auto simp: list_all_iff)
    ultimately have "cpu_reqs (targets_of m) = cpu_reqs (t # filter (\<lambda>u. t_source u \<noteq> FromCPU) ts)
        @ cpu_reqs (filter (\<lambda>u. t_source u = FromCPU) ts)"
      using src(1) by (auto simp: t cpu_reqs_def)
    with rr unt show ?thesis
      by (intro that) (auto simp: t unlocked_def)
  next
    case False
    with run split_at_locked_unlocked[OF unt] have "tl_targets r = targets_of m" "targets_of m' = []"
      "m_deferred m' = m_deferred m"
      by (auto simp: extractServiceableTargets_def Let_def)
    then show ?thesis by (intro that) auto
  qed
  show ?order using c by (simp add: waiting_def r m')
  show ?wf using mshr_wf_cong[OF wf, of m'] un u e by (auto simp: waiting_def m')
qed

text \<open>Promotion moves targets from the deferred to the regular ones without reordering them.\<close>

lemma mshr_wf_promote:
  assumes wf: "mshr_wf m" and l: "m_deferred m' = populateFlags ((m_deferred m)\<lparr>tl_targets := stay\<rparr>)"
    and s: "set stay \<subseteq> set (deferred_of m)" and d: "deferred_of m \<noteq> [] \<or> targets_of m \<noteq> []"
  shows "mshr_wf m'"
proof -
  have ok: "tl_ok (m_deferred m)" using wf d by (auto simp: mshr_wf_def mshr_getNumTargets_def)
  then have "tl_ok (populateFlags ((m_deferred m)\<lparr>tl_targets := stay\<rparr>))"
    using s by (intro populateFlags_ok) (auto simp: tl_ok_def)
  then show ?thesis by (simp add: mshr_wf_def l)
qed

lemma promoteDeferredTargets_waiting:
  assumes wf: "mshr_wf m" and run: "promoteDeferredTargets now m = Inr (b, m')"
  shows "waiting m' = waiting m" and "mshr_wf m'" and "b \<longleftrightarrow> waiting m \<noteq> []"
    and "b \<Longrightarrow> targets_of m' \<noteq> []"
proof -
  have "waiting m' = waiting m \<and> mshr_wf m' \<and> b = (waiting m \<noteq> []) \<and> (b \<longrightarrow> targets_of m' \<noteq> [])"
  proof (cases "targets_of m = [] \<and> deferred_of m = []")
    case True
    then show ?thesis using run wf by (auto simp: promoteDeferredTargets_def waiting_def)
  next
    case False
    define ok where "ok = (\<lambda>t :: mshr_target. \<not> isCacheMaintenance (req (t_pkt t)))"
    define ms where "ms = (if takeWhile ok (deferred_of m) = []
        then (if targets_of m = [] then (take 1 (deferred_of m), drop 1 (deferred_of m)) else ([], deferred_of m))
        else (takeWhile ok (deferred_of m), dropWhile ok (deferred_of m)))"
    have ms: "fst ms @ snd ms = deferred_of m" "set (snd ms) \<subseteq> set (deferred_of m)"
      by (auto simp: ms_def dest: set_dropWhileD in_set_dropD)
    define m1 where "m1 = m\<lparr>m_deferred := populateFlags ((m_deferred m)\<lparr>tl_targets := snd ms\<rparr>),
        m_targets := populateFlags ((m_targets m)\<lparr>tl_targets := targets_of m @ fst ms\<rparr>)\<rparr>"
    have "promoteDeferredTargets now m = bindR (mshr_front m1)
        (\<lambda>t. Inr (True, m1\<lparr>e_order := t_order t, e_readyTime := max now (t_readyTime t)\<rparr>))"
      using False unfolding promoteDeferredTargets_def Let_def ok_def[symmetric] ms_def[symmetric]
      by (auto simp: m1_def case_prod_beta)
    with run obtain t where t: "mshr_front m1 = Inr t" "b"
      "m' = m1\<lparr>e_order := t_order t, e_readyTime := max now (t_readyTime t)\<rparr>"
      by auto
    have "waiting m' = waiting m" using ms(1) by (simp add: waiting_def t(3) m1_def)
    moreover have "mshr_wf m'"
      by (rule mshr_wf_promote[OF wf _ ms(2)]) (use False in \<open>auto simp: t(3) m1_def\<close>)
    moreover have "targets_of m' \<noteq> []"
      using t(1) by (auto simp: t(3) mshr_front_def split: list.splits)
    ultimately show ?thesis using t(2) False by (auto simp: waiting_def)
  qed
  then show "waiting m' = waiting m" "mshr_wf m'" "b \<longleftrightarrow> waiting m \<noteq> []" "b \<Longrightarrow> targets_of m' \<noteq> []"
    by auto
qed

lemma spanR_append: "spanR P xs = Inr (a, b) \<Longrightarrow> xs = a @ b"
proof (induction xs arbitrary: a b)
  case (Cons x xs)
  from Cons.prems obtain v where "P x = Inr v" by auto
  then show ?case using Cons by (cases v) (auto split: prod.splits)
qed simp

lemma promoteIf_waiting:
  assumes wf: "mshr_wf m" and d: "deferred_of m \<noteq> []" and run: "promoteIf P up m = Inr (up', m')"
  shows "cpu_reqs (waiting m') = cpu_reqs (waiting m) \<and> mshr_wf m' \<and>
    (unlocked (waiting m) \<longrightarrow> unlocked (waiting m'))"
proof -
  from run obtain moved stay moved' where sp: "spanR P (deferred_of m) = Inr (moved, stay)"
    and cl: "clear_targets_pending moved up = Inr (up', moved')"
    and m': "m' = m\<lparr>m_targets := (m_targets m)\<lparr>tl_targets := targets_of m @ moved'\<rparr>,
                    m_deferred := populateFlags ((m_deferred m)\<lparr>tl_targets := stay\<rparr>)\<rparr>"
    by (auto simp: promoteIf_def split: prod.splits)
  note eq = spanR_append[OF sp]
  note core = same_core[OF clear_targets_pending_map[OF cl]]
  have "mshr_wf m'"
    by (rule mshr_wf_promote[OF wf, where stay = stay]) (use eq d in \<open>auto simp: m'\<close>)
  then show ?thesis using core by (auto simp: waiting_def m' eq)
qed

lemma promoteReadable_waiting:
  assumes "mshr_wf m" "promoteReadable up m = Inr (up', m')"
  shows "cpu_reqs (waiting m') = cpu_reqs (waiting m) \<and> mshr_wf m' \<and>
    (unlocked (waiting m) \<longrightarrow> unlocked (waiting m'))"
  using assms promoteIf_waiting[OF assms(1), of _ up up' m']
  by (auto simp: promoteReadable_def split: if_splits)

lemma promoteWritable_waiting:
  assumes "mshr_wf m" "promoteWritable up m = Inr (up', m')"
  shows "cpu_reqs (waiting m') = cpu_reqs (waiting m) \<and> mshr_wf m' \<and>
    (unlocked (waiting m) \<longrightarrow> unlocked (waiting m'))"
proof (cases "m' = m")
  case True
  then show ?thesis using assms by simp
next
  case False
  let ?m = "m\<lparr>m_targets := (m_targets m)\<lparr>tl_needsWritable := True\<rparr>\<rparr>"
  have wf: "mshr_wf ?m" by (rule mshr_wf_cong[OF assms(1)]) auto
  from False assms(2) obtain P where "promoteIf P up ?m = Inr (up', m')" "deferred_of ?m \<noteq> []"
    by (auto simp: promoteWritable_def split: list.splits if_splits)
  from promoteIf_waiting[OF wf this(2,1)] show ?thesis by (simp add: waiting_def)
qed

lemma functional_pkt_keeps:
  "trySatisfyFunctional_pkt p other = Inr (d, p', other') \<Longrightarrow> req other' = req other \<and> cmd other' = cmd other"
  by (auto simp: trySatisfyFunctional_pkt_def split: if_splits)

lemma targets_functional_waiting:
  "targets_functional p ts = Inr (d, p', ts') \<Longrightarrow>
   cpu_reqs ts' = cpu_reqs ts \<and> unlocked ts' = unlocked ts \<and> map t_source ts' = map t_source ts \<and>
   map (\<lambda>t. cmd (t_pkt t)) ts' = map (\<lambda>t. cmd (t_pkt t)) ts"
proof (induction ts arbitrary: p d p' ts')
  case (Cons t ts)
  obtain fin p1 o1 where t: "trySatisfyFunctional_pkt p (t_pkt t) = Inr (fin, p1, o1)"
    using Cons.prems by (auto split: prod.splits)
  note k = functional_pkt_keeps[OF t]
  show ?case
  proof (cases fin)
    case True
    then show ?thesis using Cons.prems t k by (auto simp: cpu_reqs_def unlocked_def)
  next
    case False
    with Cons.prems t obtain ts1 where "targets_functional p1 ts = Inr (d, p', ts1)"
      "ts' = t\<lparr>t_pkt := o1\<rparr> # ts1"
      by (auto split: prod.splits)
    then show ?thesis using Cons.IH[of p1 d p' ts1] k by (auto simp: cpu_reqs_def unlocked_def)
  qed
qed simp

lemma tl_functional_waiting:
  assumes "tl_trySatisfyFunctional p l = Inr (d, p', l')"
  shows "cpu_reqs (tl_targets l') = cpu_reqs (tl_targets l) \<and> unlocked (tl_targets l') = unlocked (tl_targets l)"
    and "tl_ok l' = tl_ok l" and "length (tl_targets l') = length (tl_targets l)"
proof -
  from assms obtain ts where ts: "targets_functional p (tl_targets l) = Inr (d, p', ts)"
    and l': "l' = l\<lparr>tl_targets := ts\<rparr>"
    by (auto simp: tl_trySatisfyFunctional_def split: prod.splits)
  note k = targets_functional_waiting[OF ts]
  show "cpu_reqs (tl_targets l') = cpu_reqs (tl_targets l) \<and> unlocked (tl_targets l') = unlocked (tl_targets l)"
    using k by (simp add: l')
  show len: "length (tl_targets l') = length (tl_targets l)"
    using k by (simp add: l') (metis length_map)
  have q: "(\<forall>t \<in> set xs. t_source t = FromCPU \<and> isRequest (cmd (t_pkt t))) \<longleftrightarrow>
      list_all (\<lambda>s. s = FromCPU) (map t_source xs) \<and> list_all isRequest (map (\<lambda>t. cmd (t_pkt t)) xs)" for xs
    by (auto simp: list_all_iff)
  have "(\<forall>t \<in> set ts. t_source t = FromCPU \<and> isRequest (cmd (t_pkt t))) =
      (\<forall>t \<in> set (tl_targets l). t_source t = FromCPU \<and> isRequest (cmd (t_pkt t)))"
    unfolding q using k by presburger
  moreover have "ts = [] \<longleftrightarrow> tl_targets l = []" using len by (auto simp: l')
  ultimately show "tl_ok l' = tl_ok l" unfolding tl_ok_def l' by simp
qed

lemma mshr_functional_waiting:
  assumes "mshr_trySatisfyFunctional p m = Inr (d, p', m')"
  shows "cpu_reqs (waiting m') = cpu_reqs (waiting m) \<and> unlocked (waiting m') = unlocked (waiting m) \<and>
    mshr_wf m' = mshr_wf m \<and> e_inService m' = e_inService m \<and> e_readyTime m' = e_readyTime m \<and>
    mshr_getNumTargets m' = mshr_getNumTargets m"
proof (cases "isPrint (cmd p)")
  case True
  then show ?thesis using assms by (auto simp: mshr_trySatisfyFunctional_def split: prod.splits)
next
  case False
  with assms obtain d1 p1 l where l: "tl_trySatisfyFunctional p (m_targets m) = Inr (d1, p1, l)"
    by (auto simp: mshr_trySatisfyFunctional_def split: prod.splits)
  note k = tl_functional_waiting[OF l]
  show ?thesis
  proof (cases d1)
    case True
    then have "m' = m\<lparr>m_targets := l\<rparr>"
      using assms l \<open>\<not> isPrint (cmd p)\<close> by (auto simp: mshr_trySatisfyFunctional_def)
    then show ?thesis using k by (simp add: waiting_def mshr_wf_def mshr_getNumTargets_def)
  next
    case False
    with assms l \<open>\<not> isPrint (cmd p)\<close> obtain d2 p2 l2 where
      l2: "tl_trySatisfyFunctional p1 (m_deferred m) = Inr (d2, p2, l2)"
      and m': "m' = m\<lparr>m_targets := l, m_deferred := l2\<rparr>"
      by (auto simp: mshr_trySatisfyFunctional_def split: prod.splits)
    show ?thesis
      using k tl_functional_waiting[OF l2] by (simp add: m' waiting_def mshr_wf_def mshr_getNumTargets_def)
  qed
qed

section \<open>The life of a register\<close>

text \<open>
  \<open>mshr_run acc srv m\<close>: a register in state \<open>m\<close> has accepted the requests \<open>acc\<close> and handed
  out the requests \<open>srv\<close> for service, through any interleaving of the operations the cache
  performs on it. Locked read-modify-write sequences are left out: their read stays in the
  register after it was serviced.
\<close>

inductive mshr_run :: "request list \<Rightarrow> request list \<Rightarrow> mshr \<Rightarrow> bool" where
  alloc: "mshr_getNumTargets m = 0 \<Longrightarrow> 0 < n \<Longrightarrow> cmd p \<noteq> LockedRMWReadReq \<Longrightarrow>
    MSHR_allocate now a n p t k al up m = Inr (up', m') \<Longrightarrow> mshr_run [req p] [] m'"
| add: "mshr_run acc srv m \<Longrightarrow> isRequest (cmd p) \<Longrightarrow> cmd p \<noteq> LockedRMWReadReq \<Longrightarrow>
    allocateTarget fresh now p t k al up m = Inr (up', m') \<Longrightarrow> mshr_run (acc @ [req p]) srv m'"
| send: "mshr_run acc srv m \<Longrightarrow> MSHR_markInService pm up m = Inr (up', m') \<Longrightarrow> mshr_run acc srv m'"
| snoop: "mshr_run acc srv m \<Longrightarrow> cmd p \<noteq> LockedRMWReadReq \<Longrightarrow>
    mshr_handleSnoop fresh now p k up m = Inr (w, p', up', m') \<Longrightarrow> mshr_run acc srv m'"
| response: "mshr_run acc srv m \<Longrightarrow> extractServiceableTargets p m = Inr (r, m') \<Longrightarrow>
    mshr_run acc (srv @ cpu_reqs (tl_targets r)) m'"
| readable: "mshr_run acc srv m \<Longrightarrow> promoteReadable up m = Inr (up', m') \<Longrightarrow> mshr_run acc srv m'"
| writable: "mshr_run acc srv m \<Longrightarrow> promoteWritable up m = Inr (up', m') \<Longrightarrow> mshr_run acc srv m'"
| promote: "mshr_run acc srv m \<Longrightarrow> promoteDeferredTargets now m = Inr (b, m') \<Longrightarrow> mshr_run acc srv m'"
| functional: "mshr_run acc srv m \<Longrightarrow> mshr_trySatisfyFunctional p m = Inr (d, p', m') \<Longrightarrow> mshr_run acc srv m'"
| pending: "mshr_run acc srv m \<Longrightarrow> mshr_run acc srv (m\<lparr>e_inService := False\<rparr>)"

lemma MSHR_markInService_waiting:
  assumes "MSHR_markInService pm up m = Inr (up', m')"
  shows "cpu_reqs (waiting m') = cpu_reqs (waiting m) \<and> unlocked (waiting m') = unlocked (waiting m)"
proof (rule MSHR_markInService_result[OF assms])
  fix ts
  assume c: "map (\<lambda>t. t\<lparr>t_markedPending := False\<rparr>) ts
      = map (\<lambda>t. t\<lparr>t_markedPending := False\<rparr>) (targets_of m)"
    and m': "m' = m\<lparr>e_inService := True, pendingModified := tl_needsWritable (m_targets m) \<or> pm,
      postInvalidate := False, postDowngrade := False, m_targets := (m_targets m)\<lparr>tl_targets := ts\<rparr>,
      wasWholeLineWrite := tl_isWholeLineWrite ((m_targets m)\<lparr>tl_targets := ts\<rparr>)\<rparr>"
  show ?thesis using same_core[OF c] by (simp add: waiting_def m')
qed

lemma mshr_run_inv:
  "mshr_run acc srv m \<Longrightarrow> mshr_wf m \<and> unlocked (waiting m) \<and> srv @ cpu_reqs (waiting m) = acc"
proof (induction rule: mshr_run.induct)
  case (alloc m n p now a t k al up up' m')
  note w = MSHR_allocate_wf[OF alloc(1,2,4)]
  have "deferred_of m' = []" "length (targets_of m') = 1" "t_pkt (hd (targets_of m')) = p" using w by auto
  moreover have "\<forall>t \<in> set (targets_of m'). t_source t \<noteq> FromSnoop"
    using MSHR_allocate_source[OF alloc(1,4)] by blast
  ultimately show ?case using w(1) alloc(3)
    by (cases "targets_of m'") (auto simp: waiting_def cpu_reqs_def unlocked_def)
next
  case (add acc srv m p fresh now t k al up up' m')
  then show ?case using allocateTarget_waiting[of m fresh now p t k al up up' m'] by auto
next
  case (send acc srv m pm up up' m')
  then show ?case using MSHR_markInService_waiting[OF send(2)] MSHR_markInService_wf(1)[OF _ send(2)] by auto
next
  case (snoop acc srv m p fresh now k up w p' up' m')
  then show ?case using mshr_handleSnoop_waiting[of m fresh now p k up w p' up' m'] by auto
next
  case (response acc srv m p r m')
  then show ?case using extract_waiting[of m p r m'] by auto
next
  case (readable acc srv m up up' m')
  then show ?case using promoteReadable_waiting[of m up up' m'] by auto
next
  case (writable acc srv m up up' m')
  then show ?case using promoteWritable_waiting[of m up up' m'] by auto
next
  case (promote acc srv m now b m')
  then show ?case using promoteDeferredTargets_waiting[of m now b m'] by auto
next
  case (functional acc srv m p d p' m')
  then show ?case using mshr_functional_waiting[of p m d p' m'] by auto
next
  case (pending acc srv m)
  then show ?case by (auto simp: waiting_def mshr_wf_def mshr_getNumTargets_def)
qed

section \<open>Properties of the register\<close>

definition sample_line :: "mem_cmd \<Rightarrow> addr \<Rightarrow> packet" where
  "sample_line c a = (sample_functional c)\<lparr>pkt_addr := a, pkt_size := 64,
     req := (sample_request 0)\<lparr>paddr := a\<rparr>\<rparr>"

definition sample_fresh :: "nat \<Rightarrow> byte list" where
  "sample_fresh n = replicate n 0"

definition sample_mshr1 :: mshr where
  "sample_mshr1 = snd (projr (MSHR_allocate 5 0x40 64 (sample_line ReadReq 0x40) 10 1 True {} MSHR_new))"

definition sample_mshr2 :: mshr where
  "sample_mshr2 = snd (projr (MSHR_markInService False {} sample_mshr1))"

definition sample_mshr3 :: mshr where
  "sample_mshr3 =
     snd (projr (allocateTarget sample_fresh 12 (sample_line WriteReq 0x40) 20 2 True {} sample_mshr2))"

definition sample_mshr4 :: mshr where
  "sample_mshr4 = snd (projr (extractServiceableTargets (sample_line ReadResp 0x40) sample_mshr3))"

lemma sample_mshr_runs:
  "\<not> isl (MSHR_allocate 5 0x40 64 (sample_line ReadReq 0x40) 10 1 True {} MSHR_new)"
  "\<not> isl (MSHR_markInService False {} sample_mshr1)"
  "\<not> isl (allocateTarget sample_fresh 12 (sample_line WriteReq 0x40) 20 2 True {} sample_mshr2)"
  "\<not> isl (extractServiceableTargets (sample_line ReadResp 0x40) sample_mshr3)"
  by code_simp+

lemma sample_mshr_run:
  "mshr_run [req (sample_line ReadReq 0x40), req (sample_line WriteReq 0x40)]
     (cpu_reqs (tl_targets (fst (projr (extractServiceableTargets (sample_line ReadResp 0x40) sample_mshr3)))))
     sample_mshr4"
proof -
  have "mshr_run [req (sample_line ReadReq 0x40)] [] sample_mshr1"
    unfolding sample_mshr1_def
    by (rule mshr_run.alloc[OF _ _ _ ran_pair[OF sample_mshr_runs(1)]]) code_simp+
  then have "mshr_run [req (sample_line ReadReq 0x40)] [] sample_mshr2"
    unfolding sample_mshr2_def by (rule mshr_run.send[OF _ ran_pair[OF sample_mshr_runs(2)]])
  then have "mshr_run ([req (sample_line ReadReq 0x40)] @ [req (sample_line WriteReq 0x40)]) [] sample_mshr3"
    unfolding sample_mshr3_def
    by (rule mshr_run.add[OF _ _ _ ran_pair[OF sample_mshr_runs(3)]]) code_simp+
  from mshr_run.response[OF this ran_pair[OF sample_mshr_runs(4)]] show ?thesis
    unfolding sample_mshr4_def by simp
qed




definition sample_snooped :: mshr where
  "sample_snooped = snd (snd (snd (projr
     (mshr_handleSnoop sample_fresh 11 (sample_line ReadExReq 0x40) 3 {} sample_mshr2))))"

lemma sample_snoop_runs:
  "\<not> isl (mshr_handleSnoop sample_fresh 11 (sample_line ReadExReq 0x40) 3 {} sample_mshr2)"
  "\<not> isl (allocateTarget sample_fresh 12 (deleteData (sample_line UpgradeReq 0x40)) 20 4 True
     (fst (snd (snd (projr (mshr_handleSnoop sample_fresh 11 (sample_line ReadExReq 0x40) 3 {} sample_mshr2)))))
     sample_snooped)"
  "e_inService sample_mshr2" "\<not> downstreamPending sample_mshr2" "isInvalidate (cmd (sample_line ReadExReq 0x40))"
  "targets_of sample_mshr2 \<noteq> []" "\<not> isCacheInvalidate (req (t_pkt (hd (targets_of sample_mshr2))))"
  "isRequest (cmd (deleteData (sample_line UpgradeReq 0x40)))"
  by code_simp+


lemma no_merge_keeps:
  assumes "\<not> tl_canMergeWrites l"
  shows "tl_writesBitmap (updateFlags p s a l) = tl_writesBitmap l"
    and "\<not> tl_canMergeWrites (updateFlags p s a l)"
  using assms by (auto simp: updateFlags_def updateWriteFlags_def Let_def)

definition never_merges :: "target_list \<Rightarrow> bool" where
  "never_merges l \<longleftrightarrow> \<not> tl_canMergeWrites l \<and> \<not> tl_isWholeLineWrite l"

lemma tl_add_never_merges:
  assumes "never_merges l" "tl_add now p r k s mark a up l = Inr (up', l')"
  shows "never_merges l'"
  by (rule tl_add_result[OF assms(2)])
    (use assms(1) no_merge_keeps[of l p s a] in \<open>auto simp: never_merges_def tl_isWholeLineWrite_def\<close>)

lemma allocateTarget_never_merges:
  assumes nm: "never_merges (m_targets m)" and run: "allocateTarget fresh now p r k a up m = Inr (up', m')"
  shows "never_merges (m_targets m')"
  using run by (cases rule: allocateTarget_cases) (use nm tl_add_never_merges in auto)

text \<open>
  C21. A copy to the scratchpad reads its source line, whatever is merged into its register
  later: from the moment the register is allocated for it, and after any sequence of further
  targets, the register does not count as a whole-line write, nor does it when it is sent, so
  the fill is never replaced by the data of the writes.
\<close>

theorem cptospm_never_whole_line:
  assumes "cmd p = CPTOSPMReq" "0 < n" "mshr_getNumTargets m = 0"
    and alloc: "MSHR_allocate now a n p t k al up m = Inr (up1, m1)"
    and adds: "foldR (\<lambda>(q, t, k, al) (up, m). allocateTarget fresh now q t k al up m) qs (up1, m1)
      = Inr (up2, m2)"
    and send: "MSHR_markInService pm up2 m2 = Inr (up3, m3)"
  shows "\<not> mshr_isWholeLineWrite m2 \<and> \<not> wasWholeLineWrite m3"
proof -
  from alloc assms(1) obtain l m0 where l: "tl_add now p t k FromCPU True al up (tl_init a n (m_targets m)) = Inr (up1, l)"
    and m1: "m1 = m0\<lparr>m_targets := l\<rparr>"
    unfolding MSHR_allocate_def Let_def by (auto split: prod.splits)
  have "never_merges l"
    by (rule tl_add_result[OF l])
      (use assms(1,2) in \<open>auto simp: never_merges_def tl_isWholeLineWrite_def updateFlags_def
         updateWriteFlags_def Let_def list_all_iff\<close>)
  then have "never_merges (m_targets (snd (up1, m1)))" by (simp add: m1)
  with adds have "never_merges (m_targets (snd (up2, m2)))"
    by (rule foldR_invariant[where P = "\<lambda>s. never_merges (m_targets (snd s))"])
      (auto intro: allocateTarget_never_merges)
  then have "\<not> tl_isWholeLineWrite (m_targets m2)" by (simp add: never_merges_def)
  then show ?thesis
    by - (rule MSHR_markInService_result[OF send],
        auto simp: mshr_isWholeLineWrite_def tl_isWholeLineWrite_def)
qed

definition sample_cptospm1 :: mshr where
  "sample_cptospm1 =
     snd (projr (MSHR_allocate 5 0x40 64 (sample_line CPTOSPMReq 0x40) 10 1 True {} MSHR_new))"

definition sample_adds :: "(packet \<times> tick \<times> nat \<times> bool) list" where
  "sample_adds = [(sample_line WriteLineReq 0x40, 20, 2, True)]"

definition sample_cptospm2 :: "nat set \<times> mshr" where
  "sample_cptospm2 = projr (foldR (\<lambda>(q, t, k, al) (up, m). allocateTarget sample_fresh 5 q t k al up m)
     sample_adds
     (fst (projr (MSHR_allocate 5 0x40 64 (sample_line CPTOSPMReq 0x40) 10 1 True {} MSHR_new)), sample_cptospm1))"

lemma sample_cptospm_runs:
  "\<not> isl (MSHR_allocate 5 0x40 64 (sample_line CPTOSPMReq 0x40) 10 1 True {} MSHR_new)"
  "\<not> isl (foldR (\<lambda>(q, t, k, al) (up, m). allocateTarget sample_fresh 5 q t k al up m) sample_adds
     (fst (projr (MSHR_allocate 5 0x40 64 (sample_line CPTOSPMReq 0x40) 10 1 True {} MSHR_new)), sample_cptospm1))"
  "\<not> isl (MSHR_markInService False (fst sample_cptospm2) (snd sample_cptospm2))"
  "cmd (sample_line CPTOSPMReq 0x40) = CPTOSPMReq" "mshr_getNumTargets MSHR_new = 0"
  by code_simp+

theorem cptospm_never_whole_line_witness:
  "length (targets_of (snd sample_cptospm2)) = 2 \<and> \<not> mshr_isWholeLineWrite (snd sample_cptospm2)"
proof (intro conjI)
  show "length (targets_of (snd sample_cptospm2)) = 2" by code_simp
  show "\<not> mshr_isWholeLineWrite (snd sample_cptospm2)"
    unfolding sample_cptospm2_def sample_cptospm1_def
    by (rule conjunct1[OF cptospm_never_whole_line[OF sample_cptospm_runs(4) zero_less_numeral
        sample_cptospm_runs(5) ran_pair[OF sample_cptospm_runs(1)]
        ran_pair[OF sample_cptospm_runs(2)[unfolded sample_cptospm1_def]]
        ran_pair[OF sample_cptospm_runs(3)[unfolded sample_cptospm2_def sample_cptospm1_def]]]])
qed

end
