(* ===== verification/MSHR_Queue.thy ===== *)
theory MSHR_Queue
  imports MSHR
begin

text \<open>
  The MSHR queue (src/gem5/src/mem/cache/mshr_queue.hh and mshr_queue.cc): the entry queue of
  theory Queue with miss-status holding registers as its entries. The number of entries
  reserved for demand accesses is an argument of \<open>canPrefetch\<close>; \<open>up\<close> is the set of upstream
  registers marked pending, as in theory MSHR.
\<close>

section \<open>Operations\<close>

definition MSHRQueue_new :: "nat \<Rightarrow> nat \<Rightarrow> mshr queue" where
  "MSHRQueue_new = Queue_new MSHR_new"

definition mq_allocate ::
  "tick \<Rightarrow> addr \<Rightarrow> nat \<Rightarrow> packet \<Rightarrow> tick \<Rightarrow> nat \<Rightarrow> bool \<Rightarrow> nat set \<Rightarrow> mshr queue \<Rightarrow>
   (nat \<times> nat set \<times> mshr queue) res" where
  "mq_allocate now blk_addr blk_size pkt when_ready ord alloc_on_fill up q =
     (case freeList q of [] \<Rightarrow> Inl Assertion
      | i # _ \<Rightarrow>
          must (mshr_getNumTargets (entry_at q i) = 0)
            (bindR (MSHR_allocate now blk_addr blk_size pkt when_ready ord alloc_on_fill up (entry_at q i))
              (\<lambda>(up', m). bindR (queue_allocate mshr_getNumTargets (\<lambda>_. Inr m) q)
                (\<lambda>(j, q'). Inr (j, up', q')))))"

definition mq_deallocate :: "nat \<Rightarrow> mshr queue \<Rightarrow> mshr queue res" where
  "mq_deallocate i q = queue_deallocate MSHR_deallocate i q"

definition moveToFront :: "nat \<Rightarrow> mshr queue \<Rightarrow> mshr queue" where
  "moveToFront i q =
     (if \<not> e_inService (entry_at q i) then q\<lparr>readyList := i # remove1 i (readyList q)\<rparr> else q)"

text \<open>
  \<open>delay\<close> looks from the entry's own position for the first entry that is not ready later
  than it and moves the entry in front of that one.
\<close>

definition mq_delay :: "tick \<Rightarrow> nat \<Rightarrow> nat \<Rightarrow> mshr queue \<Rightarrow> mshr queue res" where
  "mq_delay now i delay_ticks q =
     bindR (mshr_delay now delay_ticks (entry_at q i)) (\<lambda>m.
       let q1 = upd_entry i m q;
           pre = takeWhile (\<lambda>j. j \<noteq> i) (readyList q1);
           suf = dropWhile (\<lambda>j. j \<noteq> i) (readyList q1);
           later = (\<lambda>j. \<not> (e_readyTime (entry_at q1 i) \<ge> e_readyTime (entry_at q1 j)));
           before = takeWhile later suf
       in Inr (if before = [] then q1
               else q1\<lparr>readyList := pre @ tl before @ i # dropWhile later suf\<rparr>))"

definition mq_markInService :: "nat \<Rightarrow> bool \<Rightarrow> nat set \<Rightarrow> mshr queue \<Rightarrow> (nat set \<times> mshr queue) res" where
  "mq_markInService i pending_modified_resp up q =
     bindR (MSHR_markInService pending_modified_resp up (entry_at q i)) (\<lambda>(up', m).
       Inr (up', (upd_entry i m q)\<lparr>readyList := remove1 i (readyList q),
                                   numInService := numInService q + 1\<rparr>))"

definition mq_markPending :: "nat \<Rightarrow> mshr queue \<Rightarrow> mshr queue res" where
  "mq_markPending i q =
     must (e_inService (entry_at q i))
       (addToReadyList i
         ((upd_entry i ((entry_at q i)\<lparr>e_inService := False\<rparr>) q)\<lparr>numInService := numInService q - 1\<rparr>))"

definition forceDeallocateTarget :: "tick \<Rightarrow> nat \<Rightarrow> mshr queue \<Rightarrow> (bool \<times> mshr queue) res" where
  "forceDeallocateTarget now i q =
     (let was_full = isFull q in
      must (mshr_hasTargets (entry_at q i))
        (let m1 = mshr_popTarget (entry_at q i) in
         bindR (if mshr_hasTargets m1 then Inr (upd_entry i m1 q)
                else bindR (promoteDeferredTargets now m1) (\<lambda>(promoted, m2).
                       if promoted then Inr (upd_entry i m2 q)
                       else mq_deallocate i (upd_entry i m2 q)))
           (\<lambda>q'. Inr (was_full \<and> \<not> isFull q', q'))))"

definition havePending :: "mshr queue \<Rightarrow> bool" where
  "havePending q \<longleftrightarrow> readyList q \<noteq> []"

definition canPrefetch :: "nat \<Rightarrow> mshr queue \<Rightarrow> bool" where
  "canPrefetch demandReserve q \<longleftrightarrow>
     allocated q < int (numEntries q) - (int (numReserve q) + 1 + int demandReserve)"

definition mq_findMatch :: "addr \<Rightarrow> bool \<Rightarrow> mshr queue \<Rightarrow> nat option res" where
  "mq_findMatch a sec q = findMatch mshr_hasTargets a sec True q"

definition mq_trySatisfyFunctional :: "packet \<Rightarrow> mshr queue \<Rightarrow> (bool \<times> packet \<times> mshr queue) res" where
  "mq_trySatisfyFunctional p q =
     queue_trySatisfyFunctional mshr_hasTargets mshr_trySatisfyFunctional p q"

section \<open>The queue keeps its invariant\<close>

interpretation mq: queue_entries mshr_getNumTargets MSHR_deallocate mshr_wf
  by unfold_locales (rule MSHR_deallocate_idle)

abbreviation mq_inv :: "mshr queue \<Rightarrow> bool" where
  "mq_inv \<equiv> queue_inv mshr_getNumTargets mshr_wf"

lemma mq_inv_new: "mq_inv (MSHRQueue_new n r)"
  by (auto simp: queue_inv_def MSHRQueue_new_def Queue_new_def queue_wf_def entry_at_def MSHR_new_def
      QueueEntry_new_def TargetList_new_def mshr_getNumTargets_def mshr_wf_def qentry.defs)

lemma mq_inv_upd:
  assumes "mq_inv q" "i \<in> set (allocatedList q)" "mshr_wf m" "e_inService m = e_inService (entry_at q i)"
  shows "mq_inv (upd_entry i m q)"
proof -
  have "i \<notin> set (freeList q)" using assms(1,2) by (auto simp: queue_inv_def queue_wf_def)
  then show ?thesis
    using assms queue_wf_upd[of q m i] by (auto simp: queue_inv_def)
qed

lemma mq_allocate_result:
  assumes "mq_allocate now a n p t k al up q = Inr (i, up', q')"
  obtains rest m where "freeList q = i # rest" "mshr_getNumTargets (entry_at q i) = 0"
    "MSHR_allocate now a n p t k al up (entry_at q i) = Inr (up', m)"
    "queue_allocate mshr_getNumTargets (\<lambda>_. Inr m) q = Inr (i, q')"
proof -
  from assms obtain j rest m where w: "freeList q = j # rest" "mshr_getNumTargets (entry_at q j) = 0"
    "MSHR_allocate now a n p t k al up (entry_at q j) = Inr (up', m)"
    "queue_allocate mshr_getNumTargets (\<lambda>_. Inr m) q = Inr (i, q')"
    by (auto simp: mq_allocate_def split: list.splits prod.splits)
  then have "j = i" by (auto simp: queue_allocate_def)
  with w show ?thesis by (intro that) auto
qed

lemma mq_allocate_inv:
  assumes inv: "mq_inv q" and n: "0 < n" and run: "mq_allocate now a n p t k al up q = Inr (i, up', q')"
  shows "mq_inv q'" and "allocatedList q' = allocatedList q @ [i]" and "i \<notin> set (allocatedList q)"
    and "targets_of (entry_at q' i) \<noteq> []" and "e_blkAddr (entry_at q' i) = a"
proof -
  obtain rest m where w: "freeList q = i # rest" "mshr_getNumTargets (entry_at q i) = 0"
    "MSHR_allocate now a n p t k al up (entry_at q i) = Inr (up', m)"
    "queue_allocate mshr_getNumTargets (\<lambda>_. Inr m) q = Inr (i, q')"
    using mq_allocate_result[OF run] .
  note al = MSHR_allocate_wf[OF w(2) n w(3)]
  have law: "\<forall>e e'. mshr_wf e \<longrightarrow> mshr_getNumTargets e = 0 \<longrightarrow> Inr m = (Inr e' :: mshr res) \<longrightarrow>
      mshr_wf e' \<and> \<not> e_inService e'"
    using al(1,2) by simp
  note r = mq.allocate_inv[OF inv law w(4)]
  have "entry_at q' i = m" using r(4) by simp
  then show "targets_of (entry_at q' i) \<noteq> []" "e_blkAddr (entry_at q' i) = a" using al(3,5) by auto
  show "mq_inv q'" "allocatedList q' = allocatedList q @ [i]" "i \<notin> set (allocatedList q)"
    using r(1,2,3) by auto
qed

lemma mq_markInService_inv:
  assumes inv: "mq_inv q" and i: "i \<in> set (readyList q)" and run: "mq_markInService i pm up q = Inr (up', q')"
  shows "mq_inv q'" and "allocatedList q' = allocatedList q" and "i \<notin> set (readyList q')"
proof -
  from run obtain m where m: "MSHR_markInService pm up (entry_at q i) = Inr (up', m)"
    and q': "q' = (upd_entry i m q)\<lparr>readyList := remove1 i (readyList q), numInService := numInService q + 1\<rparr>"
    by (auto simp: mq_markInService_def split: prod.splits)
  have wf: "queue_wf q" and al: "i \<in> set (allocatedList q)" and small: "i < numEntries q"
    and nf: "i \<notin> set (freeList q)"
    using inv i by (auto simp: queue_inv_def queue_wf_def)
  note w = MSHR_markInService_wf[OF _ m]
  have "mshr_wf (entry_at q i)" using inv small by (auto simp: queue_inv_def)
  note w = w[OF this]
  have "queue_wf q'" unfolding q' by (rule queue_wf_serve[OF wf i w(2)])
  then show "mq_inv q'" using inv w(1) nf by (auto simp: queue_inv_def q')
  show "allocatedList q' = allocatedList q" by (simp add: q')
  show "i \<notin> set (readyList q')" using wf by (simp add: q' queue_wf_def)
qed

lemma mshr_wf_inService [simp]: "mshr_wf (m\<lparr>e_inService := b\<rparr>) = mshr_wf m"
  by (simp add: mshr_wf_def mshr_getNumTargets_def)

text \<open>Putting a register back never fails.\<close>

lemma mq_markPending_inv:
  assumes inv: "mq_inv q" and i: "i \<in> set (allocatedList q)" "e_inService (entry_at q i)"
  obtains q' where "mq_markPending i q = Inr q'" "mq_inv q'" "allocatedList q' = allocatedList q"
    "i \<in> set (readyList q')"
proof -
  have wf: "queue_wf q" and nf: "i \<notin> set (freeList q)" and small: "i < numEntries q"
    using inv i by (auto simp: queue_inv_def queue_wf_def)
  let ?m = "(entry_at q i)\<lparr>e_inService := False\<rparr>"
  obtain l where l: "addToReadyList i ((upd_entry i ?m q)\<lparr>numInService := numInService q - 1\<rparr>)
       = Inr ((upd_entry i ?m q)\<lparr>numInService := numInService q - 1, readyList := l\<rparr>)"
    "queue_wf ((upd_entry i ?m q)\<lparr>numInService := numInService q - 1, readyList := l\<rparr>)" "i \<in> set l"
    using queue_wf_pend[OF wf i, of ?m] by auto
  let ?q = "(upd_entry i ?m q)\<lparr>numInService := numInService q - 1, readyList := l\<rparr>"
  have "mshr_wf (entry_at ?q j)" if "j < numEntries q" for j
    using inv that by (auto simp: queue_inv_def)
  with l(2) inv nf have "mq_inv ?q" by (auto simp: queue_inv_def)
  with l i show ?thesis by (intro that[of ?q]) (auto simp: mq_markPending_def)
qed

section \<open>Operations on one register inside the queue\<close>

definition mq_entry_step :: "mshr \<Rightarrow> mshr \<Rightarrow> bool" where
  "mq_entry_step m m' \<longleftrightarrow>
     (\<exists>fresh now p t k al up up'. isRequest (cmd p) \<and>
        allocateTarget fresh now p t k al up m = Inr (up', m')) \<or>
     (\<exists>fresh now p k up w p' up'.
        mshr_handleSnoop fresh now p k up m = Inr (w, p', up', m')) \<or>
     (\<exists>p r. extractServiceableTargets p m = Inr (r, m')) \<or>
     (\<exists>up up'. promoteReadable up m = Inr (up', m')) \<or>
     (\<exists>up up'. promoteWritable up m = Inr (up', m')) \<or>
     (\<exists>now b. promoteDeferredTargets now m = Inr (b, m'))"

lemma inService_keeps:
  "allocateTarget fresh now p t k al up m = Inr (up', m') \<Longrightarrow> e_inService m' = e_inService m"
  "extractServiceableTargets p m = Inr (r, m') \<Longrightarrow> e_inService m' = e_inService m"
  "promoteIf P up m = Inr (up', m') \<Longrightarrow> e_inService m' = e_inService m"
  "promoteDeferredTargets now m = Inr (b, m') \<Longrightarrow> e_inService m' = e_inService m"
proof -
  show "allocateTarget fresh now p t k al up m = Inr (up', m') \<Longrightarrow> e_inService m' = e_inService m"
    by (erule allocateTarget_cases) auto
  show "extractServiceableTargets p m = Inr (r, m') \<Longrightarrow> e_inService m' = e_inService m"
    by (auto simp: extractServiceableTargets_def Let_def split: if_splits list.splits prod.splits)
  show "promoteIf P up m = Inr (up', m') \<Longrightarrow> e_inService m' = e_inService m"
    by (auto simp: promoteIf_def split: prod.splits)
  show "promoteDeferredTargets now m = Inr (b, m') \<Longrightarrow> e_inService m' = e_inService m"
    by (auto simp: promoteDeferredTargets_def Let_def split: if_splits prod.splits)
qed

lemma promote_inService:
  "promoteReadable up m = Inr (up', m') \<Longrightarrow> e_inService m' = e_inService m"
  "promoteWritable up m = Inr (up', m') \<Longrightarrow> e_inService m' = e_inService m"
  by (auto simp: promoteReadable_def promoteWritable_def dest!: inService_keeps(3)
      split: if_splits list.splits)

lemma mq_entry_step_wf:
  assumes "mq_entry_step m m'" "mshr_wf m"
  shows "mshr_wf m' \<and> e_inService m' = e_inService m"
  using assms(1) unfolding mq_entry_step_def
proof (elim disjE exE conjE)
  fix fresh now p t k al up up'
  assume "isRequest (cmd p)" "allocateTarget fresh now p t k al up m = Inr (up', m')"
  then show ?thesis using allocateTarget_waiting[OF assms(2)] inService_keeps(1) by blast
next
  fix fresh now p k up w p' up'
  assume "mshr_handleSnoop fresh now p k up m = Inr (w, p', up', m')"
  then show ?thesis using mshr_handleSnoop_waiting[OF assms(2)] by blast
next
  fix p r assume "extractServiceableTargets p m = Inr (r, m')"
  then show ?thesis using extract_wf[OF assms(2)] inService_keeps(2) by blast
next
  fix up up' assume "promoteReadable up m = Inr (up', m')"
  then show ?thesis using promoteReadable_waiting[OF assms(2)] promote_inService(1) by blast
next
  fix up up' assume "promoteWritable up m = Inr (up', m')"
  then show ?thesis using promoteWritable_waiting[OF assms(2)] promote_inService(2) by blast
next
  fix now b assume "promoteDeferredTargets now m = Inr (b, m')"
  then show ?thesis using promoteDeferredTargets_waiting(2)[OF assms(2)] inService_keeps(4) by blast
qed

lemma mshr_popTarget_wf:
  "mshr_wf m \<Longrightarrow> mshr_hasTargets m \<Longrightarrow> mshr_wf (mshr_popTarget m) \<and> e_inService (mshr_popTarget m) = e_inService m"
  by (auto simp: mshr_wf_def mshr_popTarget_def mshr_hasTargets_def mshr_getNumTargets_def)

lemma mq_deallocate_inv:
  assumes "mq_inv q" "i \<in> set (allocatedList q)" "mq_deallocate i q = Inr q'"
  shows "mq_inv q'"
  using mq.deallocate_inv(1)[OF assms(1,2)] assms(3) by (simp add: mq_deallocate_def)

lemma forceDeallocateTarget_inv:
  assumes inv: "mq_inv q" and i: "i \<in> set (allocatedList q)"
    and run: "forceDeallocateTarget now i q = Inr (b, q')"
  shows "mq_inv q'"
proof -
  let ?m = "mshr_popTarget (entry_at q i)"
  from run have ht: "mshr_hasTargets (entry_at q i)" by (auto simp: forceDeallocateTarget_def Let_def)
  have "mshr_wf (entry_at q i)" using inv i by (auto simp: queue_inv_def queue_wf_def)
  then have w: "mshr_wf ?m" "e_inService ?m = e_inService (entry_at q i)"
    using mshr_popTarget_wf ht by auto
  have upd: "mq_inv (upd_entry i m q) \<and> i \<in> set (allocatedList (upd_entry i m q))"
    if "mshr_wf m" "e_inService m = e_inService (entry_at q i)" for m
    using mq_inv_upd[OF inv i that] i by simp
  show ?thesis
  proof (cases "mshr_hasTargets ?m")
    case True
    then show ?thesis using run ht upd[OF w] by (auto simp: forceDeallocateTarget_def Let_def)
  next
    case False
    with run ht obtain pr m2 where pr: "promoteDeferredTargets now ?m = Inr (pr, m2)"
      and q': "(if pr then Inr (upd_entry i m2 q) else mq_deallocate i (upd_entry i m2 q)) = Inr q'"
      by (auto simp: forceDeallocateTarget_def Let_def split: prod.splits)
    have m2: "mshr_wf m2" "e_inService m2 = e_inService (entry_at q i)"
      using promoteDeferredTargets_waiting(2)[OF w(1) pr] inService_keeps(4)[OF pr] w(2) by auto
    show ?thesis using q' upd[OF m2] mq_deallocate_inv by (cases pr) auto
  qed
qed

lemma mq_inv_ready:
  assumes "mq_inv q" "distinct l" "set l = set (readyList q)"
  shows "mq_inv (q\<lparr>readyList := l\<rparr>)"
  using assms by (auto simp: queue_inv_def queue_wf_def)

lemma moveToFront_inv:
  assumes "mq_inv q" "i \<in> set (allocatedList q)"
  shows "mq_inv (moveToFront i q)"
proof (cases "e_inService (entry_at q i)")
  case False
  then have "i \<in> set (readyList q)" "distinct (readyList q)"
    using assms by (auto simp: queue_inv_def queue_wf_def)
  then have "distinct (i # remove1 i (readyList q))" "set (i # remove1 i (readyList q)) = set (readyList q)"
    by auto
  from mq_inv_ready[OF assms(1) this] False show ?thesis by (simp add: moveToFront_def)
qed (use assms in \<open>simp add: moveToFront_def\<close>)

text \<open>
  The search of \<open>mq_delay\<close> starts at the delayed entry, which is not later than itself, so
  it stops there: the list is never changed.
\<close>

lemma mq_delay_result:
  assumes "mq_delay now i d q = Inr q'" "i \<in> set (readyList q)"
  shows "e_readyTime (entry_at q i) \<le> now" and "q' = upd_entry i ((entry_at q i)\<lparr>e_readyTime := now + d\<rparr>) q"
proof -
  obtain zs where "dropWhile (\<lambda>j. j \<noteq> i) (readyList q) = i # zs"
    using assms(2) by (metis (mono_tags, lifting) dropWhile_eq_Nil_conv hd_dropWhile list.collapse)
  then show "e_readyTime (entry_at q i) \<le> now" "q' = upd_entry i ((entry_at q i)\<lparr>e_readyTime := now + d\<rparr>) q"
    using assms(1) by (auto simp: mq_delay_def mshr_delay_def Let_def)
qed

section \<open>Every history of the queue\<close>

inductive mq_reachable :: "nat \<Rightarrow> nat \<Rightarrow> mshr queue \<Rightarrow> bool" for n r where
  start: "mq_reachable n r (MSHRQueue_new n r)"
| alloc: "mq_reachable n r q \<Longrightarrow> 0 < b \<Longrightarrow> mq_allocate now a b p t k al up q = Inr (i, up', q') \<Longrightarrow>
    mq_reachable n r q'"
| entry: "mq_reachable n r q \<Longrightarrow> i \<in> set (allocatedList q) \<Longrightarrow> mq_entry_step (entry_at q i) m \<Longrightarrow>
    mq_reachable n r (upd_entry i m q)"
| send: "mq_reachable n r q \<Longrightarrow> i \<in> set (readyList q) \<Longrightarrow> mq_markInService i pm up q = Inr (up', q') \<Longrightarrow>
    mq_reachable n r q'"
| pend: "mq_reachable n r q \<Longrightarrow> i \<in> set (allocatedList q) \<Longrightarrow> mq_markPending i q = Inr q' \<Longrightarrow>
    mq_reachable n r q'"
| free: "mq_reachable n r q \<Longrightarrow> i \<in> set (allocatedList q) \<Longrightarrow> mq_deallocate i q = Inr q' \<Longrightarrow>
    mq_reachable n r q'"
| force: "mq_reachable n r q \<Longrightarrow> i \<in> set (allocatedList q) \<Longrightarrow> forceDeallocateTarget now i q = Inr (b, q') \<Longrightarrow>
    mq_reachable n r q'"
| front: "mq_reachable n r q \<Longrightarrow> i \<in> set (allocatedList q) \<Longrightarrow> mq_reachable n r (moveToFront i q)"
| delayed: "mq_reachable n r q \<Longrightarrow> i \<in> set (readyList q) \<Longrightarrow> mq_delay now i d q = Inr q' \<Longrightarrow>
    mq_reachable n r q'"
| functional: "mq_reachable n r q \<Longrightarrow> mq_trySatisfyFunctional p q = Inr (d, p', q') \<Longrightarrow>
    mq_reachable n r q'"

definition same_size :: "mshr queue \<Rightarrow> mshr queue \<Rightarrow> bool" where
  "same_size q q' \<longleftrightarrow> numEntries q' = numEntries q \<and> numReserve q' = numReserve q"

lemma same_size_ops:
  "mq_allocate now a b p t k al up q = Inr (i, up', q') \<Longrightarrow> same_size q q'"
  "mq_markInService i pm up q = Inr (up', q') \<Longrightarrow> same_size q q'"
  "mq_markPending i q = Inr q' \<Longrightarrow> same_size q q'"
  "mq_deallocate i q = Inr q' \<Longrightarrow> same_size q q'"
proof -
  show "mq_allocate now a b p t k al up q = Inr (i, up', q') \<Longrightarrow> same_size q q'"
    by (erule mq_allocate_result) (auto simp: same_size_def dest: queue_allocate_size)
  show "mq_markInService i pm up q = Inr (up', q') \<Longrightarrow> same_size q q'"
    by (auto simp: mq_markInService_def same_size_def split: prod.splits)
  show "mq_markPending i q = Inr q' \<Longrightarrow> same_size q q'"
    by (auto simp: mq_markPending_def same_size_def dest!: addToReadyList_size)
  show "mq_deallocate i q = Inr q' \<Longrightarrow> same_size q q'"
    unfolding mq_deallocate_def same_size_def by (rule queue_deallocate_fields(4))
qed

lemma force_same_size:
  assumes "forceDeallocateTarget now i q = Inr (b, q')"
  shows "same_size q q'"
proof -
  let ?m = "mshr_popTarget (entry_at q i)"
  show ?thesis
  proof (cases "mshr_hasTargets ?m")
    case True
    then show ?thesis using assms by (auto simp: forceDeallocateTarget_def Let_def same_size_def)
  next
    case False
    with assms obtain pr m2 where
      q': "(if pr then Inr (upd_entry i m2 q) else mq_deallocate i (upd_entry i m2 q)) = Inr q'"
      by (auto simp: forceDeallocateTarget_def Let_def split: prod.splits)
    then show ?thesis
      by (cases pr) (auto simp: same_size_def dest: same_size_ops(4)[unfolded same_size_def])
  qed
qed

lemma mq_functional_inv:
  assumes "mq_trySatisfyFunctional p q = Inr (d, p', q')" "mq_inv q"
  shows "mq_inv q' \<and> same_size q q'"
proof
  note run = assms(1)[unfolded mq_trySatisfyFunctional_def queue_trySatisfyFunctional_def]
  show "mq_inv q'"
  proof (rule functional_loop_invariant[where P = mq_inv, OF run assms(2)])
    fix p q i fin p1 e1
    assume inv: "mq_inv q" and f: "mshr_trySatisfyFunctional p (entry_at q i) = Inr (fin, p1, e1)"
    then show "mq_inv (upd_entry i e1 q)"
      using mshr_functional_waiting[OF f] queue_wf_upd[of q e1 i] by (auto simp: queue_inv_def)
  qed
  show "same_size q q'" using functional_loop_size[OF run] by (simp add: same_size_def)
qed

lemma mq_reachable_inv:
  "mq_reachable n r q \<Longrightarrow> mq_inv q \<and> numEntries q = n + r \<and> numReserve q = r"
proof (induction rule: mq_reachable.induct)
  case start
  show ?case using mq_inv_new by (simp add: MSHRQueue_new_def Queue_new_def)
next
  case (alloc q b now a p t k al up i up' q')
  then show ?case using mq_allocate_inv(1) same_size_ops(1) unfolding same_size_def by metis
next
  case (entry q i m)
  then have "mshr_wf (entry_at q i)" by (auto simp: queue_inv_def queue_wf_def)
  then show ?case using entry mq_entry_step_wf mq_inv_upd by auto
next
  case (send q i pm up up' q')
  then show ?case using mq_markInService_inv(1) same_size_ops(2) unfolding same_size_def by metis
next
  case (pend q i q')
  then have "e_inService (entry_at q i)" by (simp add: mq_markPending_def)
  from mq_markPending_inv[of q i] pend this have "mq_inv q'" by (metis sum.inject(2))
  then show ?case using pend same_size_ops(3) unfolding same_size_def by metis
next
  case (free q i q')
  then show ?case using mq_deallocate_inv same_size_ops(4) unfolding same_size_def by metis
next
  case (force q i now b q')
  then show ?case using forceDeallocateTarget_inv force_same_size unfolding same_size_def by metis
next
  case (front q i)
  then show ?case using moveToFront_inv[of q i] by (simp add: moveToFront_def)
next
  case (delayed q i now d q')
  have al: "i \<in> set (allocatedList q)" using delayed by (auto simp: queue_inv_def queue_wf_def)
  have "mshr_wf ((entry_at q i)\<lparr>e_readyTime := now + d\<rparr>)"
    using delayed al by (auto simp: queue_inv_def queue_wf_def mshr_wf_def mshr_getNumTargets_def)
  then show ?case
    using delayed mq_delay_result(2)[OF delayed(3,2)] al mq_inv_upd[of q i] by simp
next
  case (functional q p d p' q')
  then show ?case using mq_functional_inv unfolding same_size_def by metis
qed

section \<open>Properties of the queue\<close>

definition sample_mq1 :: "mshr queue" where
  "sample_mq1 = snd (snd (projr
     (mq_allocate 5 0x40 64 (sample_line ReadReq 0x40) 10 1 True {} (MSHRQueue_new 2 1))))"

definition sample_mq2 :: "mshr queue" where
  "sample_mq2 = snd (snd (projr
     (mq_allocate 6 0x80 64 (sample_line ReadReq 0x80) 11 2 True {} sample_mq1)))"

lemma sample_mq_runs:
  "\<not> isl (mq_allocate 5 0x40 64 (sample_line ReadReq 0x40) 10 1 True {} (MSHRQueue_new 2 1))"
  "\<not> isl (mq_allocate 6 0x80 64 (sample_line ReadReq 0x80) 11 2 True {} sample_mq1)"
  by code_simp+

lemma sample_mq_reachable: "mq_reachable 2 1 sample_mq2"
proof -
  have "mq_reachable 2 1 sample_mq1"
    unfolding sample_mq1_def
    by (rule mq_reachable.alloc[OF mq_reachable.start zero_less_numeral ran_triple[OF sample_mq_runs(1)]])
  then show ?thesis
    unfolding sample_mq2_def
    by (rule mq_reachable.alloc[OF _ zero_less_numeral ran_triple[OF sample_mq_runs(2)]])
qed

text \<open>
  C22. The MSHR queue is sound in every state the cache can bring it to: the entries are
  divided between the allocated and the free ones, the allocated ones between those waiting
  to be sent and those in service, and the counters agree; a queue that does not report full
  has more than its reserve of free entries; a free entry has no target left, so taking one
  never trips the assertion in \<open>allocate\<close>; and an entry in service can always be made
  pending again, because the insertion into the ready list never reaches its panic.
\<close>

theorem mshr_queue_sound:
  assumes "mq_reachable n r q"
  shows "length (allocatedList q) + length (freeList q) = n + r \<and>
    allocated q = int (length (allocatedList q)) \<and>
    allocated q = int (length (readyList q)) + numInService q \<and>
    (\<not> isFull q \<longrightarrow> r < length (freeList q)) \<and>
    (\<forall>i \<in> set (freeList q). mshr_getNumTargets (entry_at q i) = 0) \<and>
    (\<forall>i rest m. freeList q = i # rest \<and>
       MSHR_allocate now a b p t k al up (entry_at q i) = Inr (up', m) \<longrightarrow>
       (\<exists>q'. mq_allocate now a b p t k al up q = Inr (i, up', q'))) \<and>
    (\<forall>i \<in> set (allocatedList q). e_inService (entry_at q i) \<longrightarrow> (\<exists>q'. mq_markPending i q = Inr q'))"
proof -
  have inv: "mq_inv q" and sz: "numEntries q = n + r" "numReserve q = r"
    using mq_reachable_inv[OF assms] by auto
  have wf: "queue_wf q" and free: "\<forall>i \<in> set (freeList q). mshr_getNumTargets (entry_at q i) = 0"
    using inv by (auto simp: queue_inv_def)
  have al: "allocated q = int (length (allocatedList q))" using wf by (simp add: queue_wf_def)
  note c = queue_wf_count[OF wf]
  have full: "r < length (freeList q)" if "\<not> isFull q"
    using that c(2) al sz by (simp add: isFull_def)
  have alloc: "\<exists>q'. mq_allocate now a b p t k al up q = Inr (i, up', q')"
    if "freeList q = i # rest" "MSHR_allocate now a b p t k al up (entry_at q i) = Inr (up', m)" for i rest m
    using mq.allocate_total[OF inv that(1), of "\<lambda>_. Inr m"] that free by (auto simp: mq_allocate_def)
  have pend: "\<exists>q'. mq_markPending i q = Inr q'"
    if "i \<in> set (allocatedList q)" "e_inService (entry_at q i)" for i
    using mq_markPending_inv[OF inv that] by metis
  have "length (allocatedList q) + length (freeList q) = n + r" using c(2) sz(1) by simp
  with c(1) al full free alloc pend show ?thesis by blast
qed

theorem mshr_queue_sound_witness:
  "length (allocatedList sample_mq2) + length (freeList sample_mq2) = 3 \<and>
   allocated sample_mq2 = int (length (readyList sample_mq2)) + numInService sample_mq2"
proof -
  have "length (allocatedList sample_mq2) + length (freeList sample_mq2) = 2 + 1"
    "allocated sample_mq2 = int (length (readyList sample_mq2)) + numInService sample_mq2"
    using mshr_queue_sound[OF sample_mq_reachable] by blast+
  then show ?thesis by simp
qed

text \<open>
  C24. Delaying a register does not let the others pass. The list of pending registers is left
  as it was, because the search for the new position starts at the delayed register itself;
  so when the register at the head is delayed, the queue offers nothing until the delay is
  over, even if another register is ready. The declaration of \<open>delay\<close> promises that
  registers ready earlier are moved to the top.
\<close>

theorem delayed_head_blocks_queue:
  assumes "mq_delay now i d q = Inr q'" "readyList q = i # others" "i < length (entries q)"
  shows "readyList q' = readyList q \<and> (\<forall>t. getNext t q' = (if now + d \<le> t then Some i else None))"
proof -
  have "i \<in> set (readyList q)" using assms(2) by simp
  from mq_delay_result(2)[OF assms(1) this] show ?thesis
    using assms(2,3) by (auto simp: getNext_def)
qed

definition sample_delayed :: "mshr queue" where
  "sample_delayed = projr (mq_delay 20 0 50 sample_mq2)"

lemma sample_delayed_runs:
  "\<not> isl (mq_delay 20 0 50 sample_mq2)" "readyList sample_mq2 = [0, 1]" "0 < length (entries sample_mq2)"
  "e_readyTime (entry_at sample_delayed 1) = 11"
  by code_simp+

theorem delayed_head_blocks_queue_witness:
  "getNext 30 sample_delayed = None \<and> e_readyTime (entry_at sample_delayed 1) \<le> 30 \<and>
   1 \<in> set (readyList sample_delayed)"
proof -
  have "mq_delay 20 0 50 sample_mq2 = Inr sample_delayed"
    using sample_delayed_runs(1) by (cases "mq_delay 20 0 50 sample_mq2") (auto simp: sample_delayed_def)
  from delayed_head_blocks_queue[OF this sample_delayed_runs(2,3)] show ?thesis
    using sample_delayed_runs(2,4) by simp
qed

end
