(* ===== verification/Cache_State.thy ===== *)
theory Cache_State
  imports Set_Assoc_Tags MSHR_Queue Write_Queue
begin

text \<open>
  The state of a cache (\<^verbatim>\<open>BaseCache\<close>, src/gem5/src/mem/cache/base.hh and base.cc) and what its
  access, fill and snoop paths are made of: flow control towards the requestors, the clock, the
  write allocator, the temporary block, the latencies, and the operations on one block that
  keep its data and coherence state (\<^verbatim>\<open>Cache\<close>, src/gem5/src/mem/cache/cache.cc, for those it
  overrides).

  The constants of a configured cache are the record \<open>cache_cfg\<close>, its variables the record
  \<open>cache\<close>. What is handed to the port queues (responses, snoop responses, send events,
  requests accepted below) is recorded in the state, latest last. An address range is the
  predicate of the addresses it contains. The cache has no prefetcher and no compressor; the
  probes and the statistics only observe and are left out. Options read from the process
  environment are fields of the configuration. A handler gets the configuration, the
  replacement policy, the current tick with the random numbers, and the contents of freshly
  allocated memory as one argument, \<open>cx\<close>.
\<close>

section \<open>Write allocation mode\<close>

datatype write_mode = ALLOCATE | COALESCE | NO_ALLOCATE

record write_allocator =
  wa_mode :: write_mode
  nextAddr :: addr
  byteCount :: "32 word"
  coalesceLimit :: "32 word"
  noAllocateLimit :: "32 word"
  delayThreshold :: "32 word"
  delayCtr :: "addr \<rightharpoonup> nat"

definition WriteAllocator_reset :: "write_allocator \<Rightarrow> write_allocator" where
  "WriteAllocator_reset w = w\<lparr>wa_mode := ALLOCATE, byteCount := 0, nextAddr := 0\<rparr>"

definition wa_coalesce :: "write_allocator \<Rightarrow> bool" where
  "wa_coalesce w \<longleftrightarrow> wa_mode w \<noteq> ALLOCATE"

definition wa_allocate :: "write_allocator \<Rightarrow> bool" where
  "wa_allocate w \<longleftrightarrow> wa_mode w \<noteq> NO_ALLOCATE"

text \<open>\<^verbatim>\<open>delayCtr[blk_addr]\<close> enters a zero for a block that has no counter.\<close>

definition wa_delay :: "addr \<Rightarrow> write_allocator \<Rightarrow> bool \<times> write_allocator" where
  "wa_delay blk_addr w =
     (case delayCtr w blk_addr of
        None \<Rightarrow> (False, w\<lparr>delayCtr := (delayCtr w)(blk_addr \<mapsto> 0)\<rparr>)
      | Some n \<Rightarrow> if n > 0 then (True, w\<lparr>delayCtr := (delayCtr w)(blk_addr \<mapsto> n - 1)\<rparr>) else (False, w))"

definition resetDelay :: "addr \<Rightarrow> write_allocator \<Rightarrow> write_allocator" where
  "resetDelay blk_addr w = w\<lparr>delayCtr := (delayCtr w)(blk_addr := None)\<rparr>"

definition updateMode :: "addr \<Rightarrow> nat \<Rightarrow> addr \<Rightarrow> write_allocator \<Rightarrow> write_allocator" where
  "updateMode write_addr write_size blk_addr w =
     (let w1 =
        (if nextAddr w = write_addr
         then let w2 = w\<lparr>delayCtr := (delayCtr w)(blk_addr \<mapsto> unat (delayThreshold w))\<rparr>
              in if wa_mode w2 \<noteq> NO_ALLOCATE
                 then let w3 = w2\<lparr>byteCount := byteCount w2 + of_nat write_size\<rparr>
                      in if wa_mode w3 = ALLOCATE \<and> byteCount w3 > coalesceLimit w3
                         then w3\<lparr>wa_mode := COALESCE\<rparr>
                         else if wa_mode w3 = COALESCE \<and> byteCount w3 > noAllocateLimit w3
                         then w3\<lparr>wa_mode := NO_ALLOCATE\<rparr>
                         else w3
                 else w2
         else resetDelay blk_addr (w\<lparr>byteCount := of_nat write_size, wa_mode := ALLOCATE\<rparr>))
      in w1\<lparr>nextAddr := write_addr + of_nat write_size\<rparr>)"

section \<open>Flow control of the port towards the requestors\<close>

record response_port =
  portBlocked :: bool
  mustSendRetry :: bool
  retryScheduled :: "tick option"

definition CacheResponsePort_new :: response_port where
  "CacheResponsePort_new = \<lparr>portBlocked = False, mustSendRetry = False, retryScheduled = None\<rparr>"

definition port_setBlocked :: "response_port \<Rightarrow> response_port res" where
  "port_setBlocked p =
     must (\<not> portBlocked p)
       (let p1 = p\<lparr>portBlocked := True\<rparr>
        in Inr (if retryScheduled p1 \<noteq> None
                then p1\<lparr>retryScheduled := None, mustSendRetry := True\<rparr> else p1))"

text \<open>Scheduling an event that is already scheduled fails an assertion of the event queue.\<close>

definition port_clearBlocked :: "tick \<Rightarrow> response_port \<Rightarrow> response_port res" where
  "port_clearBlocked tk p =
     must (portBlocked p)
       (let p1 = p\<lparr>portBlocked := False\<rparr>
        in if mustSendRetry p1
           then must (retryScheduled p1 = None) (Inr (p1\<lparr>retryScheduled := Some (tk + 1)\<rparr>))
           else Inr p1)"

definition processSendRetry :: "response_port \<Rightarrow> response_port" where
  "processSendRetry p = p\<lparr>retryScheduled := None, mustSendRetry := False\<rparr>"

definition tryTiming :: "bool \<Rightarrow> packet \<Rightarrow> response_port \<Rightarrow> bool \<times> response_port" where
  "tryTiming bypassCaches pkt p =
     (if bypassCaches \<or> isExpressSnoop pkt then (True, p)
      else if portBlocked p \<or> mustSendRetry p then (False, p\<lparr>mustSendRetry := True\<rparr>)
      else (True, p\<lparr>mustSendRetry := False\<rparr>))"

section \<open>Configuration, state and handler context\<close>

datatype clusivity = mostly_incl | mostly_excl

record cache_cfg =
  blkSize :: nat
  tagLatency :: cycles
  dataLatency :: cycles
  forwardLatency :: cycles
  fillLatency :: cycles
  responseLatency :: cycles
  spmBandwidth :: nat
  seqAccess :: bool
  numTarget :: nat
  cfg_clusivity :: clusivity
  isReadOnly :: bool
  writebackClean :: bool
  forwardSnoops :: bool
  is_l1_cache :: bool
  is_l2_cache :: bool
  spmConnected :: bool
  clockPeriod :: tick
  sysMaxRequestors :: nat
  cfNtBypassEnabled :: bool
  cfNtCleanRespEnabled :: bool
  cfL2PinKeepEnabled :: bool
  cfL1PinKeepEnabled :: bool
  cfSpmSharedBw :: bool
  cfSpmHdrCharge :: bool
  addrRanges :: "(addr \<Rightarrow> bool) list"

record 's cache =
  c_tags :: "'s tags"
  mshrQueue :: "mshr queue"
  writeBuffer :: "wq_entry queue"
  tempBlock :: cache_blk
  tempAddr :: addr
  writeAllocator :: "write_allocator option"
  blocked :: "8 word"
  cpuSidePort :: response_port
  c_order :: nat
  noTargetMSHR :: "nat option"
  missCount :: nat
  spmPortFreeAt :: tick
  upPending :: "nat set"
  cpuResps :: "(packet \<times> tick) list"
  spmResps :: "(packet \<times> tick) list"
  snoopResps :: "(packet \<times> tick) list"
  sendEvents :: "tick list"
  sentReqs :: "packet list"

record 's cx =
  cfg :: cache_cfg
  ops :: "'s policy_ops"
  renv :: repl_env
  fresh :: "nat \<Rightarrow> byte list"

abbreviation curTick :: "'s cx \<Rightarrow> tick" where
  "curTick cx \<equiv> now (renv cx)"

definition BaseCache_new ::
  "nat \<Rightarrow> nat \<Rightarrow> 's tags \<Rightarrow> byte list \<Rightarrow> write_allocator option \<Rightarrow> nat \<Rightarrow> 's cache" where
  "BaseCache_new mshrs write_buffers t temp_data wa max_miss_count =
     \<lparr>c_tags = t, mshrQueue = MSHRQueue_new mshrs 0, writeBuffer = WriteQueue_new write_buffers mshrs,
      tempBlock = CacheBlk_new temp_data, tempAddr = MaxAddr, writeAllocator = wa, blocked = 0,
      cpuSidePort = CacheResponsePort_new, c_order = 0, noTargetMSHR = None,
      missCount = max_miss_count, spmPortFreeAt = 0, upPending = {}, cpuResps = [], spmResps = [],
      snoopResps = [], sendEvents = [], sentReqs = []\<rparr>"

section \<open>Clock and latencies\<close>

definition ticksToCycles :: "cache_cfg \<Rightarrow> tick \<Rightarrow> cycles" where
  "ticksToCycles g t = (t + clockPeriod g - 1) div clockPeriod g"

definition cyclesToTicks :: "cache_cfg \<Rightarrow> cycles \<Rightarrow> tick" where
  "cyclesToTicks g c = clockPeriod g * c"

text \<open>The next clock edge at or after the current tick, and the edge a number of cycles later.\<close>

definition clockEdge :: "'s cx \<Rightarrow> cycles \<Rightarrow> tick" where
  "clockEdge cx c = clockPeriod (cfg cx) * ticksToCycles (cfg cx) (curTick cx) + clockPeriod (cfg cx) * c"

definition calculateTagOnlyLatency :: "cache_cfg \<Rightarrow> nat \<Rightarrow> cycles \<Rightarrow> cycles" where
  "calculateTagOnlyLatency g dly lookup_lat = ticksToCycles g dly + lookup_lat"

definition calculateAccessLatency :: "'s cx \<Rightarrow> cache_blk option \<Rightarrow> nat \<Rightarrow> cycles \<Rightarrow> cycles res" where
  "calculateAccessLatency cx blk dly lookup_lat =
     (case blk of
        None \<Rightarrow> Inr (calculateTagOnlyLatency (cfg cx) dly lookup_lat)
      | Some b \<Rightarrow>
          let g = cfg cx;
              lat = (if seqAccess g then ticksToCycles g dly + lookup_lat + dataLatency g
                     else ticksToCycles g dly + max lookup_lat (dataLatency g));
              tk = curTick cx + dly
          in bindR (getWhenReady b) (\<lambda>when_ready.
               Inr (if when_ready > tk \<and> ticksToCycles g (when_ready - tk) > lat
                    then lat + ticksToCycles g (when_ready - tk) else lat)))"

section \<open>Block pointers\<close>

text \<open>A block pointer designates a block of the tag store or the temporary block.\<close>

datatype blk_ptr = InTags nat | TempBlk

primrec get_blk :: "'s cache \<Rightarrow> blk_ptr \<Rightarrow> cache_blk" where
  "get_blk c (InTags i) = blk_at (c_tags c) i"
| "get_blk c TempBlk = tempBlock c"

primrec set_blk :: "blk_ptr \<Rightarrow> cache_blk \<Rightarrow> 's cache \<Rightarrow> 's cache" where
  "set_blk (InTags i) b c = c\<lparr>c_tags := upd_blk i b (c_tags c)\<rparr>"
| "set_blk TempBlk b c = c\<lparr>tempBlock := b\<rparr>"

definition with_blk :: "blk_ptr \<Rightarrow> (cache_blk \<Rightarrow> cache_blk res) \<Rightarrow> 's cache \<Rightarrow> 's cache res" where
  "with_blk bp f c = bindR (f (get_blk c bp)) (\<lambda>b. Inr (set_blk bp b c))"

primrec cache_regenerateBlkAddr :: "blk_ptr \<Rightarrow> 's cache \<Rightarrow> addr" where
  "cache_regenerateBlkAddr (InTags i) c = regenerateBlkAddr i (c_tags c)"
| "cache_regenerateBlkAddr TempBlk c = tempAddr c"

definition tempBlock_insert :: "addr \<Rightarrow> bool \<Rightarrow> 's cache \<Rightarrow> 's cache res" where
  "tempBlock_insert a sec c =
     bindR (tagged_insert (tagsIp (c_tags c)) a sec (tempBlock c))
       (\<lambda>b. Inr (c\<lparr>tempBlock := b, tempAddr := a\<rparr>))"

definition tempBlock_invalidate :: "'s cache \<Rightarrow> 's cache res" where
  "tempBlock_invalidate c =
     bindR (blk_invalidate (tempBlock c)) (\<lambda>b. Inr (c\<lparr>tempBlock := b, tempAddr := MaxAddr\<rparr>))"

section \<open>Blocking and buffering\<close>

datatype blocked_cause = Blocked_NoMSHRs | Blocked_NoWBBuffers | Blocked_NoTargets

primrec cause_flag :: "blocked_cause \<Rightarrow> 8 word" where
  "cause_flag Blocked_NoMSHRs = 1"
| "cause_flag Blocked_NoWBBuffers = 2"
| "cause_flag Blocked_NoTargets = 4"

definition isBlocked :: "'s cache \<Rightarrow> bool" where
  "isBlocked c \<longleftrightarrow> blocked c \<noteq> 0"

definition setBlocked :: "blocked_cause \<Rightarrow> 's cache \<Rightarrow> 's cache res" where
  "setBlocked cause c =
     bindR (if blocked c = 0 then port_setBlocked (cpuSidePort c) else Inr (cpuSidePort c))
       (\<lambda>p. Inr (c\<lparr>cpuSidePort := p, blocked := blocked c OR cause_flag cause\<rparr>))"

definition clearBlocked :: "tick \<Rightarrow> blocked_cause \<Rightarrow> 's cache \<Rightarrow> 's cache res" where
  "clearBlocked tk cause c =
     (let c1 = c\<lparr>blocked := blocked c AND NOT (cause_flag cause)\<rparr>
      in if blocked c1 = 0
         then bindR (port_clearBlocked tk (cpuSidePort c1)) (\<lambda>p. Inr (c1\<lparr>cpuSidePort := p\<rparr>))
         else Inr c1)"

definition schedMemSideSendEvent :: "tick \<Rightarrow> 's cache \<Rightarrow> 's cache" where
  "schedMemSideSendEvent time c = c\<lparr>sendEvents := sendEvents c @ [time]\<rparr>"

definition markInService_mshr :: "'s cx \<Rightarrow> nat \<Rightarrow> bool \<Rightarrow> 's cache \<Rightarrow> 's cache res" where
  "markInService_mshr cx i pending_modified_resp c =
     (let wasFull = isFull (mshrQueue c) in
      bindR (mq_markInService i pending_modified_resp (upPending c) (mshrQueue c)) (\<lambda>(up, q).
        let c1 = c\<lparr>mshrQueue := q, upPending := up\<rparr>
        in if wasFull \<and> \<not> isFull (mshrQueue c1) then clearBlocked (curTick cx) Blocked_NoMSHRs c1
           else Inr c1))"

definition markInService_wq :: "'s cx \<Rightarrow> nat \<Rightarrow> 's cache \<Rightarrow> 's cache res" where
  "markInService_wq cx i c =
     (let wasFull = isFull (writeBuffer c) in
      bindR (wq_markInService i (writeBuffer c)) (\<lambda>q.
        let c1 = c\<lparr>writeBuffer := q\<rparr>
        in if wasFull \<and> \<not> isFull (writeBuffer c1) then clearBlocked (curTick cx) Blocked_NoWBBuffers c1
           else Inr c1))"

definition cache_allocOnFill :: "cache_cfg \<Rightarrow> mem_cmd \<Rightarrow> bool" where
  "cache_allocOnFill g cm \<longleftrightarrow>
     cfg_clusivity g = mostly_incl \<or> cm = WriteLineReq \<or> cm = ReadReq \<or> cm = WriteReq \<or>
     isPrefetch cm \<or> isLLSC cm"

text \<open>A non-temporal access does not allocate in the first level.\<close>

definition nt_skip_l1 :: "cache_cfg \<Rightarrow> packet \<Rightarrow> bool" where
  "nt_skip_l1 g pkt \<longleftrightarrow> is_l1_cache g \<and> cfNtBypassEnabled g \<and> isNoL1Alloc (req pkt)"

definition allocateMissBuffer :: "'s cx \<Rightarrow> packet \<Rightarrow> tick \<Rightarrow> bool \<Rightarrow> 's cache \<Rightarrow> (nat \<times> 's cache) res" where
  "allocateMissBuffer cx pkt time sched_send c =
     (let g = cfg cx;
          aof = (if isSpmcpNoAlloc (req pkt) \<or> nt_skip_l1 g pkt then False
                 else cache_allocOnFill g (cmd pkt))
      in bindR (mq_allocate (curTick cx) (getBlockAddr (blkSize g) pkt) (blkSize g) pkt time (c_order c)
                 aof (upPending c) (mshrQueue c))
           (\<lambda>(i, up, q).
              let c1 = c\<lparr>mshrQueue := q, upPending := up, c_order := c_order c + 1\<rparr>
              in bindR (if isFull (mshrQueue c1) then setBlocked Blocked_NoMSHRs c1 else Inr c1)
                   (\<lambda>c2. Inr (i, if sched_send then schedMemSideSendEvent time c2 else c2))))"

definition allocateWriteBuffer :: "'s cx \<Rightarrow> packet \<Rightarrow> tick \<Rightarrow> 's cache \<Rightarrow> 's cache res" where
  "allocateWriteBuffer cx pkt time c =
     must (isWrite (cmd pkt) \<or> cmd pkt = CleanEvict)
       (let blk_addr = getBlockAddr (blkSize (cfg cx)) pkt in
        bindR (wq_findMatch blk_addr (isSecure pkt) (writeBuffer c)) (\<lambda>_.
        bindR (wq_allocate (curTick cx) blk_addr (blkSize (cfg cx)) pkt time (c_order c) (writeBuffer c))
         (\<lambda>(i, q).
            let c1 = c\<lparr>writeBuffer := q, c_order := c_order c + 1\<rparr>
            in bindR (if isFull (writeBuffer c1) then setBlocked Blocked_NoWBBuffers c1 else Inr c1)
                 (\<lambda>c2. Inr (schedMemSideSendEvent time c2)))))"

definition incMissCount :: "'s cx \<Rightarrow> packet \<Rightarrow> 's cache \<Rightarrow> 's cache res" where
  "incMissCount cx pkt c =
     must (requestorId (req pkt) < sysMaxRequestors (cfg cx))
       (Inr (c\<lparr>missCount := missCount c - 1\<rparr>))"

definition incHitCount :: "'s cx \<Rightarrow> packet \<Rightarrow> 's cache \<Rightarrow> 's cache res" where
  "incHitCount cx pkt c = must (requestorId (req pkt) < sysMaxRequestors (cfg cx)) (Inr c)"

section \<open>Operations on one block\<close>

definition updateBlockData :: "cache_cfg \<Rightarrow> packet \<Rightarrow> cache_blk \<Rightarrow> cache_blk res" where
  "updateBlockData g cpkt b =
     bindR (writeDataToBlock cpkt (blkData b) (blkSize g)) (\<lambda>d. Inr (b\<lparr>blkData := d\<rparr>))"

definition invalidateBlock :: "'s cx \<Rightarrow> blk_ptr \<Rightarrow> 's cache \<Rightarrow> 's cache res" where
  "invalidateBlock cx bp c =
     (case bp of
        InTags i \<Rightarrow> bindR (tags_invalidate (ops cx) i (c_tags c)) (\<lambda>t. Inr (c\<lparr>c_tags := t\<rparr>))
      | TempBlk \<Rightarrow> tempBlock_invalidate c)"


text \<open>
  The eviction packets: a request of the cache for the block's line, with the block's security
  and task, and the coherence state the block passes on.
\<close>

definition blk_request :: "'s cx \<Rightarrow> blk_ptr \<Rightarrow> 's cache \<Rightarrow> request res" where
  "blk_request cx bp c =
     (let b = get_blk c bp;
          r = Request_paddr (cache_regenerateBlkAddr bp c) (blkSize (cfg cx)) 0 wbRequestorId
      in bindR (if blkSecure b then setFlags SECURE r else Inr r)
           (\<lambda>r'. Inr (r'\<lparr>taskId := blkTaskId b\<rparr>)))"

definition pass_state :: "cache_blk \<Rightarrow> packet \<Rightarrow> packet \<times> cache_blk" where
  "pass_state b pkt =
     (if blk_isSet WritableBit b
      then (pkt, clearCoherenceBits DirtyBit (clearCoherenceBits WritableBit b))
      else (setHasSharers pkt, clearCoherenceBits DirtyBit b))"

definition writebackBlk :: "'s cx \<Rightarrow> blk_ptr \<Rightarrow> 's cache \<Rightarrow> (packet \<times> 's cache) res" where
  "writebackBlk cx bp c =
     (let g = cfg cx; b = get_blk c bp in
      must (\<not> isReadOnly g \<or> writebackClean g)
       (must (blkValid b \<and> (blk_isSet DirtyBit b \<or> writebackClean g))
         (bindR (blk_request cx bp c) (\<lambda>r.
          bindR (Packet_new r (if blk_isSet DirtyBit b then WritebackDirty else WritebackClean)) (\<lambda>pkt.
            let (pkt1, b1) = pass_state b pkt in
            bindR (allocate (fresh cx) pkt1) (\<lambda>pkt2.
            bindR (setDataFromBlock (blkData b1) (blkSize g) pkt2) (\<lambda>pkt3.
              Inr (pkt3, set_blk bp b1 c))))))))"

definition writecleanBlk :: "'s cx \<Rightarrow> blk_ptr \<Rightarrow> flags64 \<Rightarrow> 's cache \<Rightarrow> (packet \<times> 's cache) res" where
  "writecleanBlk cx bp dest c =
     (let g = cfg cx; b = get_blk c bp in
      bindR (blk_request cx bp c) (\<lambda>r.
      bindR (if dest \<noteq> 0 then setFlags dest r else Inr r) (\<lambda>r1.
        let pkt = Packet_blk r1 WriteClean (blkSize g) in
        bindR (if dest \<noteq> 0 then setWriteThrough pkt else Inr pkt) (\<lambda>pkt0.
          let (pkt1, b1) = pass_state b pkt0 in
          bindR (allocate (fresh cx) pkt1) (\<lambda>pkt2.
          bindR (setDataFromBlock (blkData b1) (blkSize g) pkt2) (\<lambda>pkt3.
            Inr (pkt3, set_blk bp b1 c)))))))"

definition cleanEvictBlk :: "'s cx \<Rightarrow> blk_ptr \<Rightarrow> 's cache \<Rightarrow> packet res" where
  "cleanEvictBlk cx bp c =
     (let b = get_blk c bp in
      must (\<not> writebackClean (cfg cx))
       (must (blkValid b \<and> \<not> blk_isSet DirtyBit b)
         (bindR (blk_request cx bp c) (\<lambda>r.
          bindR (Packet_new r CleanEvict) (allocate (fresh cx))))))"

definition evictBlock :: "'s cx \<Rightarrow> blk_ptr \<Rightarrow> 's cache \<Rightarrow> (packet \<times> 's cache) res" where
  "evictBlock cx bp c =
     bindR (if blk_isSet DirtyBit (get_blk c bp) \<or> writebackClean (cfg cx) then writebackBlk cx bp c
            else bindR (cleanEvictBlk cx bp c) (\<lambda>pkt. Inr (pkt, c)))
       (\<lambda>(pkt, c1). bindR (invalidateBlock cx bp c1) (\<lambda>c2. Inr (pkt, c2)))"

section \<open>Satisfying a request from a block\<close>

text \<open>
  \<open>cmpAndSwap\<close> exchanges the packet's bytes with the block's, for a conditional swap only if
  the block holds the expected value; the eight bytes of \<open>overwrite_val\<close> beyond the packet's
  size are never used.
\<close>

definition cmpAndSwap :: "cache_cfg \<Rightarrow> packet \<Rightarrow> cache_blk \<Rightarrow> (packet \<times> cache_blk) res" where
  "cmpAndSwap g pkt b =
     must (isRequest (cmd pkt))
       (let offset = unat (getOffset (blkSize g) pkt);
            blk_data = drop offset (blkData b);
            n = getSize pkt
        in must (8 \<ge> n)
          (bindR (writeData pkt (replicate 8 0) 0) (\<lambda>overwrite_val.
           bindR (setData blk_data pkt) (\<lambda>pkt1.
           bindR (if isCondSwap (req pkt1)
                  then if n = 8 \<or> n = 4
                       then bindR (getExtraData (req pkt1)) (\<lambda>x.
                              Inr (map (\<lambda>i. ucast (drop_bit (8 * i) x)) [0..<n] = take n blk_data))
                       else Inl Panic
                  else Inr True) (\<lambda>overwrite_mem.
             if overwrite_mem
             then bindR (setCoherenceBits DirtyBit (b\<lparr>blkData := memcpy (blkData b) offset overwrite_val n\<rparr>))
                    (\<lambda>b1. Inr (pkt1, b1))
             else Inr (pkt1, b))))))"

definition atomic_update :: "cache_cfg \<Rightarrow> nat \<Rightarrow> packet \<Rightarrow> cache_blk \<Rightarrow> (packet \<times> cache_blk) res" where
  "atomic_update g offset pkt b =
     (let blk_data = drop offset (blkData b) in
      bindR (setData blk_data pkt) (\<lambda>pkt1.
        case atomicOp (req pkt1) of
          None \<Rightarrow> Inl Assertion
        | Some f \<Rightarrow>
            bindR (setCoherenceBits DirtyBit
                     (b\<lparr>blkData := memcpy (blkData b) offset (f (take (getSize pkt1) blk_data)) (getSize pkt1)\<rparr>))
              (\<lambda>b1. Inr (pkt1, b1))))"

definition satisfy_write :: "cache_cfg \<Rightarrow> packet \<Rightarrow> cache_blk \<Rightarrow> (packet \<times> cache_blk) res" where
  "satisfy_write g pkt b =
     must (blk_isSet WritableBit b)
       (bindR (checkWrite pkt b) (\<lambda>(success, pkt1, b1).
        bindR (if success then updateBlockData g pkt1 b1 else Inr b1) (\<lambda>b2.
        bindR (setCoherenceBits DirtyBit b2) (\<lambda>b3. Inr (pkt1, b3)))))"

definition satisfy_read :: "cache_cfg \<Rightarrow> packet \<Rightarrow> cache_blk \<Rightarrow> (packet \<times> cache_blk) res" where
  "satisfy_read g pkt b =
     bindR (if isLLSC (cmd pkt) then trackLoadLocked pkt b else Inr b) (\<lambda>b1.
       must (hasRespData pkt)
         (bindR (setDataFromBlock (blkData b1) (blkSize g) pkt) (\<lambda>pkt1. Inr (pkt1, b1))))"

definition satisfy_upgrade :: "packet \<Rightarrow> cache_blk \<Rightarrow> (packet \<times> cache_blk) res" where
  "satisfy_upgrade pkt b =
     must (\<not> hasSharers pkt)
       (if blk_isSet DirtyBit b
        then bindR (setCacheResponding pkt) (\<lambda>pkt1. Inr (pkt1, clearCoherenceBits DirtyBit b))
        else Inr (pkt, b))"

text \<open>The part of \<^verbatim>\<open>BaseCache::satisfyRequest\<close> that works on the block alone.\<close>

definition satisfy_blk :: "'s cx \<Rightarrow> nat \<Rightarrow> packet \<Rightarrow> cache_blk \<Rightarrow> (packet \<times> cache_blk) res" where
  "satisfy_blk cx offset pkt b =
     (let g = cfg cx in
      if cmd pkt = SwapReq
      then if isAtomic (req pkt) then atomic_update g offset pkt b else cmpAndSwap g pkt b
      else if isWrite (cmd pkt) then satisfy_write g pkt b
      else if isRead (cmd pkt) then satisfy_read g pkt b
      else if isUpgrade (cmd pkt) then satisfy_upgrade pkt b
      else Inr (pkt, clearCoherenceBits DirtyBit b))"

definition base_satisfyRequest :: "'s cx \<Rightarrow> packet \<Rightarrow> blk_ptr \<Rightarrow> 's cache \<Rightarrow> (packet \<times> 's cache) res" where
  "base_satisfyRequest cx pkt bp c =
     must (isRequest (cmd pkt))
      (must (blkValid (get_blk c bp))
       (must (unat (getOffset (blkSize (cfg cx)) pkt) + getSize pkt \<le> blkSize (cfg cx))
         (if cmd pkt = SwapReq \<or> isWrite (cmd pkt) \<or> isRead (cmd pkt) \<or> isUpgrade (cmd pkt) \<or>
             isClean (cmd pkt)
          then bindR (satisfy_blk cx (extractBlkOffset (getAddr pkt) (c_tags c)) pkt (get_blk c bp))
                 (\<lambda>(pkt1, b). Inr (pkt1, set_blk bp b c))
          else must (isInvalidate (cmd pkt))
                 (bindR (invalidateBlock cx bp c) (\<lambda>c1. Inr (pkt, c1))))))"

text \<open>
  The coherent cache adds what a cache above is told about its copy of the line, and what
  this cache gives up in return.
\<close>

definition respond_to_cache ::
  "cache_cfg \<Rightarrow> bool \<Rightarrow> bool \<Rightarrow> packet \<Rightarrow> cache_blk \<Rightarrow> (packet \<times> cache_blk) res" where
  "respond_to_cache g deferred_response pending_downgrade pkt b =
     must (getSize pkt = blkSize g)
       (if needsWritable (cmd pkt)
        then must (cmd pkt = ReadExReq \<or> cmd pkt = SCUpgradeFailReq) (satisfy_upgrade pkt b)
        else if blk_isSet WritableBit b \<and> \<not> pending_downgrade \<and> \<not> hasSharers pkt \<and>
                cmd pkt \<noteq> ReadCleanReq
        then if blk_isSet DirtyBit b
             then if \<not> deferred_response
                  then bindR (setCacheResponding pkt) (\<lambda>pkt1. Inr (pkt1, clearCoherenceBits DirtyBit b))
                  else Inr (setHasSharers pkt, b)
             else Inr (pkt, b)
        else Inr (setHasSharers pkt, b))"

definition satisfyRequest ::
  "'s cx \<Rightarrow> bool \<Rightarrow> bool \<Rightarrow> packet \<Rightarrow> blk_ptr \<Rightarrow> 's cache \<Rightarrow> (packet \<times> 's cache) res" where
  "satisfyRequest cx deferred_response pending_downgrade pkt bp c =
     bindR (base_satisfyRequest cx pkt bp c) (\<lambda>(pkt1, c1).
       if isRead (cmd pkt1) \<and> fromCache (cmd pkt1)
       then bindR (respond_to_cache (cfg cx) deferred_response pending_downgrade pkt1 (get_blk c1 bp))
              (\<lambda>(pkt2, b). Inr (pkt2, set_blk bp b c1))
       else Inr (pkt1, c1))"

definition maintainClusivity :: "'s cx \<Rightarrow> bool \<Rightarrow> blk_ptr option \<Rightarrow> 's cache \<Rightarrow> 's cache res" where
  "maintainClusivity cx from_cache blk c =
     (case blk of
        None \<Rightarrow> Inr c
      | Some bp \<Rightarrow>
          if from_cache \<and> blkValid (get_blk c bp) \<and> \<not> blk_isSet DirtyBit (get_blk c bp) \<and>
             cfg_clusivity (cfg cx) = mostly_excl
          then invalidateBlock cx bp c else Inr c)"

section \<open>Evicting and allocating\<close>

text \<open>
  The blocks to evict are checked before any of them is evicted: an outstanding request on one
  of them gives up.
\<close>

fun pending_eviction :: "'s cx \<Rightarrow> nat list \<Rightarrow> 's cache \<Rightarrow> bool res" where
  "pending_eviction cx [] c = Inr False"
| "pending_eviction cx (i # is) c =
     (let b = blk_at (c_tags c) i in
      if blkValid b
      then bindR (mq_findMatch (regenerateBlkAddr i (c_tags c)) (blkSecure b) (mshrQueue c)) (\<lambda>m.
             case m of
               None \<Rightarrow> pending_eviction cx is c
             | Some j \<Rightarrow>
                 let mshr = entry_at (mshrQueue c) j in
                 if \<not> blk_isSet WritableBit b \<and> mshr_needsWritable mshr then Inr True
                 else bindR (isCleaning mshr) (\<lambda>cl. must cl (Inr True)))
      else pending_eviction cx is c)"

fun evict_valid :: "'s cx \<Rightarrow> nat list \<Rightarrow> packet list \<times> 's cache \<Rightarrow> (packet list \<times> 's cache) res" where
  "evict_valid cx [] (wbs, c) = Inr (wbs, c)"
| "evict_valid cx (i # is) (wbs, c) =
     (if blkValid (blk_at (c_tags c) i)
      then bindR (evictBlock cx (InTags i) c) (\<lambda>(pkt, c1). evict_valid cx is (wbs @ [pkt], c1))
      else evict_valid cx is (wbs, c))"

definition handleEvictions ::
  "'s cx \<Rightarrow> nat list \<Rightarrow> packet list \<Rightarrow> 's cache \<Rightarrow> (bool \<times> packet list \<times> 's cache) res" where
  "handleEvictions cx evict_blks wbs c =
     bindR (pending_eviction cx evict_blks c) (\<lambda>pending.
       if pending then Inr (False, wbs, c)
       else bindR (evict_valid cx evict_blks (wbs, c)) (\<lambda>(wbs', c'). Inr (True, wbs', c')))"

definition allocateBlock ::
  "'s cx \<Rightarrow> packet \<Rightarrow> packet list \<Rightarrow> 's cache \<Rightarrow> (nat option \<times> packet list \<times> 's cache) res" where
  "allocateBlock cx pkt wbs c =
     (let partition_id = (case partitionManager (c_tags c) of
            None \<Rightarrow> 0 | Some _ \<Rightarrow> readPacketPartitionID pkt)
      in bindR (findVictim (ops cx) (renv cx) (getAddr pkt) partition_id (c_tags c)) (\<lambda>(victim, _, t).
           let c1 = c\<lparr>c_tags := t\<rparr> in
           case victim of
             None \<Rightarrow> Inr (None, wbs, c1)
           | Some v \<Rightarrow>
               bindR (handleEvictions cx [v] wbs c1) (\<lambda>(ok, wbs1, c2).
                 if \<not> ok then Inr (None, wbs1, c2)
                 else bindR (insertBlock (ops cx) (renv cx) pkt v (c_tags c2)) (\<lambda>t2.
                        Inr (Some v, wbs1, c2\<lparr>c_tags := t2\<rparr>)))))"

end
