(* ===== verification/Cache_Access.thy ===== *)
theory Cache_Access
  imports Cache_State
begin

text \<open>
  The access path of a cache: \<^verbatim>\<open>BaseCache::access\<close> (src/gem5/src/mem/cache/base.cc) with the
  scratchpad commands at the first and the second level, and \<^verbatim>\<open>Cache::access\<close> (cache.cc). The
  reference parameters of \<^verbatim>\<open>access\<close> (the packet, the block, the latency and the list of
  writebacks) are the fields of a frame, together with the cache. One definition per command
  group; \<open>access\<close> composes them as the code does, including the scratchpad writeback that
  falls through into the common path after a hit.
\<close>

section \<open>Frames\<close>

record 's frame =
  f_pkt :: packet
  f_blk :: "nat option"
  f_lat :: cycles
  f_wbs :: "packet list"
  f_cache :: "'s cache"

abbreviation f_tags :: "'s frame \<Rightarrow> 's tags" where
  "f_tags f \<equiv> c_tags (f_cache f)"

definition f_with_tags :: "'s tags \<Rightarrow> 's frame \<Rightarrow> 's frame" where
  "f_with_tags t f = f\<lparr>f_cache := (f_cache f)\<lparr>c_tags := t\<rparr>\<rparr>"

definition f_with_blk :: "nat \<Rightarrow> (cache_blk \<Rightarrow> cache_blk res) \<Rightarrow> 's frame \<Rightarrow> 's frame res" where
  "f_with_blk i h f = bindR (with_blk (InTags i) h (f_cache f)) (\<lambda>c. Inr (f\<lparr>f_cache := c\<rparr>))"

text \<open>The block the lookup found, if it is valid.\<close>

definition valid_blk :: "'s frame \<Rightarrow> cache_blk option" where
  "valid_blk f =
     (case f_blk f of
        None \<Rightarrow> None
      | Some i \<Rightarrow> if blkValid (blk_at (f_tags f) i) then Some (blk_at (f_tags f) i) else None)"

definition found_blk :: "'s frame \<Rightarrow> cache_blk option" where
  "found_blk f = map_option (blk_at (f_tags f)) (f_blk f)"

definition tag_only :: "'s cx \<Rightarrow> cycles \<Rightarrow> 's frame \<Rightarrow> 's frame" where
  "tag_only cx tag_latency f =
     f\<lparr>f_lat := calculateTagOnlyLatency (cfg cx) (headerDelay (f_pkt f)) tag_latency\<rparr>"

section \<open>Scratchpad commands at the first level\<close>

text \<open>The offset of a scratchpad transfer inside its line, taken from the slot address.\<close>

definition line_offset :: "'s cx \<Rightarrow> addr \<Rightarrow> nat" where
  "line_offset cx a = unat (a AND blk_mask (blkSize (cfg cx)))"

text \<open>Copying the source bytes out of a cached line into the packet.\<close>

definition copy_from_line :: "'s cx \<Rightarrow> cache_blk \<Rightarrow> packet \<Rightarrow> packet res" where
  "copy_from_line cx b pkt =
     (let blk_offset = line_offset cx (getSlot pkt); n = getSpmSize pkt in
      panic_when (blk_offset + n > blkSize (cfg cx))
        (bindR (getPtr pkt) (\<lambda>dst.
           Inr (pkt\<lparr>pdata := Some (memcpy dst 0 (drop blk_offset (blkData b)) n)\<rparr>))))"

text \<open>
  The first level takes the slot address from the packet's data, gives the packet a buffer of
  the transfer's size, fills it if it has the line, and sends the packet down with the
  writebacks. The packet in the write buffer is the same object, so its delays are those the
  receiving path resets.
\<close>

definition l1_prepare :: "'s cx \<Rightarrow> packet \<Rightarrow> packet res" where
  "l1_prepare cx pkt =
     (let pkt0 = pkt\<lparr>SPMresp := True\<rparr> in
      must (cmd pkt0 = CPTOSPMReq \<or> cmd pkt0 = SPMWritebackReq)
       (must (hasData (cmd pkt0))
         (bindR (getLE64 pkt0) (\<lambda>slot.
          bindR (setSlot slot pkt0) (\<lambda>pkt1.
          bindR (setSize (getSpmSize pkt1) (deleteData pkt1)) (\<lambda>pkt2.
            allocate (fresh cx) pkt2))))))"

definition l1_spm_access :: "'s cx \<Rightarrow> cycles \<Rightarrow> 's frame \<Rightarrow> (bool \<times> 's frame) res" where
  "l1_spm_access cx tag_latency f =
     bindR (l1_prepare cx (f_pkt f)) (\<lambda>pkt.
     bindR (case valid_blk f of
              Some b \<Rightarrow>
                bindR (copy_from_line cx b (pkt\<lparr>L1find := True\<rparr>)) (\<lambda>pkt1.
                bindR (calculateAccessLatency cx (Some b) (headerDelay pkt1) tag_latency) (\<lambda>lat.
                  Inr (f\<lparr>f_pkt := pkt1, f_lat := lat\<rparr>)))
            | None \<Rightarrow> Inr (tag_only cx tag_latency (f\<lparr>f_pkt := pkt\<lparr>L1find := False\<rparr>\<rparr>)))
       (\<lambda>f1. Inr (True, f1\<lparr>f_wbs := f_wbs f1 @ [(f_pkt f1)\<lparr>headerDelay := 0, payloadDelay := 0\<rparr>]\<rparr>)))"

section \<open>Copies to the scratchpad at the second level\<close>

text \<open>
  A copy whose source was not in the first level looks for it here; the copied line is made
  the next victim of its set. The result is the latency of this part.
\<close>

definition l2_copy_source :: "'s cx \<Rightarrow> cycles \<Rightarrow> 's frame \<Rightarrow> (cycles \<times> 's frame) res" where
  "l2_copy_source cx tag_latency f =
     (if cmd (f_pkt f) = CPTOSPMReq \<and> \<not> L1find (f_pkt f)
      then (case (f_blk f, valid_blk f) of
              (Some i, Some b) \<Rightarrow>
                must (hasData (cmd (f_pkt f)))
                  (bindR (copy_from_line cx b ((f_pkt f)\<lparr>L2find := True\<rparr>)) (\<lambda>pkt.
                   bindR (demoteToLRU (ops cx) i (f_tags f)) (\<lambda>t.
                   bindR (calculateAccessLatency cx (Some b) (headerDelay pkt) tag_latency) (\<lambda>lat.
                     Inr (lat, f_with_tags t (f\<lparr>f_pkt := pkt\<rparr>))))))
            | _ \<Rightarrow> Inr (calculateTagOnlyLatency (cfg cx) (headerDelay (f_pkt f)) tag_latency,
                       f\<lparr>f_pkt := (f_pkt f)\<lparr>L2find := False\<rparr>\<rparr>))
      else Inr (0, f))"

text \<open>Looking up the slot of the packet; a null slot is dereferenced by the caller.\<close>

definition f_findSPMSlot :: "'s frame \<Rightarrow> nat option \<times> cycles \<times> 's frame" where
  "f_findSPMSlot f =
     (case findSPMSlot (f_pkt f) (f_tags f) of (slot, lat, t) \<Rightarrow> (slot, lat, f_with_tags t f))"

definition slot_ready_at :: "'s cx \<Rightarrow> cycles \<Rightarrow> packet \<Rightarrow> tick" where
  "slot_ready_at cx lat pkt =
     clockEdge cx (fillLatency (cfg cx)) + max (cyclesToTicks (cfg cx) lat) (payloadDelay pkt)"

text \<open>Writing bytes into a slot and setting the time they can be read.\<close>

definition fill_slot :: "nat \<Rightarrow> byte list \<Rightarrow> nat \<Rightarrow> tick \<Rightarrow> cache_blk \<Rightarrow> cache_blk res" where
  "fill_slot off src n ready b = setWhenReady ready (b\<lparr>blkData := memcpy (blkData b) off src n\<rparr>)"

definition mark_waiting :: "cache_blk \<Rightarrow> cache_blk res" where
  "mark_waiting b = setCoherenceBits WaitBit (clearCoherenceBits WritableBit b)"

definition make_slot :: "cache_blk \<Rightarrow> cache_blk res" where
  "make_slot b = setCoherenceBits ScratchpadBit (clearCoherenceBits (ReadableBit OR WritableBit OR DirtyBit) b)"

text \<open>Evicting whatever occupies the block that becomes a slot.\<close>

definition vacate_slot :: "'s cx \<Rightarrow> nat \<Rightarrow> 's frame \<Rightarrow> (bool \<times> 's frame) res" where
  "vacate_slot cx s f =
     bindR (handleEvictions cx [s] (f_wbs f) (f_cache f)) (\<lambda>(ok, wbs, c).
       let f1 = f\<lparr>f_wbs := wbs, f_cache := c\<rparr>
       in if ok then Inr (True, f1)
          else bindR (f_with_blk s mark_waiting f1) (\<lambda>f2. Inr (False, f2)))"

definition l2_copy_found :: "'s cx \<Rightarrow> cycles \<Rightarrow> nat \<Rightarrow> 's frame \<Rightarrow> (bool \<times> 's frame) res" where
  "l2_copy_found cx slot_latency s f =
     (let pkt = f_pkt f;
          slot_offset = line_offset cx (getSlot pkt);
          n = getSpmSize pkt;
          finish = (\<lambda>f'. bindR (getPtr pkt) (\<lambda>src.
             bindR (f_with_blk s (fill_slot slot_offset src n (slot_ready_at cx slot_latency pkt)) f') (\<lambda>f''.
               Inr (True, f''\<lparr>f_lat := slot_latency, f_pkt := pkt\<lparr>L1find := False\<rparr>\<rparr>))))
      in must (hasData (cmd pkt))
        (panic_when (slot_offset + n > blkSize (cfg cx))
          (if blk_isSet ScratchpadBit (blk_at (f_tags f) s) then finish f
           else bindR (vacate_slot cx s f) (\<lambda>(ok, f1).
                  if \<not> ok then Inr (False, f1)
                  else bindR (insertBlock (ops cx) (renv cx) pkt s (f_tags f1)) (\<lambda>t.
                       bindR (f_with_blk s make_slot (f_with_tags t f1)) finish)))))"

definition l2_copy_missing :: "'s cx \<Rightarrow> cycles \<Rightarrow> nat \<Rightarrow> 's frame \<Rightarrow> (bool \<times> 's frame) res" where
  "l2_copy_missing cx slot_latency s f =
     bindR (if \<not> blk_isSet ScratchpadBit (blk_at (f_tags f) s)
            then bindR (vacate_slot cx s f) (\<lambda>(_, f1). Inr f1) else Inr f) (\<lambda>f1.
     bindR (f_with_blk s (setCoherenceBits ScratchpadBit) f1) (\<lambda>f2.
     bindR (setFlags SPMCP_NOALLOC (req (f_pkt f2))) (\<lambda>r.
       Inr (False, f2\<lparr>f_lat := slot_latency, f_pkt := (f_pkt f2)\<lparr>req := r\<rparr>\<rparr>))))"

definition l2_copy_access :: "'s cx \<Rightarrow> cycles \<Rightarrow> 's frame \<Rightarrow> (bool \<times> 's frame) res" where
  "l2_copy_access cx slot_latency f =
     (case f_findSPMSlot (f\<lparr>f_pkt := (f_pkt f)\<lparr>SPMresp := True\<rparr>\<rparr>) of
        (None, _, _) \<Rightarrow> Inl OutOfRange
      | (Some s, _, f1) \<Rightarrow>
          if L1find (f_pkt f1) \<or> L2find (f_pkt f1) then l2_copy_found cx slot_latency s f1
          else l2_copy_missing cx slot_latency s f1)"

section \<open>Writebacks from the scratchpad at the second level\<close>

text \<open>The masked variant of the write, and the plain one.\<close>

definition write_line :: "packet \<Rightarrow> nat \<Rightarrow> byte list \<Rightarrow> nat \<Rightarrow> cache_blk \<Rightarrow> cache_blk res" where
  "write_line pkt off src n b =
     bindR (if isMaskedWrite pkt
            then must (length (byteEnable (req pkt)) = n)
                   (Inr (masked_copy (blkData b) off src (byteEnable (req pkt))))
            else Inr (memcpy (blkData b) off src n))
       (\<lambda>d. setCoherenceBits DirtyBit (b\<lparr>blkData := d\<rparr>))"

text \<open>
  The bytes \<open>dst\<close> of the slot go into the line of the address: into the block when it is
  present, into a new block when they are a whole line. The result tells whether the access is
  decided (\<open>Some\<close> whether it hit) or goes on through the common path.
\<close>

definition l2_writeback_hit :: "'s cx \<Rightarrow> byte list \<Rightarrow> cycles \<Rightarrow> nat \<Rightarrow> 's frame \<Rightarrow> (bool option \<times> cycles \<times> 's frame) res" where
  "l2_writeback_hit cx dst tag_latency i f =
     (let coherence_offset = line_offset cx (getAddr (f_pkt f)); n = getSpmSize (f_pkt f)
      in must (coherence_offset + n \<le> blkSize (cfg cx))
           (bindR (f_with_blk i (write_line (f_pkt f) coherence_offset dst n) f) (\<lambda>f1.
              Inr (None, tag_latency, tag_only cx tag_latency f1))))"

definition fill_line :: "'s cx \<Rightarrow> byte list \<Rightarrow> cache_blk \<Rightarrow> cache_blk res" where
  "fill_line cx dst b =
     bindR (setCoherenceBits ReadableBit (b\<lparr>blkData := memcpy (blkData b) 0 dst (blkSize (cfg cx))\<rparr>))
       (setCoherenceBits DirtyBit)"

definition l2_writeback_alloc :: "'s cx \<Rightarrow> byte list \<Rightarrow> cycles \<Rightarrow> 's frame \<Rightarrow> (bool option \<times> cycles \<times> 's frame) res" where
  "l2_writeback_alloc cx dst tag_latency f =
     bindR (allocateBlock cx (f_pkt f) (f_wbs f) (f_cache f)) (\<lambda>(v, wbs, c).
       let f1 = f\<lparr>f_wbs := wbs, f_cache := c, f_blk := v\<rparr> in
       case v of
         None \<Rightarrow> bindR (incMissCount cx (f_pkt f1) (f_cache f1)) (\<lambda>c'.
           Inr (Some False, tag_latency, tag_only cx tag_latency (f1\<lparr>f_cache := c'\<rparr>)))
       | Some i \<Rightarrow> bindR (f_with_blk i (fill_line cx dst) f1) (\<lambda>f2.
           bindR (calculateAccessLatency cx (found_blk f2) (headerDelay (f_pkt f2)) tag_latency)
             (\<lambda>lat. Inr (None, tag_latency, f2\<lparr>f_lat := lat\<rparr>))))"

definition l2_writeback_line :: "'s cx \<Rightarrow> byte list \<Rightarrow> cycles \<Rightarrow> 's frame \<Rightarrow> (bool option \<times> cycles \<times> 's frame) res" where
  "l2_writeback_line cx dst tag_latency f =
     (case (f_blk f, valid_blk f) of
        (Some i, Some _) \<Rightarrow> l2_writeback_hit cx dst tag_latency i f
      | _ \<Rightarrow> if getSpmSize (f_pkt f) = blkSize (cfg cx) \<and> line_offset cx (getAddr (f_pkt f)) = 0
             then l2_writeback_alloc cx dst tag_latency f
             else Inr (Some False, tag_latency, tag_only cx tag_latency f))"

definition l2_writeback_access :: "'s cx \<Rightarrow> 's frame \<Rightarrow> (bool option \<times> cycles \<times> 's frame) res" where
  "l2_writeback_access cx f =
     (case f_findSPMSlot (f\<lparr>f_pkt := (f_pkt f)\<lparr>SPMresp := True\<rparr>\<rparr>) of
        (None, _, _) \<Rightarrow> Inl Assertion
      | (Some s, tag_latency, f1) \<Rightarrow>
          let slot = blk_at (f_tags f1) s;
              pkt = f_pkt f1;
              slot_offset = line_offset cx (getSlot pkt);
              n = getSpmSize pkt
          in must (blkValid slot)
            (must (blk_isSet ScratchpadBit slot)
              (panic_when (slot_offset + n > blkSize (cfg cx))
                (bindR (getPtr pkt) (\<lambda>d.
                  let dst = memcpy d 0 (drop slot_offset (blkData slot)) n
                  in l2_writeback_line cx dst tag_latency (f1\<lparr>f_pkt := pkt\<lparr>pdata := Some dst\<rparr>\<rparr>))))))"

section \<open>Scratchpad loads and stores at the second level\<close>

text \<open>
  A transfer may span several slots. The address of the next slot keeps the way bits of the
  first and is combined with the next way number by a bitwise or.
\<close>

definition slot_addr_of :: "'s cx \<Rightarrow> addr \<Rightarrow> nat \<Rightarrow> 's frame \<Rightarrow> addr" where
  "slot_addr_of cx first_slot_base way f =
     first_slot_base OR push_bit (wayShift (tagsIp (f_tags f))) (of_nat way)"

definition num_slots :: "'s cx \<Rightarrow> nat \<Rightarrow> nat \<Rightarrow> nat" where
  "num_slots cx first_slot_offset sz =
     (first_slot_offset + sz + blkSize (cfg cx) - 1) div blkSize (cfg cx)"

definition chunk_at :: "'s cx \<Rightarrow> nat \<Rightarrow> nat \<Rightarrow> nat \<Rightarrow> nat \<Rightarrow> nat \<times> nat" where
  "chunk_at cx first_slot_offset sz i copied =
     (let off = (if i = 0 then first_slot_offset else 0)
      in (off, min (blkSize (cfg cx) - off) (sz - copied)))"

text \<open>The store loop, from slot number \<open>i\<close> on.\<close>

fun spm_store_loop ::
  "'s cx \<Rightarrow> byte list \<Rightarrow> addr \<Rightarrow> nat \<Rightarrow> nat list \<Rightarrow> nat \<Rightarrow> cycles \<Rightarrow> 's frame \<Rightarrow> (bool \<times> 's frame) res" where
  "spm_store_loop cx pkt_data start_addr base_way [] copied tag_latency f =
     bindR (setSlot start_addr (f_pkt f)) (\<lambda>pkt. Inr (True, tag_only cx tag_latency (f\<lparr>f_pkt := pkt\<rparr>)))"
| "spm_store_loop cx pkt_data start_addr base_way (i # is) copied tag_latency f =
     (let base = (start_addr div of_nat (blkSize (cfg cx))) * of_nat (blkSize (cfg cx));
          first_off = unat (start_addr mod of_nat (blkSize (cfg cx)));
          way = base_way + i
      in if way \<ge> getWayAllocationMax (f_tags f) then Inr (False, f)
         else bindR (setSlot (slot_addr_of cx base way f) (f_pkt f)) (\<lambda>pkt.
           case f_findSPMSlot (f\<lparr>f_pkt := pkt\<rparr>) of
             (None, tl', f1) \<Rightarrow> Inr (True, tag_only cx tl' f1)
           | (Some s, tl', f1) \<Rightarrow>
               if \<not> blkValid (blk_at (f_tags f1) s) \<or> \<not> blk_isSet ScratchpadBit (blk_at (f_tags f1) s)
               then Inr (True, tag_only cx tl' f1)
               else let (off, chunk) = chunk_at cx first_off (getSize pkt) i copied in
                 bindR (f_with_blk s (fill_slot off (drop copied pkt_data) chunk (slot_ready_at cx tl' pkt)) f1) (\<lambda>f2.
                   if copied + chunk \<ge> getSize pkt
                   then spm_store_loop cx pkt_data start_addr base_way [] (copied + chunk) tl' f2
                   else spm_store_loop cx pkt_data start_addr base_way is (copied + chunk) tl' f2)))"

text \<open>The load loop collects the slots; a block that is not a slot ends it with zeros.\<close>

fun spm_load_slots ::
  "'s cx \<Rightarrow> addr \<Rightarrow> nat \<Rightarrow> nat list \<Rightarrow> nat list \<Rightarrow> cycles \<Rightarrow> 's frame \<Rightarrow>
   (nat list option \<times> cycles \<times> 's frame) res" where
  "spm_load_slots cx base base_way [] slots tag_latency f = Inr (Some slots, tag_latency, f)"
| "spm_load_slots cx base base_way (i # is) slots tag_latency f =
     (let way = base_way + i
      in must (\<not> way \<ge> getWayAllocationMax (f_tags f))
         (bindR (setSlot (slot_addr_of cx base way f) (f_pkt f)) (\<lambda>pkt.
           case f_findSPMSlot (f\<lparr>f_pkt := pkt\<rparr>) of
             (None, _, _) \<Rightarrow> Inl Assertion
           | (Some s, tl', f1) \<Rightarrow>
               if \<not> blkValid (blk_at (f_tags f1) s) \<or> \<not> blk_isSet ScratchpadBit (blk_at (f_tags f1) s)
               then bindR (if hasRespData pkt
                           then bindR (getPtr pkt) (\<lambda>d.
                                  Inr (pkt\<lparr>pdata := Some (memcpy d 0 (replicate (getSize pkt) 0) (getSize pkt))\<rparr>))
                           else Inr pkt)
                      (\<lambda>pkt1. Inr (None, tl', tag_only cx tl' (f1\<lparr>f_pkt := pkt1\<rparr>)))
               else spm_load_slots cx base base_way is (slots @ [s]) tl' f1)))"

fun spm_load_copy ::
  "'s cx \<Rightarrow> nat \<Rightarrow> cycles \<Rightarrow> nat \<Rightarrow> nat list \<Rightarrow> nat \<Rightarrow> byte list \<Rightarrow> cycles \<Rightarrow> 's frame \<Rightarrow> (byte list \<times> cycles) res" where
  "spm_load_copy cx first_off tag_latency i [] copied dat lat f = Inr (dat, lat)"
| "spm_load_copy cx first_off tag_latency i (s # ss) copied dat lat f =
     (let slot = blk_at (f_tags f) s;
          (off, n) = chunk_at cx first_off (getSize (f_pkt f)) i copied
      in bindR (calculateAccessLatency cx (Some slot) (headerDelay (f_pkt f)) tag_latency) (\<lambda>l.
           spm_load_copy cx first_off tag_latency (i + 1) ss (copied + n)
             (memcpy dat copied (drop off (blkData slot)) n) (max lat l) f))"

definition l2_load_access :: "'s cx \<Rightarrow> cycles \<Rightarrow> addr \<Rightarrow> nat \<Rightarrow> nat \<Rightarrow> 's frame \<Rightarrow> (bool \<times> 's frame) res" where
  "l2_load_access cx tag_latency start_addr base_way n f =
     (let base = (start_addr div of_nat (blkSize (cfg cx))) * of_nat (blkSize (cfg cx));
          first_off = unat (start_addr mod of_nat (blkSize (cfg cx)))
      in bindR (spm_load_slots cx base base_way [0..<n] [] tag_latency f) (\<lambda>(slots, tl', f1).
           case slots of
             None \<Rightarrow> Inr (True, f1)
           | Some ss \<Rightarrow>
               bindR (setSlot start_addr (f_pkt f1)) (\<lambda>pkt.
                 must (isRequest (cmd pkt)) (must (hasRespData pkt)
                   (bindR (getPtr pkt) (\<lambda>d.
                    bindR (spm_load_copy cx first_off tl' 0 ss 0 d 0 (f1\<lparr>f_pkt := pkt\<rparr>)) (\<lambda>(d', lat).
                      Inr (True, f1\<lparr>f_pkt := pkt\<lparr>pdata := Some d'\<rparr>, f_lat := lat\<rparr>))))))))"

definition l2_ldst_access :: "'s cx \<Rightarrow> cycles \<Rightarrow> 's frame \<Rightarrow> (bool \<times> 's frame) res" where
  "l2_ldst_access cx tag_latency f =
     must (cmd (f_pkt f) = SPMLoadReq \<or> cmd (f_pkt f) = SPMStoreReq)
       (bindR (setSlot (getAddr (f_pkt f)) ((f_pkt f)\<lparr>SPM_LDST_resp := True\<rparr>)) (\<lambda>pkt.
          let f1 = f\<lparr>f_pkt := pkt\<rparr>;
              start_addr = getSlot pkt;
              base = (start_addr div of_nat (blkSize (cfg cx))) * of_nat (blkSize (cfg cx));
              first_off = unat (start_addr mod of_nat (blkSize (cfg cx)));
              n = num_slots cx first_off (getSize pkt);
              base_way = extractWay (tagsIp (f_tags f1)) base
          in if cmd pkt = SPMStoreReq
             then bindR (getConstPtr pkt) (\<lambda>d. spm_store_loop cx d start_addr base_way [0..<n] 0 tag_latency f1)
             else l2_load_access cx tag_latency start_addr base_way n f1))"

section \<open>The common path\<close>

text \<open>
  An eviction from above meets a writeback of the same line in the write buffer: a clean one
  only unmarks the buffered packet, a dirty one replaces it.
\<close>

definition upd_front_pkt :: "(packet \<Rightarrow> packet) \<Rightarrow> wq_entry \<Rightarrow> wq_entry" where
  "upd_front_pkt h e =
     (case wq_targets e of [] \<Rightarrow> e | t # ts \<Rightarrow> e\<lparr>wq_targets := t\<lparr>t_pkt := h (t_pkt t)\<rparr> # ts\<rparr>)"

definition access_buffered_eviction :: "'s cx \<Rightarrow> cycles \<Rightarrow> 's frame \<Rightarrow> (bool \<times> 's frame) res" where
  "access_buffered_eviction cx tag_latency f =
     (if \<not> isEviction (cmd (f_pkt f)) then Inr (False, f)
      else let c = f_cache f; pkt = f_pkt f in
        bindR (wq_findMatch (getAddr pkt) (isSecure pkt) (writeBuffer c)) (\<lambda>m.
          case m of
            None \<Rightarrow> Inr (False, f)
          | Some j \<Rightarrow>
              let e = entry_at (writeBuffer c) j in
              must (wq_getNumTargets e = 1)
                (bindR (wq_getTarget e) (\<lambda>t.
                  must (isWriteback (cmd (t_pkt t)))
                    (if isCleanEviction pkt
                     then Inr (True, tag_only cx tag_latency
                            (f\<lparr>f_cache := c\<lparr>writeBuffer := upd_entry j (upd_front_pkt clearBlockCached e) (writeBuffer c)\<rparr>\<rparr>))
                     else must (cmd pkt = WritebackDirty)
                            (bindR (markInService_wq cx j c) (\<lambda>c1. Inr (False, f\<lparr>f_cache := c1\<rparr>))))))))"

text \<open>The block a writeback goes to: the one found, or a newly allocated readable one.\<close>

definition writeback_blk :: "'s cx \<Rightarrow> 's frame \<Rightarrow> 's frame res" where
  "writeback_blk cx f =
     (case f_blk f of
        Some i \<Rightarrow> Inr f
      | None \<Rightarrow>
          bindR (allocateBlock cx (f_pkt f) (f_wbs f) (f_cache f)) (\<lambda>(v, wbs, c).
            let f1 = f\<lparr>f_wbs := wbs, f_cache := c, f_blk := v\<rparr>
            in (case v of None \<Rightarrow> Inr f1 | Some i \<Rightarrow> f_with_blk i (setCoherenceBits ReadableBit) f1)))"

definition fill_ready_at :: "'s cx \<Rightarrow> cycles \<Rightarrow> packet \<Rightarrow> tick" where
  "fill_ready_at cx tag_latency pkt =
     clockEdge cx (fillLatency (cfg cx)) + headerDelay pkt +
     max (cyclesToTicks (cfg cx) tag_latency) (payloadDelay pkt)"

text \<open>Taking over the writeback's state and data; \<open>dirty\<close> and \<open>writable\<close> tell what it passes.\<close>

definition take_writeback :: "'s cx \<Rightarrow> cycles \<Rightarrow> bool \<Rightarrow> bool \<Rightarrow> packet \<Rightarrow> cache_blk \<Rightarrow> cache_blk res" where
  "take_writeback cx tag_latency dirty writable pkt b =
     bindR (if dirty then setCoherenceBits DirtyBit b else Inr b) (\<lambda>b1.
     bindR (if writable then setCoherenceBits WritableBit b1 else Inr b1) (\<lambda>b2.
       must (\<not> needsResponse (cmd pkt))
         (bindR (updateBlockData (cfg cx) pkt b2) (setWhenReady (fill_ready_at cx tag_latency pkt)))))"

definition access_writeback :: "'s cx \<Rightarrow> cycles \<Rightarrow> 's frame \<Rightarrow> (bool \<times> 's frame) res" where
  "access_writeback cx tag_latency f =
     (let pkt = f_pkt f in
      must (blkSize (cfg cx) = getSize pkt)
        (bindR (if cmd pkt = WritebackClean
                then mq_findMatch (getAddr pkt) (isSecure pkt) (mshrQueue (f_cache f)) else Inr None) (\<lambda>m.
          if m \<noteq> None then Inr (True, f)
          else bindR (writeback_blk cx f) (\<lambda>f1.
            case f_blk f1 of
              None \<Rightarrow> bindR (incMissCount cx pkt (f_cache f1)) (\<lambda>c. Inr (False, f1\<lparr>f_cache := c\<rparr>))
            | Some i \<Rightarrow>
                bindR (f_with_blk i (take_writeback cx tag_latency (cmd pkt = WritebackDirty) (\<not> hasSharers pkt) pkt) f1)
                  (\<lambda>f2. bindR (incHitCount cx pkt (f_cache f2)) (\<lambda>c. Inr (True, f2\<lparr>f_cache := c\<rparr>)))))))"

definition access_writeclean :: "'s cx \<Rightarrow> cycles \<Rightarrow> 's frame \<Rightarrow> (bool \<times> 's frame) res" where
  "access_writeclean cx tag_latency f =
     (let pkt = f_pkt f in
      must (blkSize (cfg cx) = getSize pkt)
        (if f_blk f = None \<and> writeThrough pkt then Inr (False, f)
         else bindR (writeback_blk cx f) (\<lambda>f1.
            case f_blk f1 of
              None \<Rightarrow> bindR (incMissCount cx pkt (f_cache f1)) (\<lambda>c. Inr (False, f1\<lparr>f_cache := c\<rparr>))
            | Some i \<Rightarrow>
                bindR (f_with_blk i (take_writeback cx tag_latency (\<not> writeThrough pkt) False pkt) f1)
                  (\<lambda>f2. bindR (incHitCount cx pkt (f_cache f2)) (\<lambda>c.
                     Inr (\<not> writeThrough pkt, f2\<lparr>f_cache := c\<rparr>))))))"

definition accessible :: "packet \<Rightarrow> cache_blk \<Rightarrow> bool" where
  "accessible pkt b \<longleftrightarrow>
     (if needsWritable (cmd pkt) then blk_isSet WritableBit b else blk_isSet ReadableBit b)"

definition access_hit :: "'s cx \<Rightarrow> cycles \<Rightarrow> nat \<Rightarrow> 's frame \<Rightarrow> (bool \<times> 's frame) res" where
  "access_hit cx tag_latency i f =
     bindR (incHitCount cx (f_pkt f) (f_cache f)) (\<lambda>c.
     bindR (if isRead (cmd (f_pkt f))
            then calculateAccessLatency cx (found_blk f) (headerDelay (f_pkt f)) tag_latency
            else Inr (calculateTagOnlyLatency (cfg cx) (headerDelay (f_pkt f)) tag_latency)) (\<lambda>lat.
     bindR (satisfyRequest cx False False (f_pkt f) (InTags i) c) (\<lambda>(pkt, c1).
     bindR (maintainClusivity cx (fromCache (cmd pkt)) (Some (InTags i)) c1) (\<lambda>c2.
       Inr (True, f\<lparr>f_pkt := pkt, f_lat := lat, f_cache := c2\<rparr>)))))"

definition access_miss :: "'s cx \<Rightarrow> cycles \<Rightarrow> 's frame \<Rightarrow> (bool \<times> 's frame) res" where
  "access_miss cx tag_latency f =
     bindR (incMissCount cx (f_pkt f) (f_cache f)) (\<lambda>c.
     bindR (calculateAccessLatency cx (found_blk f) (headerDelay (f_pkt f)) tag_latency) (\<lambda>lat.
       let f1 = f\<lparr>f_cache := c, f_lat := lat\<rparr>; pkt = f_pkt f1
       in if f_blk f1 = None \<and> isLLSC (cmd pkt) \<and> isWrite (cmd pkt)
          then Inr (True, f1\<lparr>f_pkt := pkt\<lparr>req := setExtraData 0 (req pkt)\<rparr>\<rparr>)
          else Inr (False, f1)))"

text \<open>What is left after maintenance operations and buffered evictions are dealt with.\<close>

definition access_dispatch :: "'s cx \<Rightarrow> cycles \<Rightarrow> 's frame \<Rightarrow> (bool \<times> 's frame) res" where
  "access_dispatch cx tag_latency f =
     (let c = cmd (f_pkt f) in
      if isWriteback c then access_writeback cx tag_latency f
      else if c = CleanEvict then Inr (f_blk f \<noteq> None, tag_only cx tag_latency f)
      else if c = WriteClean then access_writeclean cx tag_latency f
      else (case f_blk f of
              Some i \<Rightarrow> if accessible (f_pkt f) (blk_at (f_tags f) i)
                        then access_hit cx tag_latency i f else access_miss cx tag_latency f
            | None \<Rightarrow> access_miss cx tag_latency f))"

definition access_common :: "'s cx \<Rightarrow> cycles \<Rightarrow> 's frame \<Rightarrow> (bool \<times> 's frame) res" where
  "access_common cx tag_latency f =
     (if isCacheMaintenance (req (f_pkt f)) then Inr (False, tag_only cx tag_latency f)
      else bindR (access_buffered_eviction cx tag_latency f) (\<lambda>(sunk, f1).
        if sunk then Inr (True, f1)
        else access_dispatch cx tag_latency
               (if isWrite (cmd (f_pkt f1)) then tag_only cx tag_latency f1 else f1)))"

section \<open>The whole access\<close>

definition access_spm_l2 :: "'s cx \<Rightarrow> cycles \<Rightarrow> 's frame \<Rightarrow> (bool \<times> 's frame) res" where
  "access_spm_l2 cx tag_latency f =
     bindR (l2_copy_source cx tag_latency f) (\<lambda>(slot_latency, f1).
       if cmd (f_pkt f1) = CPTOSPMReq then l2_copy_access cx slot_latency f1
       else if cmd (f_pkt f1) = SPMWritebackReq
       then bindR (l2_writeback_access cx f1) (\<lambda>(r, tag_latency', f2).
              case r of Some hit \<Rightarrow> Inr (hit, f2) | None \<Rightarrow> access_common cx tag_latency' f2)
       else l2_ldst_access cx tag_latency f1)"

definition base_access :: "'s cx \<Rightarrow> packet \<Rightarrow> 's cache \<Rightarrow> (bool \<times> 's frame) res" where
  "base_access cx pkt c =
     must (isRequest (cmd pkt))
      (must (\<not> (isReadOnly (cfg cx) \<and> isWrite (cmd pkt)))
        (bindR (accessBlock (ops cx) (renv cx) pkt (c_tags c)) (\<lambda>(blk, tag_latency, t).
          let f = \<lparr>f_pkt = pkt, f_blk = blk, f_lat = 0, f_wbs = [], f_cache = c\<lparr>c_tags := t\<rparr>\<rparr>
          in if isSPMcmd (cmd pkt) \<and> is_l1_cache (cfg cx) then l1_spm_access cx tag_latency f
             else if isSPMcmd (cmd pkt) \<and> is_l2_cache (cfg cx) then access_spm_l2 cx tag_latency f
             else access_common cx tag_latency f)))"

definition access :: "'s cx \<Rightarrow> packet \<Rightarrow> 's cache \<Rightarrow> (bool \<times> 's frame) res" where
  "access cx pkt c =
     (if isUncacheable (req pkt)
      then must (isRequest (cmd pkt))
        (must (\<not> (isReadOnly (cfg cx) \<and> isWrite (cmd pkt)))
          (bindR (case findBlock (getAddr pkt) (isSecure pkt) (c_tags c) of
                    Some i \<Rightarrow> if blkValid (blk_at (c_tags c) i)
                              then bindR (evictBlock cx (InTags i) c) (\<lambda>(wb, c1). Inr ([wb], c1))
                              else Inr ([], c)
                  | None \<Rightarrow> Inr ([], c))
            (\<lambda>(wbs, c1). Inr (False, \<lparr>f_pkt = pkt, f_blk = None, f_lat = tagLatency (cfg cx),
                                      f_wbs = wbs, f_cache = c1\<rparr>))))
      else base_access cx pkt c)"

end
