(* ===== verification/Cache_Snoop.thy ===== *)
theory Cache_Snoop
  imports Cache_Access Int_Math
begin

text \<open>
  What the coherent cache sends besides fills and misses: responses on the two ports towards
  the requestors with the shared read bandwidth of the second level (\<^verbatim>\<open>sharedReadEgress\<close>,
  \<^verbatim>\<open>spmSchedResp\<close> of src/gem5/src/mem/cache/base.cc), evicted lines on their way to the write
  buffer, and the snoop path (\<^verbatim>\<open>doWritebacks\<close>, \<^verbatim>\<open>handleSnoop\<close>, \<^verbatim>\<open>recvTimingSnoopReq\<close> of
  src/gem5/src/mem/cache/cache.cc) in timing mode.

  The caches above and the memory system below are a parameter: \<open>snoopAbove\<close> is the packet an
  express snoop comes back as, \<open>sendBelow\<close> whether a request is accepted and the packet with
  the flags the neighbours have set on it. A snooped packet belongs to its sender; the handlers
  return it with the flags they set.
\<close>

record neighbours =
  snoopAbove :: "packet \<Rightarrow> packet"
  sendBelow :: "packet \<Rightarrow> bool \<times> packet"

section \<open>Sending responses\<close>

definition schedTimingResp :: "packet \<Rightarrow> tick \<Rightarrow> 's cache \<Rightarrow> 's cache" where
  "schedTimingResp pkt t c = c\<lparr>cpuResps := cpuResps c @ [(pkt, t)]\<rparr>"

definition sharedReadEgress :: "cache_cfg \<Rightarrow> tick \<Rightarrow> packet \<Rightarrow> 's cache \<Rightarrow> tick \<times> 's cache" where
  "sharedReadEgress g t pkt c =
     (if \<not> cfSpmSharedBw g \<or> \<not> is_l2_cache g then (t, c)
      else if \<not> hasData (cmd pkt) \<or> isWrite (cmd pkt) then (t, c)
      else if SPMresp pkt \<and> \<not> SPM_LDST_resp pkt then (t, c)
      else let beats = divCeil (getSize pkt) 64 + (if cfSpmHdrCharge g \<and> SPM_LDST_resp pkt then 1 else 0);
               start = max t (spmPortFreeAt c)
           in (start, c\<lparr>spmPortFreeAt := start + cyclesToTicks g beats\<rparr>))"

definition cpuRespond :: "cache_cfg \<Rightarrow> packet \<Rightarrow> tick \<Rightarrow> 's cache \<Rightarrow> 's cache" where
  "cpuRespond g pkt t c = (case sharedReadEgress g t pkt c of (t1, c1) \<Rightarrow> schedTimingResp pkt t1 c1)"

definition spmSchedResp :: "cache_cfg \<Rightarrow> packet \<Rightarrow> tick \<Rightarrow> 's cache \<Rightarrow> 's cache" where
  "spmSchedResp g pkt t c =
     (case sharedReadEgress g t pkt c of (t1, c1) \<Rightarrow>
        if \<not> spmConnected g then schedTimingResp pkt t1 c1
        else let t2 = (if spmBandwidth g > 0 \<and> getSize pkt > spmBandwidth g
                       then t1 + cyclesToTicks g (divCeil (getSize pkt) (spmBandwidth g)) else t1)
             in c1\<lparr>spmResps := spmResps c1 @ [(pkt, t2)]\<rparr>)"

section \<open>Writebacks\<close>

definition isCachedAbove :: "'s cx \<Rightarrow> neighbours \<Rightarrow> packet \<Rightarrow> bool res" where
  "isCachedAbove cx ns pkt =
     (if \<not> forwardSnoops (cfg cx) then Inr False
      else bindR (Packet_copy (fresh cx) pkt True False) (\<lambda>snoop_pkt.
             must (isEviction (cmd pkt) \<or> cmd pkt = WriteClean)
               (let back = snoopAbove ns ((setExpressSnoop snoop_pkt)\<lparr>senderState := []\<rparr>)
                in must (\<not> cacheResponding back) (Inr (isBlockCached back)))))"

fun doWritebacks :: "'s cx \<Rightarrow> neighbours \<Rightarrow> packet list \<Rightarrow> tick \<Rightarrow> 's cache \<Rightarrow> 's cache res" where
  "doWritebacks cx ns [] forward_time c = Inr c"
| "doWritebacks cx ns (wb # wbs) forward_time c =
     bindR (if isSPMcmd (cmd wb) then allocateWriteBuffer cx wb forward_time c
            else bindR (isCachedAbove cx ns wb) (\<lambda>above.
                   if \<not> above then allocateWriteBuffer cx wb forward_time c
                   else if cmd wb = CleanEvict then Inr c
                   else if cmd wb = WritebackClean then must (writebackClean (cfg cx)) (Inr c)
                   else must (cmd wb = WritebackDirty \<or> cmd wb = WriteClean)
                          (allocateWriteBuffer cx (setBlockCached wb) forward_time c)))
       (doWritebacks cx ns wbs forward_time)"

section \<open>Answering snoops\<close>

definition doTimingSupplyResponse ::
  "'s cx \<Rightarrow> packet \<Rightarrow> byte list \<Rightarrow> bool \<Rightarrow> bool \<Rightarrow> 's cache \<Rightarrow> 's cache res" where
  "doTimingSupplyResponse cx req_pkt blk_data already_copied pending_inval c =
     must (isRequest (cmd req_pkt)) (must (needsResponse (cmd req_pkt))
       (bindR (if already_copied then Inr req_pkt
               else Packet_copy (fresh cx) req_pkt False (isRead (cmd req_pkt))) (\<lambda>pkt.
          must (isUncacheable (req req_pkt) \<or> isInvalidate (cmd req_pkt) \<or> hasSharers pkt)
            (bindR (makeResponse pkt) (\<lambda>pkt1.
             bindR (if isRead (cmd pkt1) then setDataFromBlock blk_data (blkSize (cfg cx)) pkt1 else Inr pkt1) (\<lambda>pkt2.
               let pkt3 = (if cmd pkt2 = ReadResp \<and> pending_inval
                           then pkt2\<lparr>cmd := ReadRespWithInvalidate\<rparr> else pkt2);
                   forward_time = clockEdge cx (forwardLatency (cfg cx)) + headerDelay pkt3
               in Inr (c\<lparr>snoopResps := snoopResps c @
                          [(pkt3\<lparr>headerDelay := 0, payloadDelay := 0\<rparr>, forward_time)]\<rparr>)))))))"

text \<open>The snoop goes to the caches above first; their answer is noted on the packet.\<close>

definition snoop_upwards :: "'s cx \<Rightarrow> neighbours \<Rightarrow> packet \<Rightarrow> (nat \<times> packet) res" where
  "snoop_upwards cx ns pkt =
     (if \<not> forwardSnoops (cfg cx) then Inr (0, pkt)
      else bindR (Packet_copy (fresh cx) pkt True True) (\<lambda>p.
             let back = snoopAbove ns ((setExpressSnoop p)\<lparr>headerDelay := 0, payloadDelay := 0\<rparr>);
                 pkt1 = (if isBlockCached back then setBlockCached pkt else pkt)
             in bindR (if satisfied back then setSatisfied pkt1 else Inr pkt1) (\<lambda>pkt2.
                bindR (copyResponderFlags back pkt2) (\<lambda>pkt3. Inr (headerDelay back, pkt3)))))"

text \<open>A cleaning snoop writes a dirty block towards its destination and keeps it.\<close>

definition snoop_clean ::
  "'s cx \<Rightarrow> neighbours \<Rightarrow> packet \<Rightarrow> blk_ptr option \<Rightarrow> 's cache \<Rightarrow> (packet \<times> 's cache) res" where
  "snoop_clean cx ns pkt blk c =
     (case blk of
        Some bp \<Rightarrow>
          if blkValid (get_blk c bp) \<and> blk_isSet DirtyBit (get_blk c bp)
          then bindR (writecleanBlk cx bp (getDest (req pkt)) c) (\<lambda>(wb, c1).
               bindR (doWritebacks cx ns [wb] (clockEdge cx (forwardLatency (cfg cx)) + headerDelay pkt) c1) (\<lambda>c2.
               bindR (setSatisfied pkt) (\<lambda>pkt1. Inr (pkt1, c2))))
          else Inr (pkt, c)
      | None \<Rightarrow> Inr (pkt, c))"

text \<open>Giving up exclusivity to a reader, and supplying the data of a dirty block.\<close>

definition snoop_share :: "packet \<Rightarrow> bool \<Rightarrow> bool \<Rightarrow> blk_ptr option \<Rightarrow> 's cache \<Rightarrow> (packet \<times> 's cache) res" where
  "snoop_share pkt invalidate needs_writable blk c =
     (if isRead (cmd pkt) \<and> \<not> invalidate
      then must (\<not> needs_writable)
             (bindR (if isUncacheable (req pkt) then Inr c
                     else case blk of None \<Rightarrow> Inl OutOfRange
                          | Some bp \<Rightarrow> Inr (set_blk bp (clearCoherenceBits WritableBit (get_blk c bp)) c))
               (\<lambda>c1. Inr (setHasSharers pkt, c1)))
      else Inr (pkt, c))"

definition snoop_supply ::
  "'s cx \<Rightarrow> packet \<Rightarrow> bool \<Rightarrow> bool \<Rightarrow> bool \<Rightarrow> blk_ptr \<Rightarrow> 's cache \<Rightarrow> (packet \<times> 's cache) res" where
  "snoop_supply cx pkt invalidate is_deferred pending_inval bp c =
     bindR (setCacheResponding pkt) (\<lambda>pkt1.
     bindR (if \<not> isClean (cmd pkt1) \<and> blk_isSet WritableBit (get_blk c bp)
            then setResponderHadWritable pkt1 else Inr pkt1) (\<lambda>pkt2.
       panic_when (\<not> invalidate \<and> \<not> hasSharers pkt2)
         (bindR (doTimingSupplyResponse cx pkt2 (blkData (get_blk c bp)) is_deferred pending_inval c)
           (\<lambda>c1. Inr (pkt2, c1)))))"

definition snoop_finish ::
  "'s cx \<Rightarrow> packet \<Rightarrow> bool \<Rightarrow> bool \<Rightarrow> bool \<Rightarrow> bool \<Rightarrow> bool \<Rightarrow> blk_ptr option \<Rightarrow> bool \<Rightarrow> 's cache \<Rightarrow>
   (packet \<times> 's cache) res" where
  "snoop_finish cx pkt respond invalidate needs_writable is_deferred pending_inval blk blk_valid c =
     (if mustCheckAbove pkt then Inr (setBlockCached pkt, c)
      else bindR (snoop_share pkt invalidate needs_writable blk c) (\<lambda>(pkt1, c1).
           bindR (case (respond, blk) of
                    (True, Some bp) \<Rightarrow> snoop_supply cx pkt1 invalidate is_deferred pending_inval bp c1
                  | _ \<Rightarrow> must (is_deferred \<longrightarrow> needsResponse (cmd pkt1)) (Inr (pkt1, c1))) (\<lambda>(pkt2, c2).
           bindR (case blk of
                    Some bp \<Rightarrow> if blk_valid \<and> invalidate then invalidateBlock cx bp c2 else Inr c2
                  | None \<Rightarrow> Inr c2) (\<lambda>c3. Inr (pkt2, c3)))))"

definition handleSnoop ::
  "'s cx \<Rightarrow> neighbours \<Rightarrow> packet \<Rightarrow> blk_ptr option \<Rightarrow> bool \<Rightarrow> bool \<Rightarrow> 's cache \<Rightarrow>
   (nat \<times> packet \<times> 's cache) res" where
  "handleSnoop cx ns pkt blk is_deferred pending_inval c =
     must (pending_inval \<longrightarrow> is_deferred) (must (isRequest (cmd pkt))
       (let invalidate = isInvalidate (cmd pkt);
            needs_writable = needsWritable (cmd pkt);
            blk_valid = (case blk of None \<Rightarrow> False | Some bp \<Rightarrow> blkValid (get_blk c bp));
            dirty = (case blk of None \<Rightarrow> False | Some bp \<Rightarrow> blk_isSet DirtyBit (get_blk c bp))
        in panic_when (invalidate \<and> isUncacheable (req pkt))
          (bindR (snoop_upwards cx ns pkt) (\<lambda>(snoop_delay, pkt1).
             if isClean (cmd pkt1)
             then bindR (snoop_clean cx ns pkt1 blk c) (\<lambda>(pkt2, c1).
                  bindR (snoop_finish cx pkt2 False invalidate needs_writable is_deferred pending_inval
                           blk blk_valid c1) (\<lambda>(pkt3, c2). Inr (snoop_delay, pkt3, c2)))
             else if \<not> blk_valid
             then must (is_deferred \<longrightarrow> needsResponse (cmd pkt1) \<and> cacheResponding pkt1)
                    (Inr (snoop_delay, pkt1, c))
             else must (\<not> (isReadOnly (cfg cx) \<and> dirty))
                    (bindR (snoop_finish cx pkt1 (dirty \<and> needsResponse (cmd pkt1)) invalidate needs_writable
                              is_deferred pending_inval blk blk_valid c) (\<lambda>(pkt2, c1).
                       Inr (snoop_delay, pkt2, c1)))))))"

text \<open>
  A line waiting in the write buffer answers like a block. The first result tells whether the
  snoop ends here.
\<close>

definition snoop_writeBuffer :: "'s cx \<Rightarrow> packet \<Rightarrow> nat \<Rightarrow> 's cache \<Rightarrow> (bool \<times> packet \<times> 's cache) res" where
  "snoop_writeBuffer cx pkt i c =
     (let e = entry_at (writeBuffer c) i in
      must (\<not> e_uncacheable e) (must (wq_getNumTargets e = 1)
        (bindR (wq_getTarget e) (\<lambda>tgt.
           let wb = t_pkt tgt in
           if isSPMcmd (cmd wb) then Inr (True, pkt, c)
           else must (isEviction (cmd wb) \<or> cmd wb = WriteClean)
             (if isEviction (cmd pkt) then Inr (True, setBlockCached pkt, c)
              else let respond = (cmd wb = WritebackDirty \<and> needsResponse (cmd pkt));
                       have_writable = (\<not> hasSharers wb);
                       invalidate = isInvalidate (cmd pkt);
                       share = (\<not> isUncacheable (req pkt) \<and> isRead (cmd pkt) \<and> \<not> invalidate);
                       pkt1 = (if share then setHasSharers pkt else pkt);
                       c1 = (if share
                             then c\<lparr>writeBuffer := upd_entry i (upd_front_pkt setHasSharers e) (writeBuffer c)\<rparr>
                             else c)
                   in must (share \<longrightarrow> \<not> needsWritable (cmd pkt))
                     (bindR (if respond
                             then bindR (setCacheResponding pkt1) (\<lambda>pkt2.
                                  bindR (if have_writable then setResponderHadWritable pkt2 else Inr pkt2) (\<lambda>pkt3.
                                  bindR (getConstPtr wb) (\<lambda>d.
                                  bindR (doTimingSupplyResponse cx pkt3 d False False c1) (\<lambda>c2. Inr (pkt3, c2)))))
                             else Inr (pkt1, c1)) (\<lambda>(pkt4, c3).
                      bindR (if invalidate \<and> cmd wb \<noteq> WriteClean then markInService_wq cx i c3 else Inr c3)
                        (\<lambda>c4. Inr (False, pkt4, c4)))))))))"

definition inRange :: "cache_cfg \<Rightarrow> addr \<Rightarrow> bool" where
  "inRange g a \<longleftrightarrow> list_ex (\<lambda>r. r a) (addrRanges g)"

text \<open>What a miss register does with the snoop; the first result tells whether it keeps it.\<close>

definition snoop_mshr :: "'s cx \<Rightarrow> packet \<Rightarrow> nat \<Rightarrow> 's cache \<Rightarrow> (bool \<times> packet \<times> 's cache) res" where
  "snoop_mshr cx pkt i c =
     (if mustCheckAbove pkt then Inr (True, setBlockCached pkt, c)
      else bindR (mshr_handleSnoop (fresh cx) (curTick cx) pkt (c_order c) (upPending c) (entry_at (mshrQueue c) i))
        (\<lambda>(keep, pkt1, up, m).
           Inr (keep, pkt1, c\<lparr>mshrQueue := upd_entry i m (mshrQueue c), upPending := up, c_order := c_order c + 1\<rparr>)))"

definition recvTimingSnoopReq :: "'s cx \<Rightarrow> neighbours \<Rightarrow> packet \<Rightarrow> 's cache \<Rightarrow> (packet \<times> 's cache) res" where
  "recvTimingSnoopReq cx ns pkt c =
     (if \<not> inRange (cfg cx) (getAddr pkt) then Inr (pkt, c)
      else let blk = map_option InTags (findBlock (getAddr pkt) (isSecure pkt) (c_tags c));
               blk_addr = getBlockAddr (blkSize (cfg cx)) pkt;
               lookup = tagLatency (cfg cx) * clockPeriod (cfg cx);
               pkt0 = pkt\<lparr>snoopDelay := max (snoopDelay pkt) lookup\<rparr>
           in bindR (mq_findMatch blk_addr (isSecure pkt) (mshrQueue c)) (\<lambda>mshr.
              bindR (case mshr of None \<Rightarrow> Inr (False, pkt0, c) | Some i \<Rightarrow> snoop_mshr cx pkt0 i c) (\<lambda>(ended, pkt1, c1).
                if ended then Inr (pkt1, c1)
                else bindR (wq_findMatch blk_addr (isSecure pkt) (writeBuffer c1)) (\<lambda>wb_entry.
                     bindR (case wb_entry of None \<Rightarrow> Inr (False, pkt1, c1) | Some j \<Rightarrow> snoop_writeBuffer cx pkt1 j c1)
                       (\<lambda>(ended', pkt2, c2).
                          if ended' then Inr (pkt2, c2)
                          else bindR (handleSnoop cx ns pkt2 blk False False c2) (\<lambda>(snoop_delay, pkt3, c3).
                                 Inr (pkt3\<lparr>snoopDelay := max (snoopDelay pkt3) (snoop_delay + lookup)\<rparr>, c3)))))))"

end
