(* ===== verification/Cache_Fill.thy ===== *)
theory Cache_Fill
  imports Cache_Snoop
begin

text \<open>
  The response path of the coherent cache in timing mode: filling a block
  (\<^verbatim>\<open>handleFill\<close>, src/gem5/src/mem/cache/base.cc), serving the targets of the miss register
  (\<^verbatim>\<open>serviceMSHRTargets\<close>, src/gem5/src/mem/cache/cache.cc) with the scratchpad copies and
  writebacks among them, and the handler that puts both together (\<^verbatim>\<open>recvTimingResp\<close>).

  A miss register is designated by its index in the queue; the state a request carries back
  from below holds that index.
\<close>

section \<open>Filling a block\<close>

definition fill_blk :: "'s cx \<Rightarrow> packet \<Rightarrow> bool \<Rightarrow> cache_blk \<Rightarrow> cache_blk res" where
  "fill_blk cx pkt in_tags b =
     (let g = cfg cx in
      bindR (setCoherenceBits ReadableBit b) (\<lambda>b1.
      bindR (if is_l2_cache g \<and> in_tags \<and> isNoL1Alloc (req pkt) \<and> cfL2PinKeepEnabled g
             then setCoherenceBits PinnedBit b1 else Inr b1) (\<lambda>b2.
      bindR (if is_l1_cache g \<and> in_tags \<and> isPinL1Keep (req pkt) \<and> cfL1PinKeepEnabled g
             then setCoherenceBits PinnedBit b2 else Inr b2) (\<lambda>b3.
        must (cmd pkt = InvalidateResp \<longrightarrow> \<not> hasSharers pkt)
         (bindR (if hasSharers pkt then Inr b3
                 else bindR (setCoherenceBits WritableBit b3) (\<lambda>b4.
                        if cacheResponding pkt
                        then bindR (setCoherenceBits DirtyBit b4) (\<lambda>b5. must (\<not> isReadOnly g) (Inr b5))
                        else Inr b4)) (\<lambda>b6.
          bindR (if isRead (cmd pkt)
                 then must (hasData (cmd pkt)) (must (getSize pkt = blkSize g) (updateBlockData g pkt b6))
                 else Inr b6) (\<lambda>b7.
            setWhenReady (clockEdge cx (fillLatency g) + headerDelay pkt + payloadDelay pkt) b7)))))))"

text \<open>The block that takes the fill: the one present, a new one, or the temporary block.\<close>

definition fill_target ::
  "'s cx \<Rightarrow> packet \<Rightarrow> nat option \<Rightarrow> packet list \<Rightarrow> bool \<Rightarrow> 's cache \<Rightarrow> (blk_ptr \<times> packet list \<times> 's cache) res" where
  "fill_target cx pkt blk wbs alloc c =
     (case blk of
        Some i \<Rightarrow> Inr (InTags i, wbs, c)
      | None \<Rightarrow>
          must (hasData (cmd pkt) \<or> cmd pkt = InvalidateResp)
            (bindR (if SPMresp pkt \<or> \<not> alloc then Inr (None, wbs, c) else allocateBlock cx pkt wbs c)
              (\<lambda>(v, wbs1, c1).
                 case v of
                   Some i \<Rightarrow> Inr (InTags i, wbs1, c1)
                 | None \<Rightarrow> bindR (tempBlock_insert (getAddr pkt) (isSecure pkt) c1) (\<lambda>c2.
                     Inr (TempBlk, wbs1, c2)))))"

definition handleFill ::
  "'s cx \<Rightarrow> packet \<Rightarrow> nat option \<Rightarrow> packet list \<Rightarrow> bool \<Rightarrow> 's cache \<Rightarrow> (blk_ptr \<times> packet list \<times> 's cache) res" where
  "handleFill cx pkt blk wbs alloc c =
     must (isResponse (cmd pkt))
      (must (getAddr pkt = getBlockAddr (blkSize (cfg cx)) pkt)
       (bindR (wq_findMatch (getAddr pkt) (isSecure pkt) (writeBuffer c)) (\<lambda>w.
         must (w = None)
          (bindR (fill_target cx pkt blk wbs alloc c) (\<lambda>(bp, wbs1, c1).
             must (blkValid (get_blk c1 bp))
              (must (blkSecure (get_blk c1 bp) = isSecure pkt)
               (must (cache_regenerateBlkAddr bp c1 = getAddr pkt)
                 (bindR (with_blk bp (fill_blk cx pkt (bp \<noteq> TempBlk)) c1) (\<lambda>c2.
                    Inr (bp, wbs1, c2))))))))))"

section \<open>Serving the targets of a miss register\<close>

text \<open>
  A scratchpad copy takes its bytes from the line that has arrived and writes them into the
  slot, if the slot is still one; the response is sent either way.
\<close>

definition respond_spm :: "'s cx \<Rightarrow> packet \<Rightarrow> packet \<Rightarrow> 's cache \<Rightarrow> 's cache res" where
  "respond_spm cx pkt tgt_pkt c =
     bindR (makeResponse tgt_pkt) (\<lambda>r.
       Inr (spmSchedResp (cfg cx) (r\<lparr>headerDelay := 0, payloadDelay := 0\<rparr>)
              (headerDelay pkt + clockEdge cx (responseLatency (cfg cx))) c))"

definition demote_source :: "'s cx \<Rightarrow> blk_ptr \<Rightarrow> 's cache \<Rightarrow> 's cache res" where
  "demote_source cx bp c =
     (case bp of
        InTags i \<Rightarrow> bindR (demoteToLRU (ops cx) i (c_tags c)) (\<lambda>t. Inr (c\<lparr>c_tags := t\<rparr>))
      | TempBlk \<Rightarrow> Inr c)"

definition service_copy :: "'s cx \<Rightarrow> packet \<Rightarrow> packet \<Rightarrow> blk_ptr option \<Rightarrow> 's cache \<Rightarrow> 's cache res" where
  "service_copy cx pkt tgt_pkt blk c =
     must (is_l2_cache (cfg cx))
      (case blk of
         None \<Rightarrow> Inl Assertion
       | Some bp \<Rightarrow>
           must (blkValid (get_blk c bp))
            (bindR (if hasData (cmd tgt_pkt) then Inr tgt_pkt else allocate (fresh cx) tgt_pkt) (\<lambda>tgt0.
             bindR (copy_from_line cx (get_blk c bp) tgt0) (\<lambda>tgt1.
             bindR (demote_source cx bp c) (\<lambda>c1.
               case findSPMSlot tgt1 (c_tags c1) of (slot, _, t) \<Rightarrow>
                 let c2 = c1\<lparr>c_tags := t\<rparr> in
                 bindR (case slot of
                          None \<Rightarrow> Inr c2
                        | Some s \<Rightarrow>
                            if blk_isSet ScratchpadBit (blk_at t s)
                            then bindR (getPtr tgt1) (\<lambda>d.
                                   with_blk (InTags s) (fill_slot (line_offset cx (getSlot tgt1)) d (getSpmSize tgt1)
                                     (clockEdge cx (fillLatency (cfg cx)))) c2)
                            else Inr c2) (\<lambda>c3.
                   respond_spm cx pkt (tgt1\<lparr>SPMresp := True\<rparr>) c3))))))"

text \<open>A writeback from the scratchpad goes into the line that has arrived.\<close>

definition service_spm_writeback :: "'s cx \<Rightarrow> packet \<Rightarrow> packet \<Rightarrow> blk_ptr option \<Rightarrow> 's cache \<Rightarrow> 's cache res" where
  "service_spm_writeback cx pkt tgt_pkt blk c =
     must (is_l2_cache (cfg cx))
      (case blk of
         None \<Rightarrow> Inl Assertion
       | Some bp \<Rightarrow>
           must (blkValid (get_blk c bp))
            (case findSPMSlot tgt_pkt (c_tags c) of
               (None, _, _) \<Rightarrow> Inl Assertion
             | (Some s, _, t) \<Rightarrow>
                 let c1 = c\<lparr>c_tags := t\<rparr>;
                     slot = blk_at t s;
                     slot_offset = line_offset cx (getSlot tgt_pkt);
                     n = getSpmSize tgt_pkt;
                     coherence_offset = line_offset cx (getAddr tgt_pkt)
                 in must (blkValid slot \<and> blk_isSet ScratchpadBit slot)
                     (bindR (if hasData (cmd tgt_pkt) then Inr tgt_pkt else allocate (fresh cx) tgt_pkt) (\<lambda>tgt0.
                      bindR (getPtr tgt0) (\<lambda>d.
                        if slot_offset + n > blkSize (cfg cx) then Inl OutOfRange
                        else let dst = memcpy d 0 (drop slot_offset (blkData slot)) n;
                                 tgt1 = tgt0\<lparr>pdata := Some dst\<rparr>
                             in must (coherence_offset + n \<le> blkSize (cfg cx))
                                  (bindR (with_blk bp (write_line tgt1 coherence_offset dst n) c1) (\<lambda>c2.
                                     respond_spm cx pkt tgt1 c2)))))))"

text \<open>
  An ordinary target is satisfied from the block, or from the response when it is only
  forwarded. The result is the target's packet and its completion time.
\<close>

definition service_from_blk ::
  "'s cx \<Rightarrow> nat \<Rightarrow> packet \<Rightarrow> packet \<Rightarrow> blk_ptr \<Rightarrow> nat \<Rightarrow> 's cache \<Rightarrow> (packet \<times> tick \<times> 's cache) res" where
  "service_from_blk cx i pkt tgt_pkt bp initial_offset c =
     (let g = cfg cx; m = entry_at (mshrQueue c) i in
      bindR (hasPostDowngrade m) (\<lambda>pd.
      bindR (satisfyRequest cx True pd tgt_pkt bp c) (\<lambda>(tgt1, c1).
        let d = int (unat (getOffset (blkSize g) tgt1)) - int initial_offset;
            transfer_offset = (if d < 0 then d + int (blkSize g) else d);
            completion_time = headerDelay pkt + clockEdge cx (responseLatency g) +
              (if transfer_offset \<noteq> 0 then payloadDelay pkt else 0)
        in must (\<not> isUncacheable (req tgt1))
            (must (requestorId (req tgt1) < sysMaxRequestors g)
             (if cmd tgt1 = LockedRMWReadReq
              then bindR (updateLockedRMWReadTarget tgt_pkt (entry_at (mshrQueue c1) i)) (\<lambda>m1.
                     Inr (tgt1, completion_time,
                          set_blk bp (clearCoherenceBits ReadableBit (clearCoherenceBits WritableBit (get_blk c1 bp)))
                            (c1\<lparr>mshrQueue := upd_entry i m1 (mshrQueue c1)\<rparr>)))
              else Inr (tgt1, completion_time, c1))))))"

definition service_forwarded ::
  "'s cx \<Rightarrow> packet \<Rightarrow> packet \<Rightarrow> blk_ptr option \<Rightarrow> bool \<Rightarrow> bool \<Rightarrow> 's cache \<Rightarrow> (packet \<times> tick \<times> 's cache) res" where
  "service_forwarded cx pkt tgt_pkt blk is_error is_invalidate c =
     bindR (case blk of
              None \<Rightarrow> Inr c
            | Some bp \<Rightarrow> if is_invalidate \<and> blkValid (get_blk c bp) then invalidateBlock cx bp c else Inr c) (\<lambda>c1.
     bindR (if is_error then Inr tgt_pkt
            else if isRead (cmd pkt)
            then must (matchAddr (getAddr tgt_pkt) (isSecure tgt_pkt) pkt)
                  (must (getSize pkt \<ge> getSize tgt_pkt)
                    (bindR (getConstPtr pkt) (\<lambda>d. setData d tgt_pkt)))
            else must (\<not> hasRespData tgt_pkt) (Inr tgt_pkt)) (\<lambda>tgt1.
     bindR (copyResponderFlags pkt tgt1) (\<lambda>tgt2.
       Inr (tgt2, headerDelay pkt + clockEdge cx (responseLatency (cfg cx)) + payloadDelay pkt, c1))))"

definition service_data ::
  "'s cx \<Rightarrow> nat \<Rightarrow> packet \<Rightarrow> packet \<Rightarrow> blk_ptr option \<Rightarrow> nat \<Rightarrow> bool \<Rightarrow> bool \<Rightarrow> 's cache \<Rightarrow>
   (packet \<times> tick \<times> 's cache) res" where
  "service_data cx i pkt tgt_pkt blk initial_offset is_error is_invalidate c =
     (let m = entry_at (mshrQueue c) i;
          rl = clockEdge cx (responseLatency (cfg cx));
          rest = (if cmd pkt = UpgradeFailResp
                  then must (cmd tgt_pkt = StoreCondReq \<or> cmd tgt_pkt = StoreCondFailReq \<or>
                             cmd tgt_pkt = SCUpgradeFailReq)
                         (Inr (tgt_pkt\<lparr>req := setExtraData 0 (req tgt_pkt)\<rparr>,
                               headerDelay pkt + rl + payloadDelay pkt, c))
                  else if cmd pkt = LockedRMWWriteResp then Inr (tgt_pkt, rl, c)
                  else service_forwarded cx pkt tgt_pkt blk is_error is_invalidate c)
      in case blk of
           Some bp \<Rightarrow> if blkValid (get_blk c bp) \<and> (\<not> isForward m \<or> \<not> hasData (cmd pkt))
                      then service_from_blk cx i pkt tgt_pkt bp initial_offset c else rest
         | None \<Rightarrow> rest)"

definition service_request ::
  "'s cx \<Rightarrow> nat \<Rightarrow> packet \<Rightarrow> packet \<Rightarrow> blk_ptr option \<Rightarrow> nat \<Rightarrow> bool \<Rightarrow> bool \<Rightarrow> 's cache \<Rightarrow> 's cache res" where
  "service_request cx i pkt tgt_pkt blk initial_offset is_error is_invalidate c =
     must (cmd tgt_pkt = WriteLineReq \<longrightarrow> \<not> is_error \<and>
             (case blk of None \<Rightarrow> False | Some bp \<Rightarrow> blk_isSet WritableBit (get_blk c bp)))
      (bindR (service_data cx i pkt tgt_pkt blk initial_offset is_error is_invalidate c) (\<lambda>(tgt1, completion_time, c1).
       bindR (makeResponse tgt1) (\<lambda>tgt2.
       bindR (if is_error then copyError pkt tgt2 else Inr tgt2) (\<lambda>tgt3.
       bindR (if cmd tgt3 = ReadResp
              then if is_invalidate then Inr True else hasPostInvalidate (entry_at (mshrQueue c1) i)
              else Inr False) (\<lambda>inv.
         let tgt4 = (if inv then tgt3\<lparr>cmd := ReadRespWithInvalidate\<rparr> else tgt3)
         in Inr (cpuRespond (cfg cx) (tgt4\<lparr>headerDelay := 0, payloadDelay := 0\<rparr>) completion_time c1))))))"

definition service_sw_prefetch :: "'s cx \<Rightarrow> packet \<Rightarrow> blk_ptr option \<Rightarrow> 's cache \<Rightarrow> 's cache res" where
  "service_sw_prefetch cx tgt_pkt blk c =
     (if needsWritable (cmd tgt_pkt)
      then case blk of
             None \<Rightarrow> Inl Assertion
           | Some bp \<Rightarrow> bindR (with_blk bp (setCoherenceBits DirtyBit) c) (\<lambda>c1.
               panic_when (isReadOnly (cfg cx)) (Inr c1))
      else Inr c)"

definition service_target ::
  "'s cx \<Rightarrow> neighbours \<Rightarrow> nat \<Rightarrow> packet \<Rightarrow> blk_ptr option \<Rightarrow> nat \<Rightarrow> bool \<Rightarrow> bool \<Rightarrow> mshr_target \<Rightarrow> 's cache \<Rightarrow>
   's cache res" where
  "service_target cx ns i pkt blk initial_offset is_error is_invalidate t c =
     (let tgt_pkt = t_pkt t in
      case t_source t of
        FromCPU \<Rightarrow>
          if cmd tgt_pkt = CPTOSPMReq then service_copy cx pkt tgt_pkt blk c
          else if cmd tgt_pkt = SPMWritebackReq then service_spm_writeback cx pkt tgt_pkt blk c
          else if isSPMcmd (cmd tgt_pkt) then Inl Panic
          else if isSWPrefetch (cmd tgt_pkt) then service_sw_prefetch cx tgt_pkt blk c
          else service_request cx i pkt tgt_pkt blk initial_offset is_error is_invalidate c
      | FromPrefetcher \<Rightarrow> must (cmd tgt_pkt = HardPFReq) (Inr c)
      | FromSnoop \<Rightarrow>
          must (\<not> is_error)
           (bindR (if \<not> is_invalidate \<or> cmd pkt = InvalidateResp \<or> isCacheMaintenance (req pkt) then Inr True
                   else hasPostInvalidate (entry_at (mshrQueue c) i)) (\<lambda>ok.
            must ok (bindR (hasPostInvalidate (entry_at (mshrQueue c) i)) (\<lambda>pending_inval.
              bindR (handleSnoop cx ns tgt_pkt blk True pending_inval c) (\<lambda>(_, _, c1). Inr c1))))))"

text \<open>What is done to the block after all targets have been served.\<close>

definition after_targets :: "'s cx \<Rightarrow> nat \<Rightarrow> bool \<Rightarrow> bool \<Rightarrow> blk_ptr option \<Rightarrow> 's cache \<Rightarrow> 's cache res" where
  "after_targets cx i is_invalidate has_from_cache blk c =
     (let m = entry_at (mshrQueue c) i in
      if hasLockedRMWReadTarget m then Inr c
      else bindR (maintainClusivity cx has_from_cache blk c) (\<lambda>c1.
        case blk of
          None \<Rightarrow> Inr c1
        | Some bp \<Rightarrow>
            if \<not> blkValid (get_blk c1 bp) then Inr c1
            else bindR (if is_invalidate then Inr True else hasPostInvalidate m) (\<lambda>inv.
                   if inv then invalidateBlock cx bp c1
                   else bindR (hasPostDowngrade m) (\<lambda>pd.
                          Inr (if pd then set_blk bp (clearCoherenceBits WritableBit (get_blk c1 bp)) c1 else c1)))))"

definition serviceMSHRTargets ::
  "'s cx \<Rightarrow> neighbours \<Rightarrow> nat \<Rightarrow> packet \<Rightarrow> blk_ptr option \<Rightarrow> 's cache \<Rightarrow> 's cache res" where
  "serviceMSHRTargets cx ns i pkt blk c =
     (let m = entry_at (mshrQueue c) i in
      bindR (mshr_getTarget m) (\<lambda>initial_tgt.
        let initial_offset = unat (getOffset (blkSize (cfg cx)) (t_pkt initial_tgt));
            is_error = isError (cmd pkt);
            is_invalidate = (isInvalidate (cmd pkt) \<and> \<not> wasWholeLineWrite m)
        in bindR (if cmd pkt = LockedRMWWriteResp
                  then must (cmd (t_pkt initial_tgt) = LockedRMWReadReq) (Inr (mshr_popTarget m))
                  else Inr m) (\<lambda>m1.
           bindR (extractServiceableTargets pkt m1) (\<lambda>(ts, m2).
           bindR (foldR (service_target cx ns i pkt blk initial_offset is_error is_invalidate) (tl_targets ts)
                    (c\<lparr>mshrQueue := upd_entry i m2 (mshrQueue c)\<rparr>)) (\<lambda>c1.
             let from_core = list_ex (\<lambda>t. t_source t = FromCPU) (tl_targets ts);
                 from_pref = list_ex (\<lambda>t. t_source t = FromPrefetcher) (tl_targets ts);
                 c2 = (case blk of
                         Some bp \<Rightarrow> if \<not> from_core \<and> from_pref then set_blk bp (setPrefetched (get_blk c1 bp)) c1 else c1
                       | None \<Rightarrow> c1)
             in after_targets cx i is_invalidate (tl_hasFromCache ts) blk c2)))))"

section \<open>Receiving a response\<close>

definition handleUncacheableWriteResp :: "'s cx \<Rightarrow> packet \<Rightarrow> 's cache \<Rightarrow> 's cache" where
  "handleUncacheableWriteResp cx pkt c =
     cpuRespond (cfg cx) (pkt\<lparr>headerDelay := 0, payloadDelay := 0\<rparr>)
       (clockEdge cx (responseLatency (cfg cx)) + headerDelay pkt + payloadDelay pkt) c"

text \<open>Deferred targets that the block can serve join the others.\<close>

definition promote_targets :: "nat \<Rightarrow> packet \<Rightarrow> blk_ptr option \<Rightarrow> 's cache \<Rightarrow> 's cache res" where
  "promote_targets i pkt blk c =
     (case blk of
        None \<Rightarrow> Inr c
      | Some bp \<Rightarrow>
          if hasLockedRMWReadTarget (entry_at (mshrQueue c) i) then Inr c
          else bindR (if blkValid (get_blk c bp) \<and> isClean (cmd pkt) \<and> \<not> isInvalidate (cmd pkt)
                      then bindR (with_blk bp (setCoherenceBits ReadableBit) c) (\<lambda>c1.
                           bindR (promoteReadable (upPending c1) (entry_at (mshrQueue c1) i)) (\<lambda>(up, m).
                             Inr (c1\<lparr>mshrQueue := upd_entry i m (mshrQueue c1), upPending := up\<rparr>)))
                      else Inr c) (\<lambda>c2.
               if blk_isSet WritableBit (get_blk c2 bp) \<and> \<not> isCacheInvalidate (req pkt)
               then bindR (promoteWritable (upPending c2) (entry_at (mshrQueue c2) i)) (\<lambda>(up, m).
                      Inr (c2\<lparr>mshrQueue := upd_entry i m (mshrQueue c2), upPending := up\<rparr>))
               else Inr c2))"

text \<open>The register is sent again for its deferred targets or given back.\<close>

definition retire_mshr :: "'s cx \<Rightarrow> nat \<Rightarrow> packet \<Rightarrow> blk_ptr option \<Rightarrow> 's cache \<Rightarrow> 's cache res" where
  "retire_mshr cx i pkt blk c =
     bindR (promoteDeferredTargets (curTick cx) (entry_at (mshrQueue c) i)) (\<lambda>(promoted, m).
       let c1 = c\<lparr>mshrQueue := upd_entry i m (mshrQueue c)\<rparr> in
       if promoted
       then let c2 = (case blk of None \<Rightarrow> c1
                      | Some bp \<Rightarrow> set_blk bp (clearCoherenceBits ReadableBit (get_blk c1 bp)) c1)
            in bindR (mq_markPending i (mshrQueue c2)) (\<lambda>q.
                 Inr (schedMemSideSendEvent (clockEdge cx 0 + payloadDelay pkt) (c2\<lparr>mshrQueue := q\<rparr>)))
       else let was_full = isFull (mshrQueue c1)
            in bindR (mq_deallocate i (mshrQueue c1)) (\<lambda>q.
                 if was_full \<and> \<not> isFull q then clearBlocked (curTick cx) Blocked_NoMSHRs (c1\<lparr>mshrQueue := q\<rparr>)
                 else Inr (c1\<lparr>mshrQueue := q\<rparr>)))"

definition evict_temp :: "'s cx \<Rightarrow> blk_ptr option \<Rightarrow> packet list \<Rightarrow> 's cache \<Rightarrow> (packet list \<times> 's cache) res" where
  "evict_temp cx blk wbs c =
     (if blk = Some TempBlk \<and> blkValid (tempBlock c)
      then bindR (evictBlock cx TempBlk c) (\<lambda>(wb, c1). Inr (wbs @ [wb], c1))
      else Inr (wbs, c))"

definition resp_fill ::
  "'s cx \<Rightarrow> nat \<Rightarrow> packet \<Rightarrow> nat option \<Rightarrow> 's cache \<Rightarrow> (blk_ptr option \<times> packet list \<times> 's cache) res" where
  "resp_fill cx i pkt blk c =
     (let m = entry_at (mshrQueue c) i;
          is_fill = (\<not> isForward m \<and> (isRead (cmd pkt) \<or> cmd pkt = UpgradeResp \<or> wasWholeLineWrite m))
      in if is_fill \<and> \<not> isError (cmd pkt)
         then let alloc = (case writeAllocator c of
                             Some w \<Rightarrow> if wasWholeLineWrite m then wa_allocate w else mshr_allocOnFill m
                           | None \<Rightarrow> mshr_allocOnFill m)
              in bindR (handleFill cx pkt blk [] alloc c) (\<lambda>(bp, wbs, c1). Inr (Some bp, wbs, c1))
         else Inr (map_option InTags blk, [], c))"

text \<open>The response for the register of index \<open>i\<close>, after the blocking on its targets is undone.\<close>

definition mshr_response :: "'s cx \<Rightarrow> neighbours \<Rightarrow> nat \<Rightarrow> packet \<Rightarrow> 's cache \<Rightarrow> 's cache res" where
  "mshr_response cx ns i pkt c =
     bindR (mshr_getTarget (entry_at (mshrQueue c) i)) (\<lambda>initial_tgt.
       must (requestorId (req pkt) < sysMaxRequestors (cfg cx))
        (must (wasWholeLineWrite (entry_at (mshrQueue c) i) \<longrightarrow> isInvalidate (cmd pkt))
          (let blk = findBlock (getAddr pkt) (isSecure pkt) (c_tags c);
               pkt1 = (if isSPMcmd (cmd (t_pkt initial_tgt)) then pkt\<lparr>SPMresp := True\<rparr> else pkt)
           in bindR (resp_fill cx i pkt1 blk c) (\<lambda>(bp, wbs, c1).
              bindR (promote_targets i pkt1 bp c1) (\<lambda>c2.
              bindR (serviceMSHRTargets cx ns i pkt1 bp c2) (\<lambda>c3.
              bindR (if hasLockedRMWReadTarget (entry_at (mshrQueue c3) i) then Inr (wbs, c3)
                     else bindR (retire_mshr cx i pkt1 bp c3) (evict_temp cx bp wbs)) (\<lambda>(wbs1, c4).
                doWritebacks cx ns wbs1 (clockEdge cx (forwardLatency (cfg cx)) + headerDelay pkt1) c4)))))))"

definition recvTimingResp :: "'s cx \<Rightarrow> neighbours \<Rightarrow> packet \<Rightarrow> 's cache \<Rightarrow> 's cache res" where
  "recvTimingResp cx ns pkt c =
     must (isResponse (cmd pkt))
      (panic_when (headerDelay pkt \<noteq> 0 \<and> cmd pkt \<noteq> HardPFResp)
        (if isWrite (cmd pkt) \<and> cmd pkt \<noteq> LockedRMWWriteResp
         then must (isUncacheable (req pkt) \<or> SPMresp pkt \<or> isSPMcmd (cmd pkt))
                (Inr (handleUncacheableWriteResp cx pkt c))
         else bindR (popSenderState pkt) (\<lambda>(st, pkt1).
                case st of
                  Other_state _ \<Rightarrow> Inl Assertion
                | MSHR_state i \<Rightarrow>
                    bindR (if noTargetMSHR c = Some i
                           then bindR (clearBlocked (curTick cx) Blocked_NoTargets c) (\<lambda>c1.
                                  Inr (c1\<lparr>noTargetMSHR := None\<rparr>))
                           else Inr c) (mshr_response cx ns i pkt1))))"

end
