(* ===== verification/Cache_Request.thy ===== *)
theory Cache_Request
  imports Cache_Fill
begin

text \<open>
  The request path of the coherent cache in timing mode: hits and misses of requests from above
  (\<^verbatim>\<open>recvTimingReq\<close>, \<^verbatim>\<open>handleTimingReqHit\<close>, \<^verbatim>\<open>handleTimingReqMiss\<close> of
  src/gem5/src/mem/cache/base.cc and cache.cc), and the requests the cache sends below for its
  miss registers and its write buffer (\<^verbatim>\<open>createMissPacket\<close>, \<^verbatim>\<open>getNextQueueEntry\<close>,
  \<^verbatim>\<open>sendMSHRQueuePacket\<close>, \<^verbatim>\<open>sendWriteQueuePacket\<close>, \<^verbatim>\<open>sendDeferredPacket\<close>).
\<close>

section \<open>Hits\<close>

text \<open>
  A locked read that hits leaves a register in service behind, so that snoops and other
  requests wait for the write; the write answers that register.
\<close>

definition locked_rmw_hit :: "'s cx \<Rightarrow> neighbours \<Rightarrow> packet \<Rightarrow> nat option \<Rightarrow> 's cache \<Rightarrow> 's cache res" where
  "locked_rmw_hit cx ns pkt blk c =
     (let blk_addr = getBlockAddr (blkSize (cfg cx)) pkt in
      must (isRead (cmd pkt) \<or> isWrite (cmd pkt))
      (bindR (mq_findMatch blk_addr (isSecure pkt) (mshrQueue c)) (\<lambda>mshr.
        if isRead (cmd pkt)
        then must (mshr = None)
          (bindR (Packet_new (req pkt) (cmd pkt)) (\<lambda>pkt2.
           bindR (allocateMissBuffer cx pkt2 (curTick cx) True c) (\<lambda>(i, c1).
           bindR (mq_markInService i False (upPending c1) (mshrQueue c1)) (\<lambda>(up, q).
             case blk of
               None \<Rightarrow> Inl Assertion
             | Some j \<Rightarrow>
                 let c2 = c1\<lparr>mshrQueue := q, upPending := up\<rparr>
                 in Inr (set_blk (InTags j) (clearCoherenceBits WritableBit
                           (clearCoherenceBits ReadableBit (get_blk c2 (InTags j)))) c2)))))
        else case mshr of
               None \<Rightarrow> Inl Assertion
             | Some i \<Rightarrow>
                 bindR (Packet_new (req pkt) LockedRMWWriteResp) (\<lambda>resp_pkt.
                   recvTimingResp cx ns (resp_pkt\<lparr>senderState := [MSHR_state i]\<rparr>) c))))"

definition respond_hit :: "'s cx \<Rightarrow> packet \<Rightarrow> tick \<Rightarrow> 's cache \<Rightarrow> 's cache res" where
  "respond_hit cx pkt request_time c =
     (let g = cfg cx;
          via_spm_bus = (SPMresp pkt \<or> isSPMcmd (cmd pkt))
      in if needsResponse (cmd pkt) \<and>
            \<not> ((cmd pkt = CPTOSPMReq \<or> cmd pkt = SPMWritebackReq) \<and> is_l1_cache g)
         then must (headerDelay pkt = 0) (must (payloadDelay pkt = 0)
           (bindR (makeResponse pkt) (\<lambda>r.
              Inr (if via_spm_bus \<and> is_l2_cache g \<and> spmConnected g then spmSchedResp g r request_time c
                   else cpuRespond g r request_time c))))
         else Inr c)"

definition handleTimingReqHit :: "'s cx \<Rightarrow> neighbours \<Rightarrow> packet \<Rightarrow> nat option \<Rightarrow> tick \<Rightarrow> 's cache \<Rightarrow> 's cache res" where
  "handleTimingReqHit cx ns pkt blk request_time c =
     must (\<not> isUncacheable (req pkt))
      (bindR (if isLockedRMW (cmd pkt) then locked_rmw_hit cx ns pkt blk c else Inr c)
        (respond_hit cx pkt request_time))"

section \<open>Misses\<close>

definition coalesce_target :: "'s cx \<Rightarrow> packet \<Rightarrow> nat \<Rightarrow> tick \<Rightarrow> 's cache \<Rightarrow> 's cache res" where
  "coalesce_target cx pkt i forward_time c =
     must (requestorId (req pkt) < sysMaxRequestors (cfg cx))
      (bindR (allocateTarget (fresh cx) (curTick cx) pkt forward_time (c_order c)
                (if nt_skip_l1 (cfg cx) pkt then False else cache_allocOnFill (cfg cx) (cmd pkt))
                (upPending c) (entry_at (mshrQueue c) i)) (\<lambda>(up, m).
         let c1 = c\<lparr>mshrQueue := upd_entry i m (mshrQueue c), upPending := up, c_order := c_order c + 1\<rparr>
         in if mshr_getNumTargets m \<ge> numTarget (cfg cx)
            then setBlocked Blocked_NoTargets (c1\<lparr>noTargetMSHR := Some i\<rparr>) else Inr c1))"

definition new_miss :: "'s cx \<Rightarrow> packet \<Rightarrow> nat option \<Rightarrow> tick \<Rightarrow> 's cache \<Rightarrow> 's cache res" where
  "new_miss cx pkt blk forward_time c =
     must (requestorId (req pkt) < sysMaxRequestors (cfg cx))
      (if isEviction (cmd pkt) \<or> cmd pkt = WriteClean then allocateWriteBuffer cx pkt forward_time c
       else bindR (case blk of
                     None \<Rightarrow> Inr c
                   | Some j \<Rightarrow>
                       let b = blk_at (c_tags c) j in
                       if blkValid b
                       then must ((needsWritable (cmd pkt) \<and> \<not> blk_isSet WritableBit b) \<or>
                                  isCacheMaintenance (req pkt))
                              (Inr (set_blk (InTags j) (clearCoherenceBits ReadableBit b) c))
                       else Inr c) (\<lambda>c1.
              bindR (allocateMissBuffer cx pkt forward_time True c1) (\<lambda>(_, c2). Inr c2)))"

definition base_handleTimingReqMiss ::
  "'s cx \<Rightarrow> packet option \<Rightarrow> nat option \<Rightarrow> nat option \<Rightarrow> tick \<Rightarrow> 's cache \<Rightarrow> 's cache res" where
  "base_handleTimingReqMiss cx pkt mshr blk forward_time c =
     (let c1 = (case (writeAllocator c, pkt) of
                  (Some w, Some p) \<Rightarrow>
                    if isWrite (cmd p) \<and> \<not> isUncacheable (req p)
                    then c\<lparr>writeAllocator := Some (updateMode (getAddr p) (getSize p)
                             (getBlockAddr (blkSize (cfg cx)) p) w)\<rparr>
                    else c
                | _ \<Rightarrow> c)
      in case (mshr, pkt) of
           (Some i, None) \<Rightarrow> Inr c1
         | (Some i, Some p) \<Rightarrow>
             must (\<not> isWriteback (cmd p))
               (if cmd p = CleanEvict then Inr c1
                else if cmd p = WriteClean then allocateWriteBuffer cx p forward_time c1
                else coalesce_target cx p i forward_time c1)
         | (None, Some p) \<Rightarrow> new_miss cx p blk forward_time c1
         | (None, None) \<Rightarrow> Inl OutOfRange)"

text \<open>
  A software prefetch is answered at once, with whatever its packet holds; the miss goes on
  for a copy of the request unless the line is already being fetched.
\<close>

definition prefetch_copy :: "'s cx \<Rightarrow> packet \<Rightarrow> packet res" where
  "prefetch_copy cx pkt =
     bindR (Packet_new (Request_paddr (paddr (req pkt)) (rsize (req pkt)) (rflags (req pkt)) (requestorId (req pkt)))
              (cmd pkt)) (\<lambda>pf0.
     bindR (allocate (fresh cx) pf0) (\<lambda>pf.
       must (matchAddr (getAddr pkt) (isSecure pkt) pf) (must (getSize pf = getSize pkt) (Inr pf))))"

definition respond_prefetch :: "'s cx \<Rightarrow> packet \<Rightarrow> tick \<Rightarrow> 's cache \<Rightarrow> 's cache res" where
  "respond_prefetch cx pkt request_time c =
     bindR (makeResponse pkt) (\<lambda>r.
       Inr (if (SPMresp pkt \<or> isSPMcmd (cmd pkt)) \<and> spmConnected (cfg cx)
            then spmSchedResp (cfg cx) r request_time c else cpuRespond (cfg cx) r request_time c))"

definition uncacheable_miss :: "'s cx \<Rightarrow> packet \<Rightarrow> nat option \<Rightarrow> tick \<Rightarrow> 's cache \<Rightarrow> 's cache res" where
  "uncacheable_miss cx pkt blk forward_time c =
     must (case blk of None \<Rightarrow> True | Some j \<Rightarrow> \<not> blkValid (blk_at (c_tags c) j))
      (if isWrite (cmd pkt) then allocateWriteBuffer cx pkt forward_time c
       else must (isRead (cmd pkt) \<or> isCleanInvalidateRequest pkt)
              (bindR (allocateMissBuffer cx pkt forward_time True c) (\<lambda>(_, c1). Inr c1)))"

definition handleTimingReqMiss ::
  "'s cx \<Rightarrow> packet \<Rightarrow> nat option \<Rightarrow> tick \<Rightarrow> tick \<Rightarrow> 's cache \<Rightarrow> 's cache res" where
  "handleTimingReqMiss cx pkt blk forward_time request_time c =
     must (cmd pkt \<noteq> LockedRMWWriteReq)
      (if isUncacheable (req pkt) then uncacheable_miss cx pkt blk forward_time c
       else bindR (mq_findMatch (getBlockAddr (blkSize (cfg cx)) pkt) (isSecure pkt) (mshrQueue c)) (\<lambda>mshr.
              if isSWPrefetch (cmd pkt)
              then must (needsResponse (cmd pkt)) (must (hasPaddr (req pkt))
                     (bindR (case mshr of
                               None \<Rightarrow> bindR (prefetch_copy cx pkt) (\<lambda>pf. Inr (Some pf))
                             | Some _ \<Rightarrow> Inr None) (\<lambda>pf.
                      bindR (respond_prefetch cx pkt request_time c) (\<lambda>c1.
                        base_handleTimingReqMiss cx pf mshr blk forward_time c1))))
              else base_handleTimingReqMiss cx (Some pkt) mshr blk forward_time c))"

section \<open>Receiving a request\<close>

text \<open>The write of a locked pair gets the permissions back that its read took away.\<close>

definition unlock_blk :: "packet \<Rightarrow> 's cache \<Rightarrow> 's cache res" where
  "unlock_blk pkt c =
     (if cmd pkt \<noteq> LockedRMWWriteReq then Inr c
      else case findBlock (getAddr pkt) (isSecure pkt) (c_tags c) of
             None \<Rightarrow> Inl Assertion
           | Some j \<Rightarrow>
               let b = blk_at (c_tags c) j in
               must (blkValid b) (must (\<not> blk_isSet WritableBit b \<and> \<not> blk_isSet ReadableBit b)
                 (with_blk (InTags j) (\<lambda>b. bindR (setCoherenceBits ReadableBit b) (setCoherenceBits WritableBit)) c)))"

definition base_recvTimingReq :: "'s cx \<Rightarrow> neighbours \<Rightarrow> packet \<Rightarrow> 's cache \<Rightarrow> 's cache res" where
  "base_recvTimingReq cx ns pkt c =
     (let g = cfg cx; forward_time = clockEdge cx (forwardLatency g) + headerDelay pkt in
      bindR (unlock_blk pkt c) (\<lambda>c0.
      bindR (access cx pkt c0) (\<lambda>(hit, f).
      bindR (doWritebacks cx ns (f_wbs f) (clockEdge cx (f_lat f + forwardLatency g)) (f_cache f)) (\<lambda>c1.
        let request_time = clockEdge cx (f_lat f);
            pkt1 = (f_pkt f)\<lparr>headerDelay := 0, payloadDelay := 0\<rparr>
        in if hit then handleTimingReqHit cx ns pkt1 (f_blk f) request_time c1
           else handleTimingReqMiss cx pkt1 (f_blk f) forward_time request_time c1))))"

definition promoteWholeLineWrites :: "cache_cfg \<Rightarrow> packet \<Rightarrow> packet" where
  "promoteWholeLineWrites g pkt =
     (if cmd pkt = WriteReq \<and> getSize pkt = blkSize g \<and> getOffset (blkSize g) pkt = 0 \<and> \<not> isMaskedWrite pkt
      then pkt\<lparr>cmd := WriteLineReq\<rparr> else pkt)"

definition recvTimingReq :: "'s cx \<Rightarrow> neighbours \<Rightarrow> packet \<Rightarrow> 's cache \<Rightarrow> 's cache res" where
  "recvTimingReq cx ns pkt0 c =
     (let pkt = promoteWholeLineWrites (cfg cx) pkt0 in
      if cacheResponding pkt
      then must (needsWritable (cmd pkt) \<and> \<not> responderHadWritable pkt)
             (bindR (Packet_copy (fresh cx) pkt True False) (\<lambda>p.
              bindR (setCacheResponding (setExpressSnoop (p\<lparr>headerDelay := 0, payloadDelay := 0\<rparr>))) (\<lambda>snoop_pkt.
                case sendBelow ns snoop_pkt of (success, sent) \<Rightarrow>
                  must success (Inr (c\<lparr>sentReqs := sentReqs c @ [sent]\<rparr>)))))
      else base_recvTimingReq cx ns pkt c)"

text \<open>The port accepts the request or asks the sender to wait for a retry.\<close>

definition port_recvTimingReq :: "'s cx \<Rightarrow> neighbours \<Rightarrow> packet \<Rightarrow> 's cache \<Rightarrow> (bool \<times> 's cache) res" where
  "port_recvTimingReq cx ns pkt c =
     must (isRequest (cmd pkt))
      (case tryTiming False pkt (cpuSidePort c) of (accepted, p) \<Rightarrow>
         let c1 = c\<lparr>cpuSidePort := p\<rparr> in
         if accepted then bindR (recvTimingReq cx ns pkt c1) (\<lambda>c2. Inr (True, c2)) else Inr (False, c1))"

section \<open>Sending requests below\<close>

definition createMissPacket :: "'s cx \<Rightarrow> packet \<Rightarrow> cache_blk option \<Rightarrow> bool \<Rightarrow> bool \<Rightarrow> packet option res" where
  "createMissPacket cx cpu_pkt blk needs_writable is_whole_line_write =
     (let g = cfg cx;
          valid = (case blk of None \<Rightarrow> False | Some b \<Rightarrow> blkValid b);
          writable = (case blk of None \<Rightarrow> False | Some b \<Rightarrow> blk_isSet WritableBit b)
      in must (\<not> isEviction (cmd cpu_pkt))
       (if isUncacheable (req cpu_pkt) \<or> (\<not> valid \<and> isUpgrade (cmd cpu_pkt)) \<or>
           cmd cpu_pkt = InvalidateReq \<or> isClean (cmd cpu_pkt)
        then Inr None
        else must (needsResponse (cmd cpu_pkt)) (must (cmd cpu_pkt = WriteLineReq \<longrightarrow> is_whole_line_write)
          (bindR (if is_whole_line_write then must (\<not> valid \<or> \<not> writable) (Inr InvalidateReq)
                  else if valid
                  then must needs_writable (must (\<not> writable)
                         (Inr (if isLLSC (cmd cpu_pkt) then SCUpgradeReq else UpgradeReq)))
                  else if cmd cpu_pkt = SCUpgradeFailReq \<or> cmd cpu_pkt = StoreCondFailReq
                  then Inr SCUpgradeFailReq
                  else let force_clean_rsp = (isReadOnly g \<or> cfg_clusivity g = mostly_excl \<or>
                             (is_l1_cache g \<and> cfNtCleanRespEnabled g \<and> isNoL1Alloc (req cpu_pkt)))
                       in Inr (if needs_writable then ReadExReq
                               else if force_clean_rsp then ReadCleanReq else ReadSharedReq)) (\<lambda>cm.
             let pkt = Packet_blk (req cpu_pkt) cm (blkSize g);
                 pkt1 = (if hasSharers cpu_pkt \<and> \<not> needs_writable then setHasSharers pkt else pkt)
             in must (getAddr pkt1 = getBlockAddr (blkSize g) pkt1)
                  (bindR (allocate (fresh cx) pkt1) (\<lambda>pkt2. Inr (Some pkt2))))))))"

datatype queue_entry = MissEntry nat | WriteEntry nat

definition getNextQueueEntry :: "tick \<Rightarrow> 's cache \<Rightarrow> queue_entry option res" where
  "getNextQueueEntry tk c =
     (let miss = getNext tk (mshrQueue c); wq = getNext tk (writeBuffer c) in
      case (wq, miss) of
        (Some j, _) \<Rightarrow>
          if isFull (writeBuffer c) \<or> miss = None
          then bindR (findPending mshr_hasTargets wq_hasTargets (entry_at (writeBuffer c) j) (mshrQueue c)) (\<lambda>conflict.
                 Inr (Some (case conflict of
                   Some i \<Rightarrow> if e_order (entry_at (mshrQueue c) i) < e_order (entry_at (writeBuffer c) j)
                             then MissEntry i else WriteEntry j
                 | None \<Rightarrow> WriteEntry j)))
          else bindR (findPending wq_hasTargets mshr_hasTargets (entry_at (mshrQueue c) (the miss)) (writeBuffer c)) (\<lambda>conflict.
                 Inr (Some (case conflict of Some k \<Rightarrow> WriteEntry k | None \<Rightarrow> MissEntry (the miss))))
      | (None, Some i) \<Rightarrow>
          bindR (findPending wq_hasTargets mshr_hasTargets (entry_at (mshrQueue c) i) (writeBuffer c)) (\<lambda>conflict.
            Inr (Some (case conflict of Some k \<Rightarrow> WriteEntry k | None \<Rightarrow> MissEntry i)))
      | (None, None) \<Rightarrow> Inr None)"

definition nextQueueReadyTime :: "'s cache \<Rightarrow> tick" where
  "nextQueueReadyTime c = min (nextReadyTime (mshrQueue c)) (nextReadyTime (writeBuffer c))"

text \<open>
  The write allocator may hold a partial write back. The first result tells whether the
  register was delayed.
\<close>

definition coalesce_delay :: "'s cx \<Rightarrow> nat \<Rightarrow> packet \<Rightarrow> 's cache \<Rightarrow> (bool \<times> 's cache) res" where
  "coalesce_delay cx i tgt_pkt c =
     (case writeAllocator c of
        None \<Rightarrow> Inr (False, c)
      | Some w \<Rightarrow>
          let m = entry_at (mshrQueue c) i in
          if \<not> (wa_coalesce w \<and> isWrite (cmd tgt_pkt)) then Inr (False, c)
          else if mshr_isWholeLineWrite m then Inr (False, c\<lparr>writeAllocator := Some (resetDelay (e_blkAddr m) w)\<rparr>)
          else case wa_delay (e_blkAddr m) w of
                 (True, w1) \<Rightarrow>
                   bindR (mq_delay (curTick cx) i (blkSize (cfg cx) div getSize tgt_pkt * clockPeriod (cfg cx)) (mshrQueue c))
                     (\<lambda>q. Inr (True, c\<lparr>writeAllocator := Some w1, mshrQueue := q\<rparr>))
               | (False, w1) \<Rightarrow> Inr (False, c\<lparr>writeAllocator := Some (WriteAllocator_reset w1)\<rparr>))"

text \<open>The packet sent for a register: a request for the block, or the target forwarded as it is.\<close>

definition miss_packet :: "'s cx \<Rightarrow> nat \<Rightarrow> packet \<Rightarrow> nat option \<Rightarrow> 's cache \<Rightarrow> (packet \<times> 's cache) res" where
  "miss_packet cx i tgt_pkt blk c =
     (let m = entry_at (mshrQueue c) i;
          b = map_option (blk_at (c_tags c)) blk
      in bindR (createMissPacket cx tgt_pkt b (mshr_needsWritable m) (mshr_isWholeLineWrite m)) (\<lambda>mp.
           let c1 = c\<lparr>mshrQueue := upd_entry i (m\<lparr>isForward := (mp = None)\<rparr>) (mshrQueue c)\<rparr>
           in bindR (case mp of
                       Some p \<Rightarrow> Inr p
                     | None \<Rightarrow> bindR (Packet_copy (fresh cx) tgt_pkt False True) (\<lambda>p.
                         must (\<not> isWrite (cmd p)) (Inr p))) (\<lambda>p.
                let p1 = pushSenderState (MSHR_state i) p;
                    cleans = (isClean (cmd p1) \<and> (case b of None \<Rightarrow> False | Some x \<Rightarrow> blk_isSet DirtyBit x))
                in bindR (if cleans then setSatisfied p1 else Inr p1) (\<lambda>p2. Inr (p2, c1)))))"

definition sent_mshr :: "'s cx \<Rightarrow> neighbours \<Rightarrow> nat \<Rightarrow> packet \<Rightarrow> nat option \<Rightarrow> 's cache \<Rightarrow> 's cache res" where
  "sent_mshr cx ns i pkt blk c =
     bindR (markInService_mshr cx i (\<not> hasSharers pkt \<and> cacheResponding pkt) (c\<lparr>sentReqs := sentReqs c @ [pkt]\<rparr>)) (\<lambda>c1.
       case blk of
         None \<Rightarrow> Inr c1
       | Some j \<Rightarrow>
           if isClean (cmd pkt) \<and> blk_isSet DirtyBit (blk_at (c_tags c1) j)
           then bindR (writecleanBlk cx (InTags j) (getDest (req pkt)) c1) (\<lambda>(wb, c2).
                  doWritebacks cx ns [wb] 0 c2)
           else Inr c1)"

definition sendMSHRQueuePacket :: "'s cx \<Rightarrow> neighbours \<Rightarrow> nat \<Rightarrow> 's cache \<Rightarrow> (bool \<times> 's cache) res" where
  "sendMSHRQueuePacket cx ns i c =
     bindR (mshr_getTarget (entry_at (mshrQueue c) i)) (\<lambda>tgt.
     bindR (coalesce_delay cx i (t_pkt tgt) c) (\<lambda>(delayed, c1).
       if delayed then Inr (False, c1)
       else let m = entry_at (mshrQueue c1) i;
                blk = findBlock (e_blkAddr m) (e_secure m) (c_tags c1)
            in bindR (miss_packet cx i (t_pkt tgt) blk c1) (\<lambda>(pkt, c2).
                 case sendBelow ns pkt of (accepted, sent) \<Rightarrow>
                   if \<not> accepted then Inr (True, c2)
                   else bindR (sent_mshr cx ns i sent blk c2) (\<lambda>c3. Inr (False, c3)))))"

definition sendWriteQueuePacket :: "'s cx \<Rightarrow> neighbours \<Rightarrow> nat \<Rightarrow> 's cache \<Rightarrow> (bool \<times> 's cache) res" where
  "sendWriteQueuePacket cx ns i c =
     bindR (wq_getTarget (entry_at (writeBuffer c) i)) (\<lambda>tgt.
       case sendBelow ns (t_pkt tgt) of (accepted, sent) \<Rightarrow>
         if \<not> accepted then Inr (True, c)
         else bindR (markInService_wq cx i (c\<lparr>sentReqs := sentReqs c @ [sent]\<rparr>)) (\<lambda>c1. Inr (False, c1)))"

text \<open>
  The packet queue of the memory side asks the cache for the next packet. \<open>conflicts\<close> is the
  queue's test for a pending snoop response of the same address. The result tells whether the
  queue waits for a retry; otherwise the next send event is scheduled.
\<close>

definition sendDeferredPacket :: "'s cx \<Rightarrow> neighbours \<Rightarrow> (packet \<Rightarrow> bool) \<Rightarrow> 's cache \<Rightarrow> (bool \<times> 's cache) res" where
  "sendDeferredPacket cx ns conflicts c =
     bindR (getNextQueueEntry (curTick cx) c) (\<lambda>entry.
     bindR (case entry of
              None \<Rightarrow> Inr None
            | Some (MissEntry i) \<Rightarrow> bindR (mshr_getTarget (entry_at (mshrQueue c) i)) (\<lambda>t. Inr (Some (t_pkt t)))
            | Some (WriteEntry j) \<Rightarrow> bindR (wq_getTarget (entry_at (writeBuffer c) j)) (\<lambda>t. Inr (Some (t_pkt t)))) (\<lambda>front.
       if (case front of None \<Rightarrow> False | Some p \<Rightarrow> conflicts p) then Inr (False, c)
       else bindR (case entry of
                     None \<Rightarrow> Inr (False, c)
                   | Some (MissEntry i) \<Rightarrow> sendMSHRQueuePacket cx ns i c
                   | Some (WriteEntry j) \<Rightarrow> sendWriteQueuePacket cx ns j c) (\<lambda>(waitingOnRetry, c1).
              Inr (waitingOnRetry,
                   if waitingOnRetry then c1 else schedMemSideSendEvent (nextQueueReadyTime c1) c1))))"

end
