(* ===== verification/Isolation.thy ===== *)
theory Isolation
  imports Cache_Access
begin

text \<open>
  Isolation of the scratchpad: which blocks an operation of the cache may touch. A block is
  plain when it is well formed and not a slot; \<open>iso X t t'\<close> says that going from tag store
  \<open>t\<close> to \<open>t'\<close> keeps the store in order and that outside \<open>X\<close> no slot appeared, vanished or
  changed anything but its reference count. Every operation of the cache is shown to be
  isolating, with the slots a scratchpad command addresses as the only exceptions.
\<close>

lemma nth_update_any: "xs[i := x] ! j = (if j = i \<and> i < length xs then x else xs ! j)"
  by (cases "i < length xs") (auto simp: nth_list_update list_update_beyond)

section \<open>Plain blocks\<close>

definition plain :: "cache_blk \<Rightarrow> bool" where
  "plain b \<longleftrightarrow> blk_wf b \<and> coherence b AND ScratchpadBit = 0"

lemma plain_not_slot: "plain b \<Longrightarrow> \<not> blk_isSet ScratchpadBit b"
  by (simp add: plain_def blk_isSet_def)

lemma not_slot_plain: "blk_wf b \<Longrightarrow> \<not> blk_isSet ScratchpadBit b \<Longrightarrow> plain b"
  using and_subset_zero[OF _ scratchpad_subset, of "coherence b"]
  by (cases "blkValid b") (auto simp: plain_def blk_isSet_def blk_wf_def and.commute)

named_theorems plain_intros "operations that keep a block plain"

lemma plain_setCoherenceBits [plain_intros]:
  assumes "plain b" "setCoherenceBits m b = Inr b'" "m AND ScratchpadBit = 0" "m \<noteq> ScratchpadBit"
  shows "plain b' \<and> blkValid b' \<and> blkData b' = blkData b"
proof -
  have "b' = b\<lparr>coherence := coherence b OR m\<rparr>" "blkValid b"
    using assms(2,4) by (auto simp: setCoherenceBits_def)
  then show ?thesis
    using assms(1,3) and_or_disjoint[of m ScratchpadBit "coherence b"]
    by (auto simp: plain_def blk_wf_def)
qed

lemma bits_not_scratchpad [simp]:
  "DirtyBit AND ScratchpadBit = 0" "WritableBit AND ScratchpadBit = 0" "ReadableBit AND ScratchpadBit = 0"
  "WaitBit AND ScratchpadBit = 0" "PinnedBit AND ScratchpadBit = 0"
  "DirtyBit \<noteq> ScratchpadBit" "WritableBit \<noteq> ScratchpadBit" "ReadableBit \<noteq> ScratchpadBit"
  "WaitBit \<noteq> ScratchpadBit" "PinnedBit \<noteq> ScratchpadBit"
  by (simp_all add: coherence_defs)

lemma plain_setI:
  "setCoherenceBits m b = Inr b' \<Longrightarrow> m AND ScratchpadBit = 0 \<Longrightarrow> m \<noteq> ScratchpadBit \<Longrightarrow> plain b \<Longrightarrow> plain b'"
  using plain_setCoherenceBits by blast

lemma plain_clear [plain_intros]: "plain b \<Longrightarrow> plain (clearCoherenceBits m b)"
  using blk_wf_clearCoherenceBits[of b m]
  by (auto simp: plain_def clearCoherenceBits_def) (metis and.assoc and.commute and_zero_eq)

lemma blkValid_clear [simp]: "blkValid (clearCoherenceBits m b) = blkValid b"
  by (simp add: clearCoherenceBits_def)

lemma plain_data [simp]: "plain (b\<lparr>blkData := d\<rparr>) = plain b"
  by (simp add: plain_def blk_wf_def)

lemma plain_refCount [simp]: "plain (increaseRefCount b) = plain b"
  by (simp add: plain_def increaseRefCount_def blk_wf_def)

lemma plain_setWhenReady [plain_intros]: "plain b \<Longrightarrow> setWhenReady t b = Inr b' \<Longrightarrow> plain b'"
  by (auto simp: plain_def setWhenReady_def blk_wf_def)

lemma plain_invalidate [plain_intros]: "blk_invalidate b = Inr b' \<Longrightarrow> plain b' \<and> \<not> blkValid b'"
  using blk_wf_invalidate[of b b'] not_slot_plain[of b'] by (auto simp: blk_isSet_def)

lemma plain_locks [simp]: "blkValid b \<Longrightarrow> plain (b\<lparr>lockList := l\<rparr>) = plain b"
  by (auto simp: plain_def blk_wf_def)

lemma plain_trackLoadLocked [plain_intros]:
  "plain b \<Longrightarrow> blkValid b \<Longrightarrow> trackLoadLocked p b = Inr b' \<Longrightarrow> plain b' \<and> blkValid b'"
  by (auto simp: trackLoadLocked_def)

lemma plain_checkWrite [plain_intros]:
  "plain b \<Longrightarrow> blkValid b \<Longrightarrow> checkWrite p b = Inr (s, p', b') \<Longrightarrow> plain b' \<and> blkValid b'"
  by (auto simp: checkWrite_def clearLoadLocks_def Let_def split: if_splits prod.splits)

lemma plain_updateBlockData [plain_intros]:
  "plain b \<Longrightarrow> updateBlockData g p b = Inr b' \<Longrightarrow> plain b' \<and> blkValid b' = blkValid b"
  by (auto simp: updateBlockData_def)

lemma plain_pass_state [plain_intros]: "plain b \<Longrightarrow> plain (snd (pass_state b p))"
  by (auto simp: pass_state_def intro!: plain_clear)

lemma plain_insert [plain_intros]:
  assumes "plain b" "blk_insert tk ip a sec src task part b = Inr b'"
  shows "plain b' \<and> blkValid b'"
proof -
  have "coherence b' = coherence b"
    using assms(2) by (auto simp: blk_insert_def tagged_insert_def setValid_def increaseRefCount_def Let_def
        split: if_splits)
  moreover have "blk_wf b'" "blkValid b'"
    using blk_wf_insert[OF _ assms(2)] assms(1) by (auto simp: plain_def)
  ultimately show ?thesis using assms(1) by (simp add: plain_def)
qed

lemma plain_satisfy_upgrade [plain_intros]:
  "plain b \<Longrightarrow> satisfy_upgrade p b = Inr (p', b') \<Longrightarrow> plain b'"
  by (auto simp: satisfy_upgrade_def split: if_splits intro!: plain_clear)

lemma plain_satisfy_blk [plain_intros]:
  assumes "plain b" "blkValid b" "satisfy_blk cx off p b = Inr (p', b')"
  shows "plain b'"
proof -
  consider (amo) "atomic_update (cfg cx) off p b = Inr (p', b')"
    | (swap) "cmpAndSwap (cfg cx) p b = Inr (p', b')"
    | (wr) "satisfy_write (cfg cx) p b = Inr (p', b')"
    | (read) "satisfy_read (cfg cx) p b = Inr (p', b')"
    | (up) "satisfy_upgrade p b = Inr (p', b')"
    | (clean) "b' = clearCoherenceBits DirtyBit b"
    using assms(3) by (auto simp: satisfy_blk_def Let_def split: if_splits)
  then show ?thesis
  proof cases
    case amo
    then show ?thesis using assms(1)
      by (auto simp: atomic_update_def Let_def split: option.splits intro: plain_setI)
  next
    case swap
    then show ?thesis using assms(1)
      by (auto simp: cmpAndSwap_def Let_def split: if_splits intro: plain_setI)
  next
    case wr
    then obtain s p1 b1 b2 where "checkWrite p b = Inr (s, p1, b1)"
        "(if s then updateBlockData (cfg cx) p1 b1 else Inr b1) = Inr b2" "setCoherenceBits DirtyBit b2 = Inr b'"
      by (auto simp: satisfy_write_def)
    moreover from this have "plain b1" using plain_checkWrite[OF assms(1,2)] by blast
    moreover from calculation have "plain b2"
      by (cases s) (auto dest: plain_updateBlockData[rotated])
    ultimately show ?thesis by (auto intro: plain_setI)
  next
    case read
    then show ?thesis using assms(1) plain_trackLoadLocked[OF assms(1,2)]
      by (auto simp: satisfy_read_def split: if_splits)
  next
    case up
    then show ?thesis using assms(1) plain_satisfy_upgrade by blast
  qed (simp add: assms(1) plain_clear)
qed

lemma plain_respond_to_cache [plain_intros]:
  "plain b \<Longrightarrow> respond_to_cache g dr pd p b = Inr (p', b') \<Longrightarrow> plain b'"
  by (auto simp: respond_to_cache_def split: if_splits intro: plain_clear dest: plain_satisfy_upgrade[rotated])

lemma plain_take_writeback [plain_intros]:
  assumes "plain b" "take_writeback cx lk d w p b = Inr b'"
  shows "plain b'"
proof -
  from assms(2) obtain b1 b2 b3 where
      "(if d then setCoherenceBits DirtyBit b else Inr b) = Inr b1"
      "(if w then setCoherenceBits WritableBit b1 else Inr b1) = Inr b2"
      "updateBlockData (cfg cx) p b2 = Inr b3" "setWhenReady (fill_ready_at cx lk p) b3 = Inr b'"
    by (auto simp: take_writeback_def)
  moreover from this assms(1) have "plain b1" by (auto split: if_splits intro: plain_setI)
  moreover from calculation have "plain b2" by (auto split: if_splits intro: plain_setI)
  ultimately show ?thesis using plain_updateBlockData plain_setWhenReady by blast
qed

section \<open>The isolation relation\<close>

definition slot_set :: "'s tags \<Rightarrow> nat set" where
  "slot_set t = {i. i < length (tagBlks t) \<and> blk_isSet ScratchpadBit (blk_at t i)}"

text \<open>What the cache keeps of its tag store, whatever the data arrays hold.\<close>

definition tags_ok :: "('s \<Rightarrow> bool) \<Rightarrow> 's tags \<Rightarrow> bool" where
  "tags_ok good t \<longleftrightarrow>
     0 < assoc (tagsIp t) \<and> 0 < tagShift (tagsIp t) \<and>
     (\<forall>a. extractSet (tagsIp t) a < numSets (tagsIp t)) \<and>
     length (tagBlks t) = numSets (tagsIp t) * assoc (tagsIp t) \<and>
     (\<forall>b \<in> set (tagBlks t). blk_wf b) \<and> good (rpStore t)"

definition same_but_refs :: "cache_blk \<Rightarrow> cache_blk \<Rightarrow> bool" where
  "same_but_refs b b' \<longleftrightarrow> b'\<lparr>refCount := 0\<rparr> = b\<lparr>refCount := 0\<rparr>"

lemma same_but_refsD:
  "same_but_refs b b' \<Longrightarrow> blkValid b' = blkValid b \<and> blkData b' = blkData b \<and> coherence b' = coherence b
     \<and> whenReady b' = whenReady b \<and> blkTag b' = blkTag b"
  by (cases b; cases b') (simp add: same_but_refs_def)

lemma same_but_refs_refl [simp]: "same_but_refs b b"
  by (simp add: same_but_refs_def)

lemma same_but_refs_inc [simp]: "same_but_refs b (increaseRefCount b)"
  by (simp add: same_but_refs_def increaseRefCount_def)

lemma same_but_refs_trans: "same_but_refs a b \<Longrightarrow> same_but_refs b c \<Longrightarrow> same_but_refs a c"
  by (simp add: same_but_refs_def)

lemma same_but_refs_isSet: "same_but_refs b b' \<Longrightarrow> blk_isSet m b' = blk_isSet m b"
  using same_but_refsD[of b b'] by (simp add: blk_isSet_def)

definition iso :: "('s \<Rightarrow> bool) \<Rightarrow> nat set \<Rightarrow> 's tags \<Rightarrow> 's tags \<Rightarrow> bool" where
  "iso good X t t' \<longleftrightarrow>
     tags_ok good t' \<and> tagsIp t' = tagsIp t \<and> length (tagBlks t') = length (tagBlks t) \<and>
     (\<forall>i < length (tagBlks t). i \<notin> X \<longrightarrow>
        (i \<in> slot_set t' \<longleftrightarrow> i \<in> slot_set t) \<and> (i \<in> slot_set t \<longrightarrow> same_but_refs (blk_at t i) (blk_at t' i)))"

lemma iso_ok: "iso good X t t' \<Longrightarrow> tags_ok good t'"
  by (simp add: iso_def)

lemma iso_refl: "tags_ok good t \<Longrightarrow> iso good X t t"
  by (simp add: iso_def)

lemma iso_trans: "iso good X t t1 \<Longrightarrow> iso good X t1 t2 \<Longrightarrow> iso good X t t2"
  unfolding iso_def by (auto intro: same_but_refs_trans)

lemma iso_mono: "iso good X t t' \<Longrightarrow> X \<subseteq> Y \<Longrightarrow> iso good Y t t'"
  unfolding iso_def by blast

lemma iso_not_slot: "iso good X t t' \<Longrightarrow> i \<notin> X \<Longrightarrow> i \<notin> slot_set t \<Longrightarrow> i \<notin> slot_set t'"
  by (auto simp: iso_def slot_set_def)

lemma iso_length: "iso good X t t' \<Longrightarrow> length (tagBlks t') = length (tagBlks t)"
  by (simp add: iso_def)

lemma tags_ok_cong:
  "tagBlks t' = tagBlks t \<Longrightarrow> tagsIp t' = tagsIp t \<Longrightarrow> good (rpStore t') \<Longrightarrow> tags_ok good t \<Longrightarrow> tags_ok good t'"
  by (simp add: tags_ok_def)

lemma slot_set_cong: "tagBlks t' = tagBlks t \<Longrightarrow> slot_set t' = slot_set t"
  by (simp add: slot_set_def blk_at_def)

text \<open>Changing one block, and nothing but the policy's store and the counters besides.\<close>

lemma iso_upd:
  assumes "tags_ok good t" "tagBlks t' = (tagBlks t)[i := b]" "tagsIp t' = tagsIp t" "good (rpStore t')"
    and "blk_wf b"
    and "i \<in> X \<or> (i \<notin> slot_set t \<and> \<not> blk_isSet ScratchpadBit b) \<or> same_but_refs (blk_at t i) b"
  shows "iso good X t t'"
proof -
  have "\<forall>x \<in> set (tagBlks t'). blk_wf x"
    using assms(1,2,5) set_update_subset_insert[of "tagBlks t" i b] by (auto simp: tags_ok_def)
  then have "tags_ok good t'" using assms(1-4) by (simp add: tags_ok_def)
  moreover have "(j \<in> slot_set t' \<longleftrightarrow> j \<in> slot_set t) \<and> (j \<in> slot_set t \<longrightarrow> same_but_refs (blk_at t j) (blk_at t' j))"
    if "j < length (tagBlks t)" "j \<notin> X" for j
    using assms(2,6) that same_but_refs_isSet[of "blk_at t i" b ScratchpadBit]
    by (cases "j = i") (auto simp: slot_set_def blk_at_def)
  ultimately show ?thesis using assms(2,3) by (simp add: iso_def)
qed

lemma iso_same:
  assumes "tags_ok good t" "tagBlks t' = tagBlks t" "tagsIp t' = tagsIp t" "good (rpStore t')"
  shows "iso good X t t'"
proof -
  have "slot_set t' = slot_set t" using assms(2) by (rule slot_set_cong)
  moreover have "blk_at t' i = blk_at t i" for i using assms(2) by (rule blk_at_cong)
  ultimately show ?thesis
    using tags_ok_cong[of t' t good] assms by (simp add: iso_def)
qed

lemma tags_ok_blk: "tags_ok good t \<Longrightarrow> i < length (tagBlks t) \<Longrightarrow> blk_wf (blk_at t i)"
  by (simp add: tags_ok_def blk_at_def)

lemma plain_at: "tags_ok good t \<Longrightarrow> i < length (tagBlks t) \<Longrightarrow> i \<notin> slot_set t \<Longrightarrow> plain (blk_at t i)"
  using not_slot_plain[OF tags_ok_blk] by (auto simp: slot_set_def)

lemma possible_entry_ok:
  assumes "tags_ok good t" "i \<in> set (getPossibleEntries (tagsIp t) a)"
  shows "i < length (tagBlks t)"
proof -
  let ?ip = "tagsIp t"
  have w: "extractSet ?ip a < numSets ?ip" "length (tagBlks t) = numSets ?ip * assoc ?ip"
    using assms(1) by (auto simp: tags_ok_def)
  obtain k where k: "i = extractSet ?ip a * assoc ?ip + k" "k < assoc ?ip"
    using assms(2) unfolding set_possible_entries by (elim imageE) simp
  have "Suc (extractSet ?ip a) * assoc ?ip \<le> numSets ?ip * assoc ?ip"
    using w(1) by (intro mult_le_mono1) simp
  with k w(2) show ?thesis by simp
qed

text \<open>A block pointer into the tag store that does not designate a slot.\<close>

definition plain_idx :: "'s tags \<Rightarrow> nat \<Rightarrow> bool" where
  "plain_idx t i \<longleftrightarrow> i < length (tagBlks t) \<and> i \<notin> slot_set t"

lemma plain_idx_at: "tags_ok good t \<Longrightarrow> plain_idx t i \<Longrightarrow> plain (blk_at t i)"
  using plain_at by (auto simp: plain_idx_def)

lemma plain_idx_iso: "iso good X t t' \<Longrightarrow> i \<notin> X \<Longrightarrow> plain_idx t i \<Longrightarrow> plain_idx t' i"
  using iso_not_slot[of good X t t' i] by (simp add: plain_idx_def iso_length)

lemma findBlock_plain:
  assumes "tags_ok good t" "findBlock a sec t = Some i"
  shows "plain_idx t i \<and> blkValid (blk_at t i)"
proof -
  have w: "0 < assoc (tagsIp t)" "0 < tagShift (tagsIp t)" using assms(1) by (auto simp: tags_ok_def)
  note m = findBlock_SomeD[OF assms(2) w(1)]
  then have l: "i < length (tagBlks t)" using possible_entry_ok[OF assms(1)] by blast
  have "\<not> blk_isSet ScratchpadBit (blk_at t i)"
    using m scratchpad_blk_no_match[OF tags_ok_blk[OF assms(1) l] _ w(2)] by blast
  with l m show ?thesis by (simp add: plain_idx_def slot_set_def blk_match_def)
qed

lemma iso_upd_plain:
  assumes "tags_ok good t" "plain_idx t i" "plain b"
  shows "iso good X t (upd_blk i b t)"
  by (rule iso_upd[OF assms(1)])
    (use assms in \<open>auto simp: plain_idx_def plain_def tags_ok_def blk_isSet_def\<close>)

section \<open>Operations of the tag store\<close>

definition cx_ok :: "('s \<Rightarrow> bool) \<Rightarrow> 's cx \<Rightarrow> bool" where
  "cx_ok good cx \<longleftrightarrow> replacement_policy (ops cx) good \<and> rng_ok (renv cx)"

lemma cx_policy:
  assumes "cx_ok good cx"
  shows "good s \<Longrightarrow> rp_touch (ops cx) env e s = Inr s' \<Longrightarrow> good s'"
    and "good s \<Longrightarrow> rp_reset (ops cx) env e s = Inr s' \<Longrightarrow> good s'"
    and "good s \<Longrightarrow> rp_invalidate (ops cx) e s = Inr s' \<Longrightarrow> good s'"
    and "good s \<Longrightarrow> cands \<noteq> [] \<Longrightarrow> rp_getVictim (ops cx) (renv cx) cands s = Inr (v, s') \<Longrightarrow>
      v \<in> set cands \<and> good s'"
proof -
  have rp: "replacement_policy (ops cx) good" and rng: "rng_ok (renv cx)"
    using assms by (auto simp: cx_ok_def)
  show "good s \<Longrightarrow> rp_touch (ops cx) env e s = Inr s' \<Longrightarrow> good s'"
    by (rule replacement_policy.touch_wf[OF rp])
  show "good s \<Longrightarrow> rp_reset (ops cx) env e s = Inr s' \<Longrightarrow> good s'"
    by (rule replacement_policy.reset_wf[OF rp])
  show "good s \<Longrightarrow> rp_invalidate (ops cx) e s = Inr s' \<Longrightarrow> good s'"
    by (rule replacement_policy.invalidate_wf[OF rp])
  show "good s \<Longrightarrow> cands \<noteq> [] \<Longrightarrow> rp_getVictim (ops cx) (renv cx) cands s = Inr (v, s') \<Longrightarrow>
      v \<in> set cands \<and> good s'"
    by (rule replacement_policy.victim_wf[OF rp rng])
qed

lemma accessBlock_iso:
  assumes "cx_ok good cx" "tags_ok good t" "accessBlock (ops cx) (renv cx) p t = Inr (r, lat, t')"
  shows "iso good X t t' \<and> r = findBlock (getAddr p) (isSecure p) t \<and>
    (\<forall>i. r = Some i \<longrightarrow> plain_idx t' i \<and> blkValid (blk_at t' i))"
proof (cases "findBlock (getAddr p) (isSecure p) t")
  case None
  then have "tagBlks t' = tagBlks t" "tagsIp t' = tagsIp t" "rpStore t' = rpStore t" "r = None"
    using assms(3) by (auto simp: accessBlock_def Let_def)
  then show ?thesis using None iso_same[OF assms(2), of t'] assms(2) by (simp add: tags_ok_def)
next
  case (Some i)
  note pl = findBlock_plain[OF assms(2) Some]
  have t': "tagBlks t' = (tagBlks t)[i := increaseRefCount (blk_at t i)]" "tagsIp t' = tagsIp t" "r = Some i"
    and "rp_touch (ops cx) (renv cx) i (rpStore t) = Inr (rpStore t')"
    using assms(3) Some by (auto simp: accessBlock_def Let_def blk_at_def)
  then have "good (rpStore t')" using cx_policy(1)[OF assms(1)] assms(2) by (auto simp: tags_ok_def)
  then have "iso good X t t'" for X
    by (intro iso_upd[OF assms(2) t'(1,2)]) (use pl assms(2) in \<open>auto simp: plain_idx_def tags_ok_blk\<close>)
  moreover have "blkValid (blk_at t' i)"
    using pl t'(1) by (simp add: plain_idx_def blk_at_def increaseRefCount_def)
  ultimately show ?thesis using Some t'(3) pl plain_idx_iso[of good "{}" t t' i] by auto
qed

lemma findVictim_iso:
  assumes "cx_ok good cx" "tags_ok good t" "findVictim (ops cx) (renv cx) a pid t = Inr (r, es, t')"
  shows "iso good X t t' \<and> tagBlks t' = tagBlks t \<and> (\<forall>v. r = Some v \<longrightarrow> plain_idx t' v)"
proof (cases "victim_candidates a pid t = []")
  case True
  then show ?thesis using assms(2,3) by (auto simp: findVictim_def Let_def iso_refl)
next
  case False
  then obtain v rp where v: "rp_getVictim (ops cx) (renv cx) (victim_candidates a pid t) (rpStore t) = Inr (v, rp)"
      "r = Some v" "t' = t\<lparr>rpStore := rp\<rparr>"
    using assms(3) by (auto simp: findVictim_def Let_def)
  have g: "v \<in> set (victim_candidates a pid t)" "good rp"
    using cx_policy(4)[OF assms(1) _ False v(1)] assms(2) by (auto simp: tags_ok_def)
  have "iso good X t t'" for X
    by (rule iso_same[OF assms(2)]) (simp_all add: v(3) g(2))
  moreover have "plain_idx t v"
    using victim_candidates_mem[OF g(1)] possible_entry_ok[OF assms(2)]
    by (auto simp: plain_idx_def slot_set_def evictable_def)
  ultimately show ?thesis using v(2,3) plain_idx_iso[of good "{}" t t' v] by auto
qed

lemma demoteToLRU_iso:
  assumes "cx_ok good cx" "tags_ok good t" "demoteToLRU (ops cx) i t = Inr t'"
  shows "iso good X t t' \<and> tagBlks t' = tagBlks t"
proof -
  from assms(3) obtain rp where rp: "rp_invalidate (ops cx) i (rpStore t) = Inr rp" "t' = t\<lparr>rpStore := rp\<rparr>"
    by (auto simp: demoteToLRU_def)
  then have "good rp" using cx_policy(3)[OF assms(1)] assms(2) by (auto simp: tags_ok_def)
  then show ?thesis using iso_same[OF assms(2), of t'] rp(2) by simp
qed

lemma tags_invalidate_iso:
  assumes "cx_ok good cx" "tags_ok good t" "plain_idx t i" "tags_invalidate (ops cx) i t = Inr t'"
  shows "iso good X t t' \<and> plain_idx t' i \<and> \<not> blkValid (blk_at t' i)"
proof -
  obtain b where b: "blk_invalidate (blk_at t i) = Inr b" "tagBlks t' = (tagBlks t)[i := b]" "tagsIp t' = tagsIp t"
      "rp_invalidate (ops cx) i (rpStore t) = Inr (rpStore t')"
    using tags_invalidate_blks[OF assms(4)] by blast
  have p: "plain b" "\<not> blkValid b" using plain_invalidate[OF b(1)] by auto
  have "iso good X t t'" for X
    by (rule iso_upd[OF assms(2) b(2,3)])
      (use p plain_not_slot[OF p(1)] assms(2,3) cx_policy(3)[OF assms(1) _ b(4)]
        in \<open>auto simp: plain_def tags_ok_def plain_idx_def\<close>)
  then show ?thesis
    using plain_idx_iso[of good "{}" t t' i] assms(3) b(2) p(2) by (auto simp: blk_at_def plain_idx_def)
qed

lemma insertBlock_iso:
  assumes "cx_ok good cx" "tags_ok good t" "plain_idx t i" "insertBlock (ops cx) (renv cx) p i t = Inr t'"
  shows "iso good X t t' \<and> plain_idx t' i \<and> blkValid (blk_at t' i)"
proof -
  obtain b part where b: "blk_insert (now (renv cx)) (tagsIp t) (getAddr p) (isSecure p) (requestorId (req p))
       (taskId (req p)) part (blk_at t i) = Inr b" "tagBlks t' = (tagBlks t)[i := b]" "tagsIp t' = tagsIp t"
      "rp_reset (ops cx) (renv cx) i (rpStore t) = Inr (rpStore t')"
    using insertBlock_blks[OF assms(4)] by blast
  have p: "plain b" "blkValid b" using plain_insert[OF plain_idx_at[OF assms(2,3)] b(1)] by auto
  have "iso good X t t'" for X
    by (rule iso_upd[OF assms(2) b(2,3)])
      (use p plain_not_slot[OF p(1)] assms(2,3) cx_policy(2)[OF assms(1) _ b(4)]
        in \<open>auto simp: plain_def tags_ok_def plain_idx_def\<close>)
  then show ?thesis
    using plain_idx_iso[of good "{}" t t' i] assms(3) b(2) p(2) by (auto simp: blk_at_def plain_idx_def)
qed

lemma findSPMSlot_iso:
  assumes "tags_ok good t" "findSPMSlot p t = (r, lat, t')"
  shows "iso good X t t' \<and> slot_set t' = slot_set t \<and> (\<forall>s. r = Some s \<longrightarrow> s < length (tagBlks t')) \<and>
    r = find (\<lambda>i. getWay (tagsIp t) i = extractWay (tagsIp t) (getSlot p))
          (getPossibleEntries (tagsIp t) (getSlot p)) \<and>
    (\<forall>i. same_but_refs (blk_at t i) (blk_at t' i))"
proof -
  let ?r = "find (\<lambda>i. getWay (tagsIp t) i = extractWay (tagsIp t) (getSlot p))
          (getPossibleEntries (tagsIp t) (getSlot p))"
  have r: "r = ?r" "tagsIp t' = tagsIp t" "rpStore t' = rpStore t"
    using assms(2) by (auto simp: findSPMSlot_def Let_def split: option.splits)
  have lt: "s < length (tagBlks t)" if "?r = Some s" for s
    using possible_entry_ok[OF assms(1)] find_Some_mem[OF that] by blast
  have bl: "tagBlks t' = tagBlks t \<or> (\<exists>s. ?r = Some s \<and> tagBlks t' = (tagBlks t)[s := increaseRefCount (blk_at t s)])"
  proof (cases ?r)
    case (Some s)
    then have "tagBlks t' = tagBlks t \<or> tagBlks t' = (tagBlks t)[s := increaseRefCount (blk_at t s)]"
      using assms(2) by (auto simp: findSPMSlot_def Let_def blk_at_def split: if_splits)
    with Some show ?thesis by blast
  qed (use assms(2) in \<open>auto simp: findSPMSlot_def Let_def\<close>)
  have g: "good (rpStore t')" using assms(1) r(3) by (simp add: tags_ok_def)
  have iso: "iso good X t t'" for X
    using bl
  proof (elim disjE exE conjE)
    fix s assume s: "?r = Some s" "tagBlks t' = (tagBlks t)[s := increaseRefCount (blk_at t s)]"
    show ?thesis
      by (rule iso_upd[OF assms(1) s(2) r(2) g]) (use lt[OF s(1)] tags_ok_blk[OF assms(1)] in auto)
  qed (rule iso_same[OF assms(1) _ r(2) g])
  have sb: "\<forall>i. same_but_refs (blk_at t i) (blk_at t' i)"
    using bl lt by (auto simp: blk_at_def nth_update_any)
  have "slot_set t' = slot_set t"
    using same_but_refs_isSet[OF spec[OF sb]] iso_length[OF iso] by (simp add: slot_set_def)
  with iso sb lt r(1) iso_length[OF iso] show ?thesis by simp
qed

section \<open>Operations on one block of the cache\<close>

abbreviation ciso :: "('s \<Rightarrow> bool) \<Rightarrow> nat set \<Rightarrow> 's cache \<Rightarrow> 's cache \<Rightarrow> bool" where
  "ciso good X c c' \<equiv> iso good X (c_tags c) (c_tags c')"

primrec ptr_ok :: "'s cache \<Rightarrow> blk_ptr \<Rightarrow> bool" where
  "ptr_ok c (InTags i) = plain_idx (c_tags c) i"
| "ptr_ok c TempBlk = True"

lemma ptr_ok_iso: "ciso good {} c c' \<Longrightarrow> ptr_ok c bp \<Longrightarrow> ptr_ok c' bp"
  by (cases bp) (auto intro: plain_idx_iso)

lemma ptr_plain: "tags_ok good (c_tags c) \<Longrightarrow> ptr_ok c bp \<Longrightarrow> bp = TempBlk \<or> plain (get_blk c bp)"
  by (cases bp) (auto intro: plain_idx_at)

lemma set_blk_iso:
  assumes "tags_ok good (c_tags c)" "ptr_ok c bp" "bp = TempBlk \<or> plain b"
  shows "ciso good X c (set_blk bp b c)"
  using assms by (cases bp) (auto intro: iso_upd_plain iso_refl)

lemma with_blk_iso:
  assumes "tags_ok good (c_tags c)" "ptr_ok c bp" "with_blk bp h c = Inr c'"
    and "\<And>b b'. plain b \<Longrightarrow> h b = Inr b' \<Longrightarrow> plain b'"
  shows "ciso good X c c'"
proof -
  from assms(3) obtain b where b: "h (get_blk c bp) = Inr b" "c' = set_blk bp b c"
    by (auto simp: with_blk_def)
  then show ?thesis
    using set_blk_iso[OF assms(1,2)] ptr_plain[OF assms(1,2)] assms(4) by blast
qed

lemma invalidateBlock_iso:
  assumes "cx_ok good cx" "tags_ok good (c_tags c)" "ptr_ok c bp" "invalidateBlock cx bp c = Inr c'"
  shows "ciso good X c c' \<and> \<not> blkValid (get_blk c' bp)"
proof (cases bp)
  case (InTags i)
  then obtain t where t: "tags_invalidate (ops cx) i (c_tags c) = Inr t" "c' = c\<lparr>c_tags := t\<rparr>"
    using assms(4) by (auto simp: invalidateBlock_def)
  then show ?thesis
    using tags_invalidate_iso[OF assms(1,2) _ t(1)] assms(3) InTags by simp
next
  case TempBlk
  then obtain b where "blk_invalidate (tempBlock c) = Inr b" "c' = c\<lparr>tempBlock := b, tempAddr := MaxAddr\<rparr>"
    using assms(4) by (auto simp: invalidateBlock_def tempBlock_invalidate_def)
  then show ?thesis
    using TempBlk iso_refl[OF assms(2)] plain_invalidate by auto
qed

lemma writebackBlk_iso:
  assumes "tags_ok good (c_tags c)" "ptr_ok c bp" "writebackBlk cx bp c = Inr (p, c')"
  shows "ciso good X c c' \<and> mshrQueue c' = mshrQueue c"
proof -
  obtain pkt where "c' = set_blk bp (snd (pass_state (get_blk c bp) pkt)) c"
    using assms(3) by (auto simp: writebackBlk_def Let_def split_def)
  moreover have "bp = TempBlk \<or> plain (snd (pass_state (get_blk c bp) pkt))"
    using ptr_plain[OF assms(1,2)] plain_pass_state by blast
  ultimately show ?thesis using set_blk_iso[OF assms(1,2)] by (cases bp) auto
qed

lemma writecleanBlk_iso:
  assumes "tags_ok good (c_tags c)" "ptr_ok c bp" "writecleanBlk cx bp d c = Inr (p, c')"
  shows "ciso good X c c'"
proof -
  obtain pkt where "c' = set_blk bp (snd (pass_state (get_blk c bp) pkt)) c"
    using assms(3) by (auto simp: writecleanBlk_def Let_def split_def)
  moreover have "bp = TempBlk \<or> plain (snd (pass_state (get_blk c bp) pkt))"
    using ptr_plain[OF assms(1,2)] plain_pass_state by blast
  ultimately show ?thesis using set_blk_iso[OF assms(1,2)] by auto
qed

lemma evictBlock_iso:
  assumes "cx_ok good cx" "tags_ok good (c_tags c)" "ptr_ok c bp" "evictBlock cx bp c = Inr (p, c')"
  shows "ciso good X c c' \<and> \<not> blkValid (get_blk c' bp)"
proof -
  from assms(4) obtain c1 where c1: "writebackBlk cx bp c = Inr (p, c1) \<or> c1 = c"
      "invalidateBlock cx bp c1 = Inr c'"
    by (auto simp: evictBlock_def split: if_splits)
  have i: "ciso good Y c c1" for Y
    using c1(1) writebackBlk_iso[OF assms(2,3)] iso_refl[OF assms(2)] by blast
  have "ciso good X c1 c' \<and> \<not> blkValid (get_blk c' bp)"
    by (rule invalidateBlock_iso[OF assms(1) iso_ok[OF i] ptr_ok_iso[OF i assms(3)] c1(2)])
  with i iso_trans show ?thesis by blast
qed

lemma base_satisfyRequest_iso:
  assumes "cx_ok good cx" "tags_ok good (c_tags c)" "ptr_ok c bp" "base_satisfyRequest cx p bp c = Inr (p', c')"
  shows "ciso good X c c'"
proof -
  from assms(4) have v: "blkValid (get_blk c bp)" by (simp add: base_satisfyRequest_def)
  consider (blk) b off where "satisfy_blk cx off p (get_blk c bp) = Inr (p', b)" "c' = set_blk bp b c"
    | (inv) "invalidateBlock cx bp c = Inr c'"
    using assms(4) unfolding base_satisfyRequest_def by (auto split: if_splits)
  then show ?thesis
  proof cases
    case blk
    then have "bp = TempBlk \<or> plain b"
      using ptr_plain[OF assms(2,3)] plain_satisfy_blk[OF _ v] by blast
    with blk(2) show ?thesis using set_blk_iso[OF assms(2,3)] by simp
  qed (use invalidateBlock_iso[OF assms(1-3)] in blast)
qed

lemma satisfyRequest_iso:
  assumes "cx_ok good cx" "tags_ok good (c_tags c)" "ptr_ok c bp"
    and "satisfyRequest cx dr pd p bp c = Inr (p', c')"
  shows "ciso good X c c'"
proof -
  from assms(4) obtain p1 c1 where c1: "base_satisfyRequest cx p bp c = Inr (p1, c1)"
    and r: "c' = c1 \<or> (\<exists>b. respond_to_cache (cfg cx) dr pd p1 (get_blk c1 bp) = Inr (p', b) \<and> c' = set_blk bp b c1)"
    by (auto simp: satisfyRequest_def split: if_splits)
  have i: "ciso good Y c c1" for Y by (rule base_satisfyRequest_iso[OF assms(1-3) c1])
  note ok = iso_ok[OF i] and pk = ptr_ok_iso[OF i assms(3)]
  have "ciso good X c1 c'"
    using r
  proof (elim disjE exE conjE)
    fix b assume b: "respond_to_cache (cfg cx) dr pd p1 (get_blk c1 bp) = Inr (p', b)" "c' = set_blk bp b c1"
    then have "bp = TempBlk \<or> plain b" using ptr_plain[OF ok pk] plain_respond_to_cache by blast
    with b(2) show ?thesis using set_blk_iso[OF ok pk] by simp
  qed (simp add: iso_refl[OF ok])
  with i iso_trans show ?thesis by blast
qed

lemma maintainClusivity_iso:
  assumes "cx_ok good cx" "tags_ok good (c_tags c)" "\<And>bp. blk = Some bp \<Longrightarrow> ptr_ok c bp"
    and "maintainClusivity cx fc blk c = Inr c'"
  shows "ciso good X c c'"
  using assms(4) invalidateBlock_iso[OF assms(1,2)] assms(3) iso_refl[OF assms(2)]
  by (auto simp: maintainClusivity_def split: option.splits if_splits)

section \<open>Evicting and allocating\<close>

lemma tags_invalidate_invalid:
  "tags_invalidate po i t = Inr t' \<Longrightarrow> \<not> blkValid (blk_at t j) \<Longrightarrow> \<not> blkValid (blk_at t' j)"
  using tags_invalidate_blks[of po i t t']
  by (auto simp: blk_at_def nth_update_any dest!: plain_invalidate split: if_splits)

lemma evictBlock_invalid:
  assumes "evictBlock cx (InTags i) c = Inr (p, c')" "\<not> blkValid (blk_at (c_tags c) j)"
  shows "\<not> blkValid (blk_at (c_tags c') j)"
proof -
  from assms(1) obtain c1 where c1: "writebackBlk cx (InTags i) c = Inr (p, c1) \<or> c1 = c"
      "invalidateBlock cx (InTags i) c1 = Inr c'"
    by (auto simp: evictBlock_def split: if_splits)
  from c1(1) have "\<not> blkValid (blk_at (c_tags c1) j)"
  proof
    assume "writebackBlk cx (InTags i) c = Inr (p, c1)"
    then obtain pkt where "c1 = set_blk (InTags i) (snd (pass_state (blk_at (c_tags c) i) pkt)) c"
      by (auto simp: writebackBlk_def Let_def split_def)
    then show ?thesis
      using assms(2) by (auto simp: blk_at_def nth_update_any pass_state_def)
  qed (use assms(2) in simp)
  with c1(2) show ?thesis
    by (auto simp: invalidateBlock_def dest: tags_invalidate_invalid)
qed

lemma evict_valid_invalid:
  "evict_valid cx is (wbs, c) = Inr (wbs', c') \<Longrightarrow> \<not> blkValid (blk_at (c_tags c) j) \<Longrightarrow> \<not> blkValid (blk_at (c_tags c') j)"
proof (induction "is" arbitrary: wbs c)
  case (Cons i "is")
  then show ?case using evictBlock_invalid by (fastforce split: if_splits)
qed simp

lemma evict_valid_iso:
  assumes "cx_ok good cx" "tags_ok good (c_tags c)" "\<forall>i \<in> set is. plain_idx (c_tags c) i"
    and "evict_valid cx is (wbs, c) = Inr (wbs', c')"
  shows "ciso good X c c' \<and> (\<forall>i \<in> set is. \<not> blkValid (blk_at (c_tags c') i))"
  using assms(2-4)
proof (induction "is" arbitrary: wbs c X)
  case Nil
  then show ?case by (simp add: iso_refl)
next
  case (Cons i "is")
  show ?case
  proof (cases "blkValid (blk_at (c_tags c) i)")
    case True
    then obtain pk c1 where c1: "evictBlock cx (InTags i) c = Inr (pk, c1)" "evict_valid cx is (wbs @ [pk], c1) = Inr (wbs', c')"
      using Cons.prems(3) by auto
    have i: "ciso good Y c c1 \<and> \<not> blkValid (blk_at (c_tags c1) i)" for Y
      using evictBlock_iso[OF assms(1) Cons.prems(1) _ c1(1)] Cons.prems(2) by simp
    have pl: "\<forall>j \<in> set is. plain_idx (c_tags c1) j"
      using Cons.prems(2) plain_idx_iso[OF conjunct1[OF i]] by (metis empty_iff list.set_intros(2))
    have r: "ciso good Y c1 c' \<and> (\<forall>j \<in> set is. \<not> blkValid (blk_at (c_tags c') j))" for Y
      by (rule Cons.IH[OF _ pl c1(2)]) (use i iso_ok in blast)
    have "\<not> blkValid (blk_at (c_tags c') i)"
      using r i evict_valid_invalid[OF c1(2)] by blast
    with r i iso_trans show ?thesis by (metis set_ConsD)
  next
    case False
    then have e: "evict_valid cx is (wbs, c) = Inr (wbs', c')" using Cons.prems(3) by simp
    have "ciso good X c c' \<and> (\<forall>j \<in> set is. \<not> blkValid (blk_at (c_tags c') j))"
      by (rule Cons.IH[OF Cons.prems(1) _ e]) (use Cons.prems(2) in simp)
    with evict_valid_invalid[OF e False] show ?thesis by auto
  qed
qed

lemma handleEvictions_iso:
  assumes "cx_ok good cx" "tags_ok good (c_tags c)" "plain_idx (c_tags c) i"
    and "handleEvictions cx [i] wbs c = Inr (ok, wbs', c')"
  shows "ciso good X c c' \<and> plain_idx (c_tags c') i \<and> (ok \<longrightarrow> \<not> blkValid (blk_at (c_tags c') i))"
proof -
  from assms(4) consider (pend) "\<not> ok" "c' = c" | (evict) "evict_valid cx [i] (wbs, c) = Inr (wbs', c')"
    unfolding handleEvictions_def by (auto simp del: evict_valid.simps split: if_splits)
  then show ?thesis
  proof cases
    case pend
    then show ?thesis using assms(3) iso_refl[OF assms(2)] by simp
  next
    case evict
    have "\<forall>j \<in> set [i]. plain_idx (c_tags c) j" using assms(3) by simp
    from evict_valid_iso[OF assms(1,2) this evict] have e: "ciso good Y c c'" "\<not> blkValid (blk_at (c_tags c') i)" for Y
      by auto
    then show ?thesis using plain_idx_iso[OF e(1)[of "{}"]] assms(3) by simp
  qed
qed

lemma allocateBlock_iso:
  assumes "cx_ok good cx" "tags_ok good (c_tags c)" "allocateBlock cx p wbs c = Inr (r, wbs', c')"
  shows "ciso good X c c' \<and> (\<forall>v. r = Some v \<longrightarrow> plain_idx (c_tags c') v \<and> blkValid (blk_at (c_tags c') v))"
proof -
  define pid where "pid = (case partitionManager (c_tags c) of None \<Rightarrow> 0 | Some _ \<Rightarrow> readPacketPartitionID p)"
  from assms(3) obtain v es t where v: "findVictim (ops cx) (renv cx) (getAddr p) pid (c_tags c) = Inr (v, es, t)"
    and rest: "(case v of None \<Rightarrow> Inr (None, wbs, c\<lparr>c_tags := t\<rparr>)
       | Some v \<Rightarrow> bindR (handleEvictions cx [v] wbs (c\<lparr>c_tags := t\<rparr>)) (\<lambda>(ok, wbs1, c2).
           if \<not> ok then Inr (None, wbs1, c2)
           else bindR (insertBlock (ops cx) (renv cx) p v (c_tags c2)) (\<lambda>t2.
                  Inr (Some v, wbs1, c2\<lparr>c_tags := t2\<rparr>)))) = Inr (r, wbs', c')"
    unfolding allocateBlock_def Let_def pid_def[symmetric] by (auto simp del: evict_valid.simps)
  let ?c = "c\<lparr>c_tags := t\<rparr>"
  have f: "ciso good Y c ?c" "\<And>w. v = Some w \<Longrightarrow> plain_idx t w" for Y
    using findVictim_iso[OF assms(1,2) v] by auto
  show ?thesis
  proof (cases v)
    case None
    then show ?thesis using rest f(1)[of X] by auto
  next
    case (Some w)
    then obtain ok wbs1 c2 where h: "handleEvictions cx [w] wbs ?c = Inr (ok, wbs1, c2)"
      and r: "if \<not> ok then r = None \<and> c' = c2
        else (\<exists>t2. insertBlock (ops cx) (renv cx) p w (c_tags c2) = Inr t2 \<and> r = Some w \<and> c' = c2\<lparr>c_tags := t2\<rparr>)"
      using rest by (auto split: if_splits)
    have ok1: "tags_ok good (c_tags ?c)" using iso_ok[OF f(1)] .
    have p1: "plain_idx (c_tags ?c) w" using f(2)[OF Some] by simp
    have h2: "ciso good Y ?c c2 \<and> plain_idx (c_tags c2) w" for Y
      using handleEvictions_iso[OF assms(1) ok1 p1 h] by blast
    have c2: "ciso good Y c c2" for Y using iso_trans[OF f(1) conjunct1[OF h2]] .
    show ?thesis
    proof (cases ok)
      case True
      then obtain t2 where t2: "insertBlock (ops cx) (renv cx) p w (c_tags c2) = Inr t2" "r = Some w" "c' = c2\<lparr>c_tags := t2\<rparr>"
        using r by auto
      have "iso good Y (c_tags c2) t2 \<and> plain_idx t2 w \<and> blkValid (blk_at t2 w)" for Y
        by (rule insertBlock_iso[OF assms(1) iso_ok[OF c2] _ t2(1)]) (use h2 in blast)
      then show ?thesis using t2(2,3) iso_trans[OF c2] by simp
    qed (use r c2 in auto)
  qed
qed

section \<open>Operations that leave the tag store alone\<close>

named_theorems same_tags "operations that do not touch the tag store"

lemma setBlocked_tags [same_tags]: "setBlocked k c = Inr c' \<Longrightarrow> c_tags c' = c_tags c"
  by (auto simp: setBlocked_def)

lemma clearBlocked_tags [same_tags]: "clearBlocked tk k c = Inr c' \<Longrightarrow> c_tags c' = c_tags c"
  by (auto simp: clearBlocked_def Let_def split: if_splits)

lemma markInService_wq_tags [same_tags]: "markInService_wq cx j c = Inr c' \<Longrightarrow> c_tags c' = c_tags c"
  by (auto simp: markInService_wq_def Let_def split: if_splits dest: clearBlocked_tags)

lemma markInService_mshr_tags [same_tags]: "markInService_mshr cx j b c = Inr c' \<Longrightarrow> c_tags c' = c_tags c"
  by (auto simp: markInService_mshr_def Let_def split: if_splits dest: clearBlocked_tags)

lemma schedMemSideSendEvent_tags [simp]: "c_tags (schedMemSideSendEvent t c) = c_tags c"
  by (simp add: schedMemSideSendEvent_def)

lemma allocateMissBuffer_tags [same_tags]: "allocateMissBuffer cx p t b c = Inr (i, c') \<Longrightarrow> c_tags c' = c_tags c"
  by (auto simp: allocateMissBuffer_def Let_def split: if_splits dest: setBlocked_tags)

lemma allocateWriteBuffer_tags [same_tags]: "allocateWriteBuffer cx p t c = Inr c' \<Longrightarrow> c_tags c' = c_tags c"
  by (auto simp: allocateWriteBuffer_def Let_def split: if_splits dest: setBlocked_tags)

lemma incMissCount_tags [same_tags]: "incMissCount cx p c = Inr c' \<Longrightarrow> c_tags c' = c_tags c"
  by (auto simp: incMissCount_def)

lemma incHitCount_tags [same_tags]: "incHitCount cx p c = Inr c' \<Longrightarrow> c_tags c' = c_tags c"
  by (auto simp: incHitCount_def)

section \<open>The common access path\<close>

definition f_ok :: "('s \<Rightarrow> bool) \<Rightarrow> 's frame \<Rightarrow> bool" where
  "f_ok good f \<longleftrightarrow> tags_ok good (f_tags f) \<and> (\<forall>i. f_blk f = Some i \<longrightarrow> plain_idx (f_tags f) i)"

abbreviation fiso :: "('s \<Rightarrow> bool) \<Rightarrow> nat set \<Rightarrow> 's frame \<Rightarrow> 's frame \<Rightarrow> bool" where
  "fiso good X f f' \<equiv> iso good X (f_tags f) (f_tags f')"

lemma f_ok_iso: "f_ok good f \<Longrightarrow> fiso good {} f f' \<Longrightarrow> f_blk f' = f_blk f \<Longrightarrow> f_ok good f'"
  by (auto simp: f_ok_def iso_ok intro: plain_idx_iso)

lemma tag_only_simps [simp]:
  "f_cache (tag_only cx l f) = f_cache f" "f_blk (tag_only cx l f) = f_blk f" "f_pkt (tag_only cx l f) = f_pkt f"
  "f_wbs (tag_only cx l f) = f_wbs f"
  by (simp_all add: tag_only_def)

lemma f_with_blk_iso:
  assumes "tags_ok good (f_tags f)" "plain_idx (f_tags f) i" "f_with_blk i h f = Inr f'"
    and "\<And>b b'. plain b \<Longrightarrow> h b = Inr b' \<Longrightarrow> plain b'"
  shows "fiso good X f f' \<and> f_blk f' = f_blk f \<and> f_pkt f' = f_pkt f \<and> f_wbs f' = f_wbs f"
proof -
  from assms(3) obtain c where "with_blk (InTags i) h (f_cache f) = Inr c" "f' = f\<lparr>f_cache := c\<rparr>"
    by (auto simp: f_with_blk_def)
  then show ?thesis using with_blk_iso[OF assms(1), of "InTags i" h c] assms(2,4) by simp
qed

lemma buffered_eviction_iso:
  assumes "access_buffered_eviction cx l f = Inr (b, f')"
  shows "f_tags f' = f_tags f \<and> f_blk f' = f_blk f \<and> f_pkt f' = f_pkt f"
proof (cases "isEviction (cmd (f_pkt f))")
  case True
  then obtain m where m: "wq_findMatch (getAddr (f_pkt f)) (isSecure (f_pkt f)) (writeBuffer (f_cache f)) = Inr m"
    using assms unfolding access_buffered_eviction_def Let_def by auto
  show ?thesis
    using assms True m unfolding access_buffered_eviction_def Let_def
    by (cases m) (auto split: if_splits dest: markInService_wq_tags)
qed (use assms in \<open>simp add: access_buffered_eviction_def\<close>)

lemma writeback_blk_iso:
  assumes "cx_ok good cx" "f_ok good f" "writeback_blk cx f = Inr f'"
  shows "fiso good X f f' \<and> f_ok good f' \<and> f_pkt f' = f_pkt f"
proof (cases "f_blk f")
  case None
  then obtain v wbs c where a: "allocateBlock cx (f_pkt f) (f_wbs f) (f_cache f) = Inr (v, wbs, c)"
    and r: "(case v of None \<Rightarrow> Inr (f\<lparr>f_wbs := wbs, f_cache := c, f_blk := v\<rparr>)
      | Some i \<Rightarrow> f_with_blk i (setCoherenceBits ReadableBit) (f\<lparr>f_wbs := wbs, f_cache := c, f_blk := v\<rparr>)) = Inr f'"
    using assms(3) by (auto simp: writeback_blk_def Let_def)
  let ?f = "f\<lparr>f_wbs := wbs, f_cache := c, f_blk := v\<rparr>"
  have i: "fiso good Y f ?f" and pl: "\<And>w. v = Some w \<Longrightarrow> plain_idx (f_tags ?f) w" for Y
    using allocateBlock_iso[OF assms(1) _ a] assms(2) by (auto simp: f_ok_def)
  show ?thesis
  proof (cases v)
    case None
    then show ?thesis using r i iso_ok[OF i] by (auto simp: f_ok_def)
  next
    case (Some w)
    then have w: "f_with_blk w (setCoherenceBits ReadableBit) ?f = Inr f'" using r by simp
    have j: "fiso good Y ?f f' \<and> f_blk f' = f_blk ?f \<and> f_pkt f' = f_pkt ?f \<and> f_wbs f' = f_wbs ?f" for Y
      by (rule f_with_blk_iso[OF iso_ok[OF i] pl[OF Some] w]) (auto intro: plain_setI)
    have "f_ok good ?f" using iso_ok[OF i] pl by (auto simp: f_ok_def)
    then show ?thesis using iso_trans[OF i] j f_ok_iso[of good ?f f'] by auto
  qed
qed (use assms iso_refl in \<open>auto simp: writeback_blk_def f_ok_def\<close>)

lemma finish_writeback_iso:
  assumes "f_ok good f" "f_blk f = Some i" "f_with_blk i (take_writeback cx l d w p) f = Inr f1"
    and "incHitCount cx p (f_cache f1) = Inr c"
  shows "fiso good X f (f1\<lparr>f_cache := c\<rparr>) \<and> f_blk f1 = f_blk f \<and> f_pkt f1 = f_pkt f"
proof -
  have "fiso good X f f1 \<and> f_blk f1 = f_blk f \<and> f_pkt f1 = f_pkt f \<and> f_wbs f1 = f_wbs f"
    by (rule f_with_blk_iso[OF _ _ assms(3)])
      (use assms(1,2) plain_take_writeback in \<open>auto simp: f_ok_def\<close>)
  then show ?thesis using incHitCount_tags[OF assms(4)] by simp
qed

lemma writeback_tail_iso:
  assumes "cx_ok good cx" "f_ok good f"
    and "bindR (writeback_blk cx f) (\<lambda>f1.
        case f_blk f1 of
          None \<Rightarrow> bindR (incMissCount cx p (f_cache f1)) (\<lambda>c. Inr (False, f1\<lparr>f_cache := c\<rparr>))
        | Some i \<Rightarrow> bindR (f_with_blk i (take_writeback cx l d w p) f1) (\<lambda>f2.
            bindR (incHitCount cx p (f_cache f2)) (\<lambda>c. Inr (r, f2\<lparr>f_cache := c\<rparr>)))) = Inr (b, f')"
  shows "fiso good X f f' \<and> f_ok good f' \<and> f_pkt f' = f_pkt f"
proof -
  from assms(3) obtain f1 where f1: "writeback_blk cx f = Inr f1" by auto
  have i: "fiso good Y f f1" "f_ok good f1" "f_pkt f1 = f_pkt f" for Y
    using writeback_blk_iso[OF assms(1,2) f1] by auto
  have j: "fiso good Y f1 f' \<and> f_blk f' = f_blk f1 \<and> f_pkt f' = f_pkt f1" for Y
  proof (cases "f_blk f1")
    case None
    then show ?thesis
      using assms(3) f1 iso_refl[OF iso_ok[OF i(1)]] by (auto dest: incMissCount_tags)
  next
    case (Some j)
    then show ?thesis using assms(3) f1 finish_writeback_iso[OF i(2) Some] by fastforce
  qed
  then show ?thesis using i f_ok_iso[of good f1 f'] iso_trans[OF i(1)] by auto
qed

lemma access_writeback_iso:
  assumes "cx_ok good cx" "f_ok good f" "access_writeback cx l f = Inr (b, f')"
  shows "fiso good X f f' \<and> f_ok good f' \<and> f_pkt f' = f_pkt f"
proof -
  have ok: "tags_ok good (f_tags f)" using assms(2) by (simp add: f_ok_def)
  show ?thesis
  proof (cases "f' = f")
    case False
    show ?thesis
      by (rule writeback_tail_iso[OF assms(1,2)])
        (use assms(3) False in \<open>auto simp: access_writeback_def Let_def split: if_splits\<close>)
  qed (use assms(2) in \<open>simp add: iso_refl[OF ok]\<close>)
qed

lemma access_writeclean_iso:
  assumes "cx_ok good cx" "f_ok good f" "access_writeclean cx l f = Inr (b, f')"
  shows "fiso good X f f' \<and> f_ok good f' \<and> f_pkt f' = f_pkt f"
proof -
  have ok: "tags_ok good (f_tags f)" using assms(2) by (simp add: f_ok_def)
  show ?thesis
  proof (cases "f' = f")
    case False
    show ?thesis
      by (rule writeback_tail_iso[OF assms(1,2)])
        (use assms(3) False in \<open>auto simp: access_writeclean_def Let_def split: if_splits\<close>)
  qed (use assms(2) in \<open>simp add: iso_refl[OF ok]\<close>)
qed

lemma access_hit_iso:
  assumes "cx_ok good cx" "f_ok good f" "f_blk f = Some i" "access_hit cx l i f = Inr (b, f')"
  shows "fiso good X f f' \<and> f_ok good f'"
proof -
  have blk: "f_blk f' = f_blk f" using assms(4) by (auto simp: access_hit_def)
  from assms(4) obtain c p1 c1 c2 where w: "incHitCount cx (f_pkt f) (f_cache f) = Inr c"
      "satisfyRequest cx False False (f_pkt f) (InTags i) c = Inr (p1, c1)"
      "maintainClusivity cx (fromCache (cmd p1)) (Some (InTags i)) c1 = Inr c2" "f_cache f' = c2"
    by (auto simp: access_hit_def)
  have c: "c_tags c = f_tags f" using incHitCount_tags[OF w(1)] .
  then have ok: "tags_ok good (c_tags c)" "ptr_ok c (InTags i)" using assms(2,3) by (auto simp: f_ok_def)
  have i: "ciso good Y c c1" for Y by (rule satisfyRequest_iso[OF assms(1) ok w(2)])
  have "ciso good Y c1 c2" for Y
    by (rule maintainClusivity_iso[OF assms(1) iso_ok[OF i] _ w(3)]) (use ptr_ok_iso[OF i ok(2)] in auto)
  then have "fiso good Y f f'" for Y using iso_trans[OF i] w(4) c by simp
  then show ?thesis using f_ok_iso[OF assms(2) _ blk] by blast
qed

lemma access_miss_iso:
  "access_miss cx l f = Inr (b, f') \<Longrightarrow> f_tags f' = f_tags f \<and> f_blk f' = f_blk f"
  by (auto simp: access_miss_def Let_def split: if_splits dest: incMissCount_tags)

lemma access_dispatch_iso:
  assumes "cx_ok good cx" "f_ok good f" "access_dispatch cx l f = Inr (b, f')"
  shows "fiso good X f f' \<and> f_ok good f'"
proof -
  have rf: "iso good X (f_tags f) (f_tags f)" using assms(2) by (simp add: f_ok_def iso_refl)
  from assms(3) consider "f_tags f' = f_tags f" "f_blk f' = f_blk f" | "access_writeback cx l f = Inr (b, f')"
    | "access_writeclean cx l f = Inr (b, f')" | i where "f_blk f = Some i" "access_hit cx l i f = Inr (b, f')"
    | "access_miss cx l f = Inr (b, f')"
    by (auto simp: access_dispatch_def Let_def split: if_splits option.splits)
  then show ?thesis
    using access_writeback_iso[OF assms(1,2)] access_writeclean_iso[OF assms(1,2)]
      access_hit_iso[OF assms(1,2)] access_miss_iso[of cx l f b f'] rf assms(2)
    by cases (auto simp: f_ok_def)
qed

lemma access_common_iso:
  assumes "cx_ok good cx" "f_ok good f" "access_common cx l f = Inr (b, f')"
  shows "fiso good X f f' \<and> f_ok good f'"
proof (cases "isCacheMaintenance (req (f_pkt f))")
  case True
  then show ?thesis using assms(2,3) by (auto simp: access_common_def f_ok_def iso_refl)
next
  case False
  then obtain sunk f0 where f0: "access_buffered_eviction cx l f = Inr (sunk, f0)"
    using assms(3) by (auto simp: access_common_def)
  define f1 where "f1 = (if isWrite (cmd (f_pkt f0)) then tag_only cx l f0 else f0)"
  have s1: "f_tags f1 = f_tags f" "f_blk f1 = f_blk f" "f_tags f0 = f_tags f" "f_blk f0 = f_blk f"
    using buffered_eviction_iso[OF f0] by (auto simp: f1_def)
  then have ok1: "f_ok good f1" using assms(2) by (simp add: f_ok_def)
  have "f' = f0 \<or> access_dispatch cx l f1 = Inr (b, f')"
    using assms(3) False f0 unfolding f1_def by (auto simp: access_common_def split: if_splits)
  then show ?thesis
    using access_dispatch_iso[OF assms(1) ok1] s1 assms(2) by (auto simp: f_ok_def iso_refl)
qed

section \<open>Scratchpad commands\<close>

lemma l1_spm_access_tags: "l1_spm_access cx l f = Inr (b, f') \<Longrightarrow> f_tags f' = f_tags f"
  by (auto simp: l1_spm_access_def split: option.splits)

lemma l2_copy_source_iso:
  assumes "cx_ok good cx" "f_ok good f" "l2_copy_source cx l f = Inr (sl, f')"
  shows "fiso good X f f' \<and> f_blk f' = f_blk f \<and> cmd (f_pkt f') = cmd (f_pkt f) \<and>
    getSlot (f_pkt f') = getSlot (f_pkt f) \<and> tagBlks (f_tags f') = tagBlks (f_tags f)"
proof -
  have ok: "tags_ok good (f_tags f)" using assms(2) by (simp add: f_ok_def)
  have "(f_tags f' = f_tags f \<or> (\<exists>i. demoteToLRU (ops cx) i (f_tags f) = Inr (f_tags f'))) \<and> f_blk f' = f_blk f \<and>
      cmd (f_pkt f') = cmd (f_pkt f) \<and> getSlot (f_pkt f') = getSlot (f_pkt f)"
    using assms(3)
    by (auto simp: l2_copy_source_def f_with_tags_def copy_from_line_def Let_def getSlot_def
        split: if_splits option.splits)
  then show ?thesis
    using demoteToLRU_iso[OF assms(1) ok] iso_refl[OF ok] by metis
qed

text \<open>Changing a slot that may be changed.\<close>

definition slot_idx :: "indexing_policy \<Rightarrow> addr \<Rightarrow> nat option" where
  "slot_idx ip a = find (\<lambda>i. getWay ip i = extractWay ip a) (getPossibleEntries ip a)"

lemma f_findSPMSlot_iso:
  assumes "tags_ok good (f_tags f)" "f_findSPMSlot f = (r, l, f')"
  shows "fiso good X f f' \<and> slot_set (f_tags f') = slot_set (f_tags f) \<and> (\<forall>s. r = Some s \<longrightarrow> s < length (tagBlks (f_tags f')))
     \<and> r = slot_idx (tagsIp (f_tags f)) (getSlot (f_pkt f)) \<and> f_blk f' = f_blk f \<and> f_pkt f' = f_pkt f
     \<and> f_wbs f' = f_wbs f \<and> (\<forall>i. same_but_refs (blk_at (f_tags f) i) (blk_at (f_tags f') i))"
proof -
  from assms(2) obtain t where t: "findSPMSlot (f_pkt f) (f_tags f) = (r, l, t)" "f' = f_with_tags t f"
    by (auto simp: f_findSPMSlot_def split: prod.splits)
  show ?thesis using findSPMSlot_iso[OF assms(1) t(1), of X] t(2) by (simp add: f_with_tags_def slot_idx_def)
qed

lemma f_with_blk_slot:
  assumes "tags_ok good (f_tags f)" "s < length (tagBlks (f_tags f))" "s \<in> X" "f_with_blk s h f = Inr f'"
    and "\<And>b b'. blk_wf b \<Longrightarrow> h b = Inr b' \<Longrightarrow> blk_wf b'"
  shows "fiso good X f f' \<and> f_blk f' = f_blk f \<and> f_pkt f' = f_pkt f \<and> f_wbs f' = f_wbs f"
proof -
  from assms(4) obtain b where b: "h (blk_at (f_tags f) s) = Inr b"
      "f' = f\<lparr>f_cache := (f_cache f)\<lparr>c_tags := upd_blk s b (f_tags f)\<rparr>\<rparr>"
    by (auto simp: f_with_blk_def with_blk_def)
  have "blk_wf b" using assms(5) b(1) tags_ok_blk[OF assms(1,2)] by blast
  then have "fiso good X f f'"
    by (intro iso_upd[OF assms(1), of _ s b]) (use b(2) assms(1,3) in \<open>auto simp: tags_ok_def\<close>)
  then show ?thesis using b(2) by simp
qed

lemma wf_fill_slot: "blk_wf b \<Longrightarrow> fill_slot off src n r b = Inr b' \<Longrightarrow> blk_wf b'"
  by (auto simp: fill_slot_def setWhenReady_def blk_wf_def)

lemma wf_scratchpad: "blk_wf b \<Longrightarrow> setCoherenceBits ScratchpadBit b = Inr b' \<Longrightarrow> blk_wf b'"
  by (simp add: blk_wf_setCoherenceBits)

lemma wf_make_slot: "blk_wf b \<Longrightarrow> make_slot b = Inr b' \<Longrightarrow> blk_wf b'"
  unfolding make_slot_def by (blast intro: wf_scratchpad blk_wf_clearCoherenceBits)

lemma plain_mark_waiting: "plain b \<Longrightarrow> mark_waiting b = Inr b' \<Longrightarrow> plain b'"
  unfolding mark_waiting_def by (erule plain_setI) (auto intro: plain_clear)

lemma vacate_slot_iso:
  assumes "cx_ok good cx" "tags_ok good (f_tags f)" "plain_idx (f_tags f) s" "vacate_slot cx s f = Inr (ok, f')"
  shows "fiso good X f f' \<and> plain_idx (f_tags f') s \<and> f_pkt f' = f_pkt f \<and> f_blk f' = f_blk f"
proof -
  from assms(4) obtain ok' wbs c where h: "handleEvictions cx [s] (f_wbs f) (f_cache f) = Inr (ok', wbs, c)"
    and r: "(if ok' then f' = f\<lparr>f_wbs := wbs, f_cache := c\<rparr>
       else f_with_blk s mark_waiting (f\<lparr>f_wbs := wbs, f_cache := c\<rparr>) = Inr f')"
    by (auto simp: vacate_slot_def Let_def split: if_splits)
  let ?f = "f\<lparr>f_wbs := wbs, f_cache := c\<rparr>"
  have i: "fiso good Y f ?f" "plain_idx (f_tags ?f) s" for Y
    using handleEvictions_iso[OF assms(1-3) h] by auto
  show ?thesis
  proof (cases ok')
    case True
    then show ?thesis using r i by simp
  next
    case False
    then have w: "f_with_blk s mark_waiting ?f = Inr f'" using r by simp
    have j: "fiso good Y ?f f' \<and> f_blk f' = f_blk ?f \<and> f_pkt f' = f_pkt ?f \<and> f_wbs f' = f_wbs ?f" for Y
      by (rule f_with_blk_iso[OF iso_ok[OF i(1)] i(2) w]) (rule plain_mark_waiting)
    then have "plain_idx (f_tags f') s" using plain_idx_iso[of good "{}", OF _ _ i(2)] by blast
    then show ?thesis using j iso_trans[OF i(1)] by auto
  qed
qed

lemma l2_copy_found_iso:
  assumes "cx_ok good cx" "tags_ok good (f_tags f)" "s < length (tagBlks (f_tags f))" "s \<in> X"
    and "l2_copy_found cx sl s f = Inr (b, f')"
  shows "fiso good X f f'"
proof -
  define fin where "fin f' = bindR (getPtr (f_pkt f)) (\<lambda>src.
     bindR (f_with_blk s (fill_slot (line_offset cx (getSlot (f_pkt f))) src (getSpmSize (f_pkt f))
         (slot_ready_at cx sl (f_pkt f))) f') (\<lambda>f''.
       Inr (True, f''\<lparr>f_lat := sl, f_pkt := (f_pkt f)\<lparr>L1find := False\<rparr>\<rparr>)))" for f' :: "'a frame"
  have fin: "fiso good X g f'" if "tags_ok good (f_tags g)" "length (tagBlks (f_tags g)) = length (tagBlks (f_tags f))"
      "fin g = Inr (b, f')" for g
  proof -
    from that(3) obtain src f1 where f1: "f_with_blk s (fill_slot (line_offset cx (getSlot (f_pkt f))) src
        (getSpmSize (f_pkt f)) (slot_ready_at cx sl (f_pkt f))) g = Inr f1" "f_tags f' = f_tags f1"
      by (auto simp: fin_def)
    have "fiso good X g f1 \<and> f_blk f1 = f_blk g \<and> f_pkt f1 = f_pkt g \<and> f_wbs f1 = f_wbs g"
      by (rule f_with_blk_slot[OF that(1) _ assms(4) f1(1)]) (use assms(3) that(2) wf_fill_slot in auto)
    with f1(2) show ?thesis by simp
  qed
  show ?thesis
  proof (cases "blk_isSet ScratchpadBit (blk_at (f_tags f) s)")
    case True
    then have "fin f = Inr (b, f')" using assms(5) by (simp add: l2_copy_found_def Let_def fin_def)
    then show ?thesis using fin[OF assms(2)] by simp
  next
    case False
    then obtain ok f1 where v: "vacate_slot cx s f = Inr (ok, f1)"
      and r: "if \<not> ok then f' = f1 else (\<exists>t f2. insertBlock (ops cx) (renv cx) (f_pkt f) s (f_tags f1) = Inr t \<and>
        f_with_blk s make_slot (f_with_tags t f1) = Inr f2 \<and> fin f2 = Inr (b, f'))"
      using assms(5) unfolding l2_copy_found_def Let_def fin_def[symmetric] by (auto split: if_splits)
    have p: "plain_idx (f_tags f) s" using False assms(3) by (simp add: plain_idx_def slot_set_def)
    have i: "fiso good Y f f1" "plain_idx (f_tags f1) s" for Y using vacate_slot_iso[OF assms(1,2) p v] by auto
    show ?thesis
    proof (cases ok)
      case True
      then obtain t f2 where t: "insertBlock (ops cx) (renv cx) (f_pkt f) s (f_tags f1) = Inr t"
          "f_with_blk s make_slot (f_with_tags t f1) = Inr f2" "fin f2 = Inr (b, f')"
        using r by auto
      let ?f = "f_with_tags t f1"
      have i1: "fiso good Y f1 ?f" for Y
        using insertBlock_iso[OF assms(1) iso_ok[OF i(1)] i(2) t(1)] by (simp add: f_with_tags_def)
      have s: "s < length (tagBlks (f_tags ?f))" using iso_length[OF iso_trans[OF i(1) i1]] assms(3) by simp
      have i2: "fiso good X ?f f2 \<and> f_blk f2 = f_blk ?f \<and> f_pkt f2 = f_pkt ?f \<and> f_wbs f2 = f_wbs ?f"
        by (rule f_with_blk_slot[OF iso_ok[OF i1] s assms(4) t(2)]) (rule wf_make_slot)
      have i3: "fiso good X f f2" using iso_trans[OF iso_trans[OF i(1) i1]] i2 by blast
      show ?thesis
        by (rule iso_trans[OF i3 fin[OF iso_ok[OF i3] iso_length[OF i3] t(3)]])
    qed (use r i in auto)
  qed
qed

lemma l2_copy_missing_iso:
  assumes "cx_ok good cx" "tags_ok good (f_tags f)" "s < length (tagBlks (f_tags f))" "s \<in> X"
    and "l2_copy_missing cx sl s f = Inr (b, f')"
  shows "fiso good X f f'"
proof -
  from assms(5) obtain f1 f2 where f1: "f1 = f \<or> (\<not> blk_isSet ScratchpadBit (blk_at (f_tags f) s) \<and> (\<exists>ok. vacate_slot cx s f = Inr (ok, f1)))"
      "f_with_blk s (setCoherenceBits ScratchpadBit) f1 = Inr f2" "f_tags f' = f_tags f2"
    unfolding l2_copy_missing_def by (fastforce split: if_splits)
  have i: "fiso good Y f f1" for Y
    using f1(1)
  proof
    assume h: "\<not> blk_isSet ScratchpadBit (blk_at (f_tags f) s) \<and> (\<exists>ok. vacate_slot cx s f = Inr (ok, f1))"
    then have p: "plain_idx (f_tags f) s" using assms(3) by (simp add: plain_idx_def slot_set_def)
    from h show ?thesis using vacate_slot_iso[OF assms(1,2) p] by blast
  qed (simp add: iso_refl assms(2))
  have "fiso good X f1 f2 \<and> f_blk f2 = f_blk f1 \<and> f_pkt f2 = f_pkt f1 \<and> f_wbs f2 = f_wbs f1"
    by (rule f_with_blk_slot[OF iso_ok[OF i] _ assms(4) f1(2)]) (use iso_length[OF i] assms(3) wf_scratchpad in auto)
  then show ?thesis using iso_trans[OF i] f1(3) by simp
qed

lemma l2_copy_access_iso:
  assumes "cx_ok good cx" "tags_ok good (f_tags f)" "l2_copy_access cx sl f = Inr (b, f')"
    and "set_option (slot_idx (tagsIp (f_tags f)) (getSlot (f_pkt f))) \<subseteq> X"
  shows "fiso good X f f'"
proof -
  let ?f = "f\<lparr>f_pkt := (f_pkt f)\<lparr>SPMresp := True\<rparr>\<rparr>"
  obtain r l f1 where f1: "f_findSPMSlot ?f = (r, l, f1)" by (metis prod_cases3)
  from assms(3) f1 obtain s where s: "r = Some s"
    and w: "l2_copy_found cx sl s f1 = Inr (b, f') \<or> l2_copy_missing cx sl s f1 = Inr (b, f')"
    by (cases r) (auto simp: l2_copy_access_def split: if_splits)
  have i: "fiso good Y ?f f1" "s < length (tagBlks (f_tags f1))" "s \<in> X" for Y
    using f_findSPMSlot_iso[OF _ f1, of good Y] assms(2,4) s by (auto simp: getSlot_def)
  have "fiso good X f1 f'"
    using w l2_copy_found_iso[OF assms(1) iso_ok[OF i(1)] i(2,3)] l2_copy_missing_iso[OF assms(1) iso_ok[OF i(1)] i(2,3)]
    by blast
  then show ?thesis using iso_trans[OF i(1)] by simp
qed

lemma plain_write_line: "plain b \<Longrightarrow> write_line p off src n b = Inr b' \<Longrightarrow> plain b'"
  by (auto simp: write_line_def intro: plain_setI)

lemma plain_fill_line:
  assumes "plain b" "fill_line cx d b = Inr b'"
  shows "plain b'"
proof -
  from assms(2) obtain b1 where b: "setCoherenceBits ReadableBit (b\<lparr>blkData := memcpy (blkData b) 0 d (blkSize (cfg cx))\<rparr>) = Inr b1"
      "setCoherenceBits DirtyBit b1 = Inr b'"
    by (auto simp: fill_line_def)
  have "plain b1" by (rule plain_setI[OF b(1)]) (use assms(1) in auto)
  then show ?thesis by (intro plain_setI[OF b(2)]) auto
qed

lemma l2_writeback_line_iso:
  assumes "cx_ok good cx" "f_ok good f" "l2_writeback_line cx d l f = Inr (r, l', f')"
  shows "fiso good X f f' \<and> f_ok good f'"
proof -
  have rf: "fiso good X f f" using assms(2) by (simp add: f_ok_def iso_refl)
  from assms(3) consider
      (hit) i where "f_blk f = Some i" "l2_writeback_hit cx d l i f = Inr (r, l', f')"
    | (alloc) "l2_writeback_alloc cx d l f = Inr (r, l', f')" | (skip) "f' = tag_only cx l f"
    by (auto simp: l2_writeback_line_def split: option.splits if_splits)
  then show ?thesis
  proof cases
    case hit
    then obtain o' n f1 where w: "f_with_blk i (write_line (f_pkt f) o' d n) f = Inr f1" "f' = tag_only cx l f1"
      by (auto simp: l2_writeback_hit_def Let_def)
    have "fiso good Y f f1 \<and> f_blk f1 = f_blk f \<and> f_pkt f1 = f_pkt f \<and> f_wbs f1 = f_wbs f" for Y
      by (rule f_with_blk_iso[OF _ _ w(1)])
        (use assms(2) hit(1) plain_write_line in \<open>auto simp: f_ok_def\<close>)
    then show ?thesis using f_ok_iso[OF assms(2), of f'] w(2) by simp
  next
    case alloc
    then obtain v wbs c where a: "allocateBlock cx (f_pkt f) (f_wbs f) (f_cache f) = Inr (v, wbs, c)"
      by (auto simp: l2_writeback_alloc_def)
    let ?f = "f\<lparr>f_wbs := wbs, f_cache := c, f_blk := v\<rparr>"
    have i: "fiso good Y f ?f" and pl: "\<And>w. v = Some w \<Longrightarrow> plain_idx (f_tags ?f) w" for Y
      using allocateBlock_iso[OF assms(1) _ a] assms(2) by (auto simp: f_ok_def)
    have ok: "f_ok good ?f" using iso_ok[OF i] pl by (auto simp: f_ok_def)
    show ?thesis
    proof (cases v)
      case None
      then obtain c' where "incMissCount cx (f_pkt ?f) c = Inr c'" "f' = tag_only cx l (?f\<lparr>f_cache := c'\<rparr>)"
        using alloc a by (auto simp: l2_writeback_alloc_def)
      then have "f_tags f' = f_tags ?f" "f_blk f' = f_blk ?f" by (auto dest: incMissCount_tags)
      then show ?thesis using i ok by (auto simp: f_ok_def)
    next
      case (Some w)
      then obtain f2 where w: "f_with_blk w (fill_line cx d) ?f = Inr f2" "f_tags f' = f_tags f2" "f_blk f' = f_blk f2"
        using alloc a by (auto simp: l2_writeback_alloc_def)
      have j: "fiso good Y ?f f2 \<and> f_blk f2 = f_blk ?f \<and> f_pkt f2 = f_pkt ?f \<and> f_wbs f2 = f_wbs ?f" for Y
        by (rule f_with_blk_iso[OF iso_ok[OF i] pl[OF Some] w(1)]) (rule plain_fill_line)
      then have "fiso good X f f'" "fiso good {} ?f f'" using iso_trans[OF i] w(2) by auto
      then show ?thesis using f_ok_iso[OF ok, of f'] j w(3) by simp
    qed
  qed (use rf assms(2) in \<open>auto simp: f_ok_def\<close>)
qed

lemma l2_writeback_access_iso:
  assumes "cx_ok good cx" "f_ok good f" "l2_writeback_access cx f = Inr (r, l, f')"
  shows "fiso good X f f' \<and> f_ok good f'"
proof -
  let ?f = "f\<lparr>f_pkt := (f_pkt f)\<lparr>SPMresp := True\<rparr>\<rparr>"
  obtain sl l0 f0 where f0: "f_findSPMSlot ?f = (sl, l0, f0)" by (metis prod_cases3)
  have i0: "fiso good Y f f0" "f_blk f0 = f_blk f" for Y
    using f_findSPMSlot_iso[OF _ f0, of good Y] assms(2) by (auto simp: f_ok_def)
  from assms(3) f0 obtain d p where w: "l2_writeback_line cx d l0 (f0\<lparr>f_pkt := p\<rparr>) = Inr (r, l, f')"
    by (cases sl) (auto simp: l2_writeback_access_def Let_def)
  have "f_ok good (f0\<lparr>f_pkt := p\<rparr>)" using f_ok_iso[OF assms(2) i0(1) i0(2)] by (simp add: f_ok_def)
  from l2_writeback_line_iso[OF assms(1) this w, of X] show ?thesis
    using iso_trans[OF i0(1)] by auto
qed

lemma slot_addr_of_cong: "tagsIp (f_tags f') = tagsIp (f_tags f) \<Longrightarrow> slot_addr_of cx a w f' = slot_addr_of cx a w f"
  by (simp add: slot_addr_of_def)

lemma fill_slot_slots:
  assumes "f_with_blk s (fill_slot off src n r) f = Inr f'"
  shows "slot_set (f_tags f') = slot_set (f_tags f)"
proof -
  from assms obtain b where b: "fill_slot off src n r (blk_at (f_tags f) s) = Inr b" "f_tags f' = upd_blk s b (f_tags f)"
    by (auto simp: f_with_blk_def with_blk_def)
  then have "coherence b = coherence (blk_at (f_tags f) s)" "blkValid b = blkValid (blk_at (f_tags f) s)"
    by (auto simp: fill_slot_def setWhenReady_def)
  then show ?thesis using b(2) by (auto simp: slot_set_def blk_at_def nth_update_any blk_isSet_def split: if_splits)
qed

text \<open>What a loop over slots keeps besides.\<close>

definition same_frame :: "'s frame \<Rightarrow> 's frame \<Rightarrow> bool" where
  "same_frame f f' \<longleftrightarrow> slot_set (f_tags f') = slot_set (f_tags f) \<and> f_blk f' = f_blk f \<and>
     cmd (f_pkt f') = cmd (f_pkt f)"

lemma same_frame_trans: "same_frame f g \<Longrightarrow> same_frame g h \<Longrightarrow> same_frame f h"
  by (simp add: same_frame_def)

lemma f_ok_same: "f_ok good f \<Longrightarrow> fiso good X f f' \<Longrightarrow> same_frame f f' \<Longrightarrow> f_ok good f'"
  by (auto simp: f_ok_def same_frame_def plain_idx_def iso_def)

lemma spm_store_loop_iso:
  assumes "tags_ok good (f_tags f)" "spm_store_loop cx d a w is k l f = Inr (b, f')"
    and "\<And>i. i \<in> set is \<Longrightarrow> set_option (slot_idx (tagsIp (f_tags f))
       (slot_addr_of cx ((a div of_nat (blkSize (cfg cx))) * of_nat (blkSize (cfg cx))) (w + i) f)) \<subseteq> X"
  shows "fiso good X f f' \<and> same_frame f f'"
  using assms
proof (induction "is" arbitrary: k l f)
  case Nil
  then show ?case by (auto simp: iso_refl same_frame_def setSlot_def)
next
  case (Cons i "is")
  let ?base = "(a div of_nat (blkSize (cfg cx))) * of_nat (blkSize (cfg cx))"
  show ?case
  proof (cases "w + i \<ge> getWayAllocationMax (f_tags f)")
    case True
    then show ?thesis using Cons.prems by (simp add: Let_def iso_refl same_frame_def)
  next
    case False
    then obtain pkt where p: "setSlot (slot_addr_of cx ?base (w + i) f) (f_pkt f) = Inr pkt"
      using Cons.prems(2) by (auto simp: Let_def)
    let ?f = "f\<lparr>f_pkt := pkt\<rparr>"
    obtain r l1 f1 where f1: "f_findSPMSlot ?f = (r, l1, f1)" by (metis prod_cases3)
    obtain off n where oc: "chunk_at cx (unat (a mod of_nat (blkSize (cfg cx)))) (getSize pkt) i k = (off, n)"
      by (metis surj_pair)
    have i: "fiso good Y f f1" "r = slot_idx (tagsIp (f_tags f)) (slot_addr_of cx ?base (w + i) f)"
        "\<And>s. r = Some s \<Longrightarrow> s < length (tagBlks (f_tags f1))" "same_frame f f1" for Y
      using f_findSPMSlot_iso[OF _ f1, of good Y] Cons.prems(1) p by (auto simp: setSlot_def getSlot_def same_frame_def)
    show ?thesis
    proof (cases "f_cache f' = f_cache f1 \<and> f_blk f' = f_blk f1 \<and> f_pkt f' = f_pkt f1")
      case True
      then show ?thesis using i(1,4) by (simp add: same_frame_def)
    next
      case False
      with Cons.prems(2) \<open>\<not> w + i \<ge> _\<close> p f1 oc obtain s f2 where s: "r = Some s"
          "f_with_blk s (fill_slot off (drop k d) n (slot_ready_at cx l1 pkt)) f1 = Inr f2"
        and rest: "spm_store_loop cx d a w [] (k + n) l1 f2 = Inr (b, f') \<or> spm_store_loop cx d a w is (k + n) l1 f2 = Inr (b, f')"
        by (cases r) (auto simp del: spm_store_loop.simps(1) simp: Let_def split: if_splits)
      have "set_option r \<subseteq> X" using Cons.prems(3)[of i] i(2) by simp
      then have "s \<in> X" using s(1) by simp
      then have j: "fiso good X f1 f2 \<and> f_blk f2 = f_blk f1 \<and> f_pkt f2 = f_pkt f1 \<and> f_wbs f2 = f_wbs f1"
        using f_with_blk_slot[OF iso_ok[OF i(1)] i(3)[OF s(1)] _ s(2)] wf_fill_slot by blast
      then have i2: "fiso good X f f2" using iso_trans[OF i(1)] by blast
      have s2: "same_frame f f2" using i(4) j fill_slot_slots[OF s(2)] by (simp add: same_frame_def)
      have ip: "tagsIp (f_tags f2) = tagsIp (f_tags f)" using i2 by (simp add: iso_def)
      have "fiso good X f2 f' \<and> same_frame f2 f'"
        using rest
      proof
        assume "spm_store_loop cx d a w [] (k + n) l1 f2 = Inr (b, f')"
        then show ?thesis using iso_refl[OF iso_ok[OF i2]] by (auto simp: same_frame_def setSlot_def)
      next
        assume "spm_store_loop cx d a w is (k + n) l1 f2 = Inr (b, f')"
        from Cons.IH[OF iso_ok[OF i2] this] Cons.prems(3) show ?thesis
          using ip slot_addr_of_cong[OF ip] by simp
      qed
      then show ?thesis using iso_trans[OF i2] same_frame_trans[OF s2] by blast
    qed
  qed
qed

lemma spm_load_slots_iso:
  assumes "tags_ok good (f_tags f)" "spm_load_slots cx a w is ss l f = Inr (r, l', f')"
  shows "fiso good X f f' \<and> cmd (f_pkt f') = cmd (f_pkt f)"
  using assms
proof (induction "is" arbitrary: ss l f)
  case Nil
  then show ?case by (auto simp: iso_refl)
next
  case (Cons i "is")
  then obtain pkt where p: "setSlot (slot_addr_of cx a (w + i) f) (f_pkt f) = Inr pkt"
    by (auto simp: Let_def)
  obtain s l1 f1 where f1: "f_findSPMSlot (f\<lparr>f_pkt := pkt\<rparr>) = (s, l1, f1)" by (metis prod_cases3)
  have i: "fiso good X f f1" "cmd (f_pkt f1) = cmd (f_pkt f)" "cmd pkt = cmd (f_pkt f)"
    using f_findSPMSlot_iso[OF _ f1, of good X] Cons.prems(1) p by (auto simp: setSlot_def)
  show ?case
  proof (cases "f_tags f' = f_tags f1 \<and> cmd (f_pkt f') = cmd pkt")
    case True
    then show ?thesis using i by simp
  next
    case False
    with Cons.prems(2) p f1 obtain s' where "spm_load_slots cx a w is s' l1 f1 = Inr (r, l', f')"
      by (cases s) (auto simp: Let_def split: if_splits)
    from Cons.IH[OF iso_ok[OF i(1)] this] show ?thesis using iso_trans[OF i(1)] i(2) by auto
  qed
qed

lemma l2_load_access_iso:
  assumes "tags_ok good (f_tags f)" "l2_load_access cx l a w n f = Inr (b, f')"
  shows "fiso good X f f' \<and> cmd (f_pkt f') = cmd (f_pkt f) \<and> b"
proof -
  from assms(2) obtain base r l' f1 where "spm_load_slots cx base w [0..<n] [] l f = Inr (r, l', f1)"
      "f_tags f' = f_tags f1" "cmd (f_pkt f') = cmd (f_pkt f1)" "b"
    by (auto simp: l2_load_access_def Let_def setSlot_def split: option.splits)
  with spm_load_slots_iso[OF assms(1), of cx base w "[0..<n]" "[]" l r l' f1 X] show ?thesis by simp
qed

section \<open>The whole access\<close>

text \<open>The slots a request may change: the one a copy names, and those a store spans.\<close>

definition touched_slots :: "'s cx \<Rightarrow> packet \<Rightarrow> 's tags \<Rightarrow> nat set" where
  "touched_slots cx pkt t =
     (let ip = tagsIp t;
          base = (getAddr pkt div of_nat (blkSize (cfg cx))) * of_nat (blkSize (cfg cx));
          first_off = unat (getAddr pkt mod of_nat (blkSize (cfg cx)))
      in if \<not> is_l2_cache (cfg cx) \<or> is_l1_cache (cfg cx) then {}
         else if cmd pkt = CPTOSPMReq then set_option (slot_idx ip (getSlot pkt))
         else if cmd pkt = SPMStoreReq
         then (\<Union>i\<in>{0..<num_slots cx first_off (getSize pkt)}.
                 set_option (slot_idx ip (base OR push_bit (wayShift ip) (of_nat (extractWay ip base + i)))))
         else {})"

lemma l2_ldst_access_iso:
  assumes "tags_ok good (f_tags f)" "l2_ldst_access cx l f = Inr (b, f')"
    and "is_l2_cache (cfg cx)" "\<not> is_l1_cache (cfg cx)"
  shows "fiso good (touched_slots cx (f_pkt f) (f_tags f)) f f' \<and> cmd (f_pkt f') = cmd (f_pkt f) \<and>
    (\<not> b \<longrightarrow> same_frame f f')"
proof -
  from assms(2) obtain pkt where p: "setSlot (getAddr (f_pkt f)) ((f_pkt f)\<lparr>SPM_LDST_resp := True\<rparr>) = Inr pkt"
    by (auto simp: l2_ldst_access_def)
  then have e: "getSlot pkt = getAddr (f_pkt f)" "getSize pkt = getSize (f_pkt f)" "cmd pkt = cmd (f_pkt f)"
    by (auto simp: setSlot_def getSlot_def getSize_def)
  let ?f = "f\<lparr>f_pkt := pkt\<rparr>"
  let ?a = "getAddr (f_pkt f)"
  let ?base = "(?a div of_nat (blkSize (cfg cx))) * of_nat (blkSize (cfg cx))"
  let ?n = "num_slots cx (unat (?a mod of_nat (blkSize (cfg cx)))) (getSize (f_pkt f))"
  show ?thesis
  proof (cases "cmd (f_pkt f) = SPMStoreReq")
    case True
    then obtain d where w: "spm_store_loop cx d ?a (extractWay (tagsIp (f_tags f)) ?base) [0..<?n] 0 l ?f = Inr (b, f')"
      using assms(2) p e by (auto simp: l2_ldst_access_def Let_def)
    have "fiso good (touched_slots cx (f_pkt f) (f_tags f)) ?f f' \<and> same_frame ?f f'"
      by (rule spm_store_loop_iso[OF _ w])
        (use assms(1,3,4) True in \<open>auto simp: touched_slots_def Let_def slot_addr_of_def\<close>)
    then show ?thesis using e by (simp add: same_frame_def)
  next
    case False
    then have "l2_load_access cx l ?a (extractWay (tagsIp (f_tags f)) ?base) ?n ?f = Inr (b, f')"
      using assms(2) p e by (auto simp: l2_ldst_access_def Let_def)
    from l2_load_access_iso[OF _ this] assms(1) e show ?thesis by simp
  qed
qed

lemma access_spm_l2_iso:
  assumes "cx_ok good cx" "f_ok good f" "access_spm_l2 cx l f = Inr (b, f')"
    and "is_l2_cache (cfg cx)" "\<not> is_l1_cache (cfg cx)"
  shows "fiso good (touched_slots cx (f_pkt f) (f_tags f)) f f'"
proof -
  let ?X = "touched_slots cx (f_pkt f) (f_tags f)"
  from assms(3) obtain sl f1 where f1: "l2_copy_source cx l f = Inr (sl, f1)"
    by (auto simp: access_spm_l2_def)
  have i: "fiso good Y f f1" "f_blk f1 = f_blk f" "cmd (f_pkt f1) = cmd (f_pkt f)"
      "getSlot (f_pkt f1) = getSlot (f_pkt f)" for Y
    using l2_copy_source_iso[OF assms(1,2) f1] by auto
  have ok1: "f_ok good f1" by (rule f_ok_iso[OF assms(2) i(1,2)])
  have ip: "tagsIp (f_tags f1) = tagsIp (f_tags f)" using i(1)[of "{}"] by (simp add: iso_def)
  have "fiso good ?X f1 f'"
  proof (cases "cmd (f_pkt f) = CPTOSPMReq")
    case True
    then have w: "l2_copy_access cx sl f1 = Inr (b, f')" using assms(3) f1 i(3) by (simp add: access_spm_l2_def)
    show ?thesis
      by (rule l2_copy_access_iso[OF assms(1) iso_ok[OF i(1)] w])
        (use True i(4) ip assms(4,5) in \<open>simp add: touched_slots_def Let_def\<close>)
  next
    case False
    then have f1f: "f1 = f" using f1 by (auto simp: l2_copy_source_def)
    show ?thesis
    proof (cases "cmd (f_pkt f) = SPMWritebackReq")
      case True
      then obtain r l' f2 where w: "l2_writeback_access cx f1 = Inr (r, l', f2)"
          "case r of Some hit \<Rightarrow> f' = f2 | None \<Rightarrow> access_common cx l' f2 = Inr (b, f')"
        using assms(3) f1 f1f by (auto simp: access_spm_l2_def split: option.splits)
      have i2: "fiso good Y f1 f2" "f_ok good f2" for Y using l2_writeback_access_iso[OF assms(1) ok1 w(1)] by auto
      then show ?thesis
        using w(2) access_common_iso[OF assms(1) i2(2)] iso_trans[OF i2(1)] by (cases r) auto
    next
      case F2: False
      then have "l2_ldst_access cx l f1 = Inr (b, f')"
        using assms(3) f1 f1f False by (auto simp: access_spm_l2_def)
      from l2_ldst_access_iso[OF iso_ok[OF i(1)] this assms(4,5)] f1f show ?thesis by simp
    qed
  qed
  then show ?thesis using iso_trans[OF i(1)] by blast
qed

lemma base_access_iso:
  assumes "cx_ok good cx" "tags_ok good (c_tags c)" "base_access cx pkt c = Inr (b, f)"
  shows "iso good (touched_slots cx pkt (c_tags c)) (c_tags c) (f_tags f)"
proof -
  let ?X = "touched_slots cx pkt (c_tags c)"
  from assms(3) obtain blk l t where t: "accessBlock (ops cx) (renv cx) pkt (c_tags c) = Inr (blk, l, t)"
    by (auto simp: base_access_def)
  define f0 where "f0 = \<lparr>f_pkt = pkt, f_blk = blk, f_lat = 0, f_wbs = [], f_cache = c\<lparr>c_tags := t\<rparr>\<rparr>"
  have i: "iso good Y (c_tags c) t" "\<And>j. blk = Some j \<Longrightarrow> plain_idx t j" for Y
    using accessBlock_iso[OF assms(1,2) t] by auto
  have ok: "f_ok good f0" using i iso_ok[OF i(1)] by (auto simp: f0_def f_ok_def)
  have ip: "tagsIp t = tagsIp (c_tags c)" using i(1)[of "{}"] by (simp add: iso_def)
  from assms(3) t have w: "if isSPMcmd (cmd pkt) \<and> is_l1_cache (cfg cx) then l1_spm_access cx l f0 = Inr (b, f)
      else if isSPMcmd (cmd pkt) \<and> is_l2_cache (cfg cx) then access_spm_l2 cx l f0 = Inr (b, f)
      else access_common cx l f0 = Inr (b, f)"
    by (auto simp: base_access_def Let_def f0_def)
  have X: "touched_slots cx (f_pkt f0) (f_tags f0) = ?X" using ip by (simp add: f0_def touched_slots_def)
  have "iso good ?X (f_tags f0) (f_tags f)"
    using w l1_spm_access_tags[of cx l f0 b f] access_spm_l2_iso[OF assms(1) ok, of l b f]
      access_common_iso[OF assms(1) ok] iso_refl[OF iso_ok[OF i(1)]] X
    by (auto split: if_splits simp: f0_def)
  then show ?thesis using iso_trans[OF i(1)] by (simp add: f0_def)
qed

lemma access_iso:
  assumes "cx_ok good cx" "tags_ok good (c_tags c)" "access cx pkt c = Inr (b, f)"
  shows "iso good (touched_slots cx pkt (c_tags c)) (c_tags c) (f_tags f)"
proof (cases "isUncacheable (req pkt)")
  case True
  show ?thesis
  proof (cases "f_tags f = c_tags c")
    case T: True
    then show ?thesis using iso_refl[OF assms(2)] by simp
  next
    case False
    then obtain i wb c1 where w: "findBlock (getAddr pkt) (isSecure pkt) (c_tags c) = Some i"
        "evictBlock cx (InTags i) c = Inr (wb, c1)" "f_cache f = c1"
      using assms(3) True by (auto simp: access_def split: option.splits if_splits)
    have "plain_idx (c_tags c) i" using findBlock_plain[OF assms(2) w(1)] by simp
    then show ?thesis using evictBlock_iso[OF assms(1,2) _ w(2)] w(3) by simp
  qed
next
  case False
  then show ?thesis using base_access_iso[OF assms(1,2)] assms(3) by (simp add: access_def)
qed

section \<open>What a miss leaves behind\<close>

text \<open>
  The command of a request is never changed by the access, and a request that missed has the
  block it found, if any, outside the scratchpad and still names its slot.
\<close>

lemma satisfy_blk_cmd: "satisfy_blk cx off p b = Inr (p', b') \<Longrightarrow> cmd p' = cmd p"
  by (auto simp: satisfy_blk_def Let_def atomic_update_def cmpAndSwap_def satisfy_write_def satisfy_read_def
      satisfy_upgrade_def setData_def setDataFromBlock_def setCacheResponding_def checkWrite_def
      split: if_splits option.splits prod.splits)

lemma respond_to_cache_cmd: "respond_to_cache g dr pd p b = Inr (p', b') \<Longrightarrow> cmd p' = cmd p"
  by (auto simp: respond_to_cache_def satisfy_upgrade_def setCacheResponding_def setHasSharers_def split: if_splits)

lemma satisfyRequest_cmd:
  assumes "satisfyRequest cx dr pd p bp c = Inr (p', c')"
  shows "cmd p' = cmd p"
proof -
  from assms obtain p1 c1 where b: "base_satisfyRequest cx p bp c = Inr (p1, c1)"
    and r: "p' = p1 \<or> (\<exists>b. respond_to_cache (cfg cx) dr pd p1 (get_blk c1 bp) = Inr (p', b))"
    by (auto simp: satisfyRequest_def split: if_splits)
  have "cmd p1 = cmd p"
    using b by (auto simp: base_satisfyRequest_def split: if_splits dest: satisfy_blk_cmd)
  with r show ?thesis by (auto dest: respond_to_cache_cmd)
qed

lemma access_hit_cmd: "access_hit cx l i f = Inr (b, f') \<Longrightarrow> cmd (f_pkt f') = cmd (f_pkt f) \<and> b"
  by (auto simp: access_hit_def dest: satisfyRequest_cmd)

lemma access_miss_cmd:
  "access_miss cx l f = Inr (b, f') \<Longrightarrow> cmd (f_pkt f') = cmd (f_pkt f) \<and> getSlot (f_pkt f') = getSlot (f_pkt f)"
  by (auto simp: access_miss_def Let_def getSlot_def split: if_splits)

lemma access_common_cmd:
  assumes "cx_ok good cx" "f_ok good f" "access_common cx l f = Inr (b, f')"
  shows "cmd (f_pkt f') = cmd (f_pkt f) \<and> (\<not> b \<longrightarrow> getSlot (f_pkt f') = getSlot (f_pkt f))"
proof (cases "isCacheMaintenance (req (f_pkt f))")
  case False
  then obtain sunk f0 where f0: "access_buffered_eviction cx l f = Inr (sunk, f0)"
    using assms(3) by (auto simp: access_common_def)
  define f1 where "f1 = (if isWrite (cmd (f_pkt f0)) then tag_only cx l f0 else f0)"
  have s1: "f_tags f1 = f_tags f" "f_blk f1 = f_blk f" "f_pkt f1 = f_pkt f" "f_pkt f0 = f_pkt f"
    using buffered_eviction_iso[OF f0] by (auto simp: f1_def)
  then have ok1: "f_ok good f1" using assms(2) by (simp add: f_ok_def)
  have "f' = f0 \<or> access_dispatch cx l f1 = Inr (b, f')"
    using assms(3) False f0 unfolding f1_def by (auto simp: access_common_def split: if_splits)
  then consider "f_pkt f' = f_pkt f" | "access_writeback cx l f1 = Inr (b, f')"
    | "access_writeclean cx l f1 = Inr (b, f')" | i where "access_hit cx l i f1 = Inr (b, f')"
    | "access_miss cx l f1 = Inr (b, f')"
    using s1 by (auto simp: access_dispatch_def Let_def split: if_splits option.splits)
  then show ?thesis
    using access_writeback_iso[OF assms(1) ok1] access_writeclean_iso[OF assms(1) ok1] s1(3)
    by cases (auto simp: getSlot_def dest: access_hit_cmd access_miss_cmd)
qed (use assms(3) in \<open>auto simp: access_common_def\<close>)

lemma l2_writeback_cmd: "l2_writeback_access cx f = Inr (r, l, f') \<Longrightarrow> cmd (f_pkt f') = cmd (f_pkt f)"
proof -
  assume w: "l2_writeback_access cx f = Inr (r, l, f')"
  let ?f = "f\<lparr>f_pkt := (f_pkt f)\<lparr>SPMresp := True\<rparr>\<rparr>"
  obtain sl l0 f0 where f0: "f_findSPMSlot ?f = (sl, l0, f0)" by (metis prod_cases3)
  then have p0: "f_pkt f0 = f_pkt ?f" by (auto simp: f_findSPMSlot_def f_with_tags_def split: prod.splits)
  from w f0 obtain d d' where w1: "l2_writeback_line cx d l0 (f0\<lparr>f_pkt := (f_pkt f0)\<lparr>pdata := d'\<rparr>\<rparr>) = Inr (r, l, f')"
    by (cases sl) (auto simp: l2_writeback_access_def Let_def)
  have "f_pkt f' = (f_pkt f0)\<lparr>pdata := d'\<rparr>"
    using w1 by (auto simp: l2_writeback_line_def l2_writeback_hit_def l2_writeback_alloc_def f_with_blk_def Let_def
        split: option.splits if_splits)
  then show ?thesis using p0 by simp
qed

lemma vacate_slot_pkt: "vacate_slot cx s f = Inr (ok, f') \<Longrightarrow> f_pkt f' = f_pkt f \<and> f_blk f' = f_blk f"
  by (auto simp: vacate_slot_def f_with_blk_def Let_def split: if_splits)

lemma l2_copy_access_miss:
  assumes "cx_ok good cx" "f_ok good f" "l2_copy_access cx sl f = Inr (False, f')"
    and "f_blk f \<noteq> None \<Longrightarrow> L1find (f_pkt f) \<or> L2find (f_pkt f)"
  shows "f_ok good f' \<and> cmd (f_pkt f') = cmd (f_pkt f) \<and> getSlot (f_pkt f') = getSlot (f_pkt f)"
proof -
  let ?f = "f\<lparr>f_pkt := (f_pkt f)\<lparr>SPMresp := True\<rparr>\<rparr>"
  obtain r l f1 where f1: "f_findSPMSlot ?f = (r, l, f1)" by (metis prod_cases3)
  have i: "fiso good {} f f1" "f_blk f1 = f_blk f" "f_pkt f1 = f_pkt ?f"
      "\<And>s. r = Some s \<Longrightarrow> s < length (tagBlks (f_tags f1))"
    using f_findSPMSlot_iso[OF _ f1, of good "{}"] assms(2) by (auto simp: f_ok_def)
  have ok1: "f_ok good f1" by (rule f_ok_iso[OF assms(2) i(1,2)])
  then have t1: "tags_ok good (f_tags f1)" by (simp add: f_ok_def)
  from assms(3) f1 obtain s where s: "r = Some s"
    and w: "if L1find (f_pkt f1) \<or> L2find (f_pkt f1) then l2_copy_found cx sl s f1 = Inr (False, f')
       else l2_copy_missing cx sl s f1 = Inr (False, f')"
    by (cases r) (auto simp: l2_copy_access_def split: if_splits)
  have p: "cmd (f_pkt f1) = cmd (f_pkt f)" "getSlot (f_pkt f1) = getSlot (f_pkt f)"
      "L1find (f_pkt f1) = L1find (f_pkt f)" "L2find (f_pkt f1) = L2find (f_pkt f)"
    using i(3) by (auto simp: getSlot_def)
  show ?thesis
  proof (cases "L1find (f_pkt f1) \<or> L2find (f_pkt f1)")
    case True
    then have w: "l2_copy_found cx sl s f1 = Inr (False, f')" using w by simp
    then have n: "\<not> blk_isSet ScratchpadBit (blk_at (f_tags f1) s)" and v: "vacate_slot cx s f1 = Inr (False, f')"
      by (auto simp: l2_copy_found_def Let_def split: if_splits)
    have ps: "plain_idx (f_tags f1) s" using n i(4)[OF s] by (simp add: plain_idx_def slot_set_def)
    from vacate_slot_iso[OF assms(1) t1 ps v, of "{}"] have "fiso good {} f1 f'" "f_blk f' = f_blk f1" "f_pkt f' = f_pkt f1"
      by auto
    then show ?thesis using f_ok_iso[OF ok1] p by auto
  next
    case False
    then have w: "l2_copy_missing cx sl s f1 = Inr (False, f')" using w by simp
    from False assms(4) i(2) p have "f_blk f1 = None" by (cases "f_blk f") auto
    then have "f_blk f' = None" "cmd (f_pkt f') = cmd (f_pkt f1)" "getSlot (f_pkt f') = getSlot (f_pkt f1)"
      using w by (auto simp: l2_copy_missing_def f_with_blk_def getSlot_def split: if_splits dest: vacate_slot_pkt)
    moreover have "fiso good {s} f1 f'"
      by (rule l2_copy_missing_iso[OF assms(1) t1 i(4)[OF s] _ w]) simp
    ultimately show ?thesis using p iso_ok by (auto simp: f_ok_def)
  qed
qed

lemma l2_copy_source_finds:
  assumes "l2_copy_source cx l f = Inr (sl, f')" "cmd (f_pkt f) = CPTOSPMReq" "f_blk f' \<noteq> None"
    and "\<And>i. f_blk f = Some i \<Longrightarrow> blkValid (blk_at (f_tags f) i)"
  shows "L1find (f_pkt f') \<or> L2find (f_pkt f')"
proof (cases "f_blk f")
  case None
  then show ?thesis using assms(1,3) by (auto simp: l2_copy_source_def f_with_tags_def split: if_splits)
next
  case (Some i)
  then have "valid_blk f = Some (blk_at (f_tags f) i)" using assms(4) by (simp add: valid_blk_def)
  with Some assms(1,2) show ?thesis
    by (auto simp: l2_copy_source_def copy_from_line_def f_with_tags_def Let_def split: if_splits)
qed

lemma l1_spm_access_hits: "l1_spm_access cx l f = Inr (b, f') \<Longrightarrow> b"
  by (auto simp: l1_spm_access_def)

lemma l2_copy_access_cmd: "l2_copy_access cx sl f = Inr (b, f') \<Longrightarrow> cmd (f_pkt f') = cmd (f_pkt f)"
proof -
  assume w: "l2_copy_access cx sl f = Inr (b, f')"
  let ?f = "f\<lparr>f_pkt := (f_pkt f)\<lparr>SPMresp := True\<rparr>\<rparr>"
  obtain r l f1 where f1: "f_findSPMSlot ?f = (r, l, f1)" by (metis prod_cases3)
  have p1: "cmd (f_pkt f1) = cmd (f_pkt f)"
    using f1 by (auto simp: f_findSPMSlot_def f_with_tags_def split: prod.splits)
  from w f1 obtain s where "l2_copy_found cx sl s f1 = Inr (b, f') \<or> l2_copy_missing cx sl s f1 = Inr (b, f')"
    by (cases r) (auto simp: l2_copy_access_def split: if_splits)
  then show ?thesis
    using p1 by (auto simp: l2_copy_found_def l2_copy_missing_def f_with_blk_def Let_def
        split: if_splits dest: vacate_slot_pkt)
qed

lemma l1_spm_access_cmd:
  assumes "l1_spm_access cx l f = Inr (b, f')"
  shows "cmd (f_pkt f') = cmd (f_pkt f)"
proof -
  from assms obtain p where p: "l1_prepare cx (f_pkt f) = Inr p" by (auto simp: l1_spm_access_def)
  then have "cmd p = cmd (f_pkt f)"
    by (auto simp: l1_prepare_def setSlot_def setSize_def deleteData_def Let_def dest!: allocate_cmd)
  with p assms show ?thesis
    by (auto simp: l1_spm_access_def copy_from_line_def Let_def split: option.splits)
qed

lemma access_spm_l2_frame:
  assumes "cx_ok good cx" "f_ok good f" "access_spm_l2 cx l f = Inr (b, f')"
    and "is_l2_cache (cfg cx)" "\<not> is_l1_cache (cfg cx)"
    and "\<And>i. f_blk f = Some i \<Longrightarrow> blkValid (blk_at (f_tags f) i)"
  shows "cmd (f_pkt f') = cmd (f_pkt f) \<and> (\<not> b \<longrightarrow> f_ok good f') \<and>
    (\<not> b \<longrightarrow> cmd (f_pkt f) = CPTOSPMReq \<longrightarrow> getSlot (f_pkt f') = getSlot (f_pkt f))"
proof -
  from assms(3) obtain sl f1 where f1: "l2_copy_source cx l f = Inr (sl, f1)" by (auto simp: access_spm_l2_def)
  have i: "fiso good {} f f1" "f_blk f1 = f_blk f" "cmd (f_pkt f1) = cmd (f_pkt f)"
      "getSlot (f_pkt f1) = getSlot (f_pkt f)"
    using l2_copy_source_iso[OF assms(1,2) f1] by auto
  have ok1: "f_ok good f1" by (rule f_ok_iso[OF assms(2) i(1,2)])
  show ?thesis
  proof (cases "cmd (f_pkt f) = CPTOSPMReq")
    case True
    then have w: "l2_copy_access cx sl f1 = Inr (b, f')" using assms(3) f1 i(3) by (simp add: access_spm_l2_def)
    have fd: "f_blk f1 \<noteq> None \<Longrightarrow> L1find (f_pkt f1) \<or> L2find (f_pkt f1)"
      by (rule l2_copy_source_finds[OF f1 True]) (use assms(6) in auto)
    show ?thesis
      using l2_copy_access_cmd[OF w] l2_copy_access_miss[OF assms(1) ok1 _ fd] w i by (cases b) auto
  next
    case False
    then have f1f: "f1 = f" using f1 by (auto simp: l2_copy_source_def)
    show ?thesis
    proof (cases "cmd (f_pkt f) = SPMWritebackReq")
      case True
      then obtain r l' f2 where w: "l2_writeback_access cx f = Inr (r, l', f2)"
          "case r of Some hit \<Rightarrow> f' = f2 | None \<Rightarrow> access_common cx l' f2 = Inr (b, f')"
        using assms(3) f1 f1f by (auto simp: access_spm_l2_def split: option.splits)
      have i2: "f_ok good f2" "cmd (f_pkt f2) = cmd (f_pkt f)"
        using l2_writeback_access_iso[OF assms(1,2) w(1)] l2_writeback_cmd[OF w(1)] by auto
      then show ?thesis
        using w(2) True access_common_iso[OF assms(1) i2(1)] access_common_cmd[OF assms(1) i2(1)]
        by (cases r) auto
    next
      case F2: False
      then have w: "l2_ldst_access cx l f = Inr (b, f')"
        using assms(3) f1 f1f False by (auto simp: access_spm_l2_def)
      have "tags_ok good (f_tags f)" using assms(2) by (simp add: f_ok_def)
      from l2_ldst_access_iso[OF this w assms(4,5)] show ?thesis
        using False f_ok_same[OF assms(2)] by blast
    qed
  qed
qed

lemma access_frame:
  assumes "cx_ok good cx" "tags_ok good (c_tags c)" "access cx pkt c = Inr (b, f)"
  shows "cmd (f_pkt f) = cmd pkt" and "\<not> b \<or> \<not> isSPMcmd (cmd pkt) \<Longrightarrow> f_ok good f"
    and "\<not> b \<Longrightarrow> cmd pkt = CPTOSPMReq \<Longrightarrow> getSlot (f_pkt f) = getSlot pkt"
proof -
  have "cmd (f_pkt f) = cmd pkt \<and> (\<not> b \<or> \<not> isSPMcmd (cmd pkt) \<longrightarrow> f_ok good f) \<and>
    (\<not> b \<longrightarrow> cmd pkt = CPTOSPMReq \<longrightarrow> getSlot (f_pkt f) = getSlot pkt)"
  proof (cases "isUncacheable (req pkt)")
    case True
    then have "f_pkt f = pkt" "f_blk f = None"
      using assms(3) by (auto simp: access_def split: option.splits if_splits)
    then show ?thesis using iso_ok[OF access_iso[OF assms]] by (simp add: f_ok_def)
  next
    case False
    then have a: "base_access cx pkt c = Inr (b, f)" using assms(3) by (simp add: access_def)
    then obtain blk l t where t: "accessBlock (ops cx) (renv cx) pkt (c_tags c) = Inr (blk, l, t)"
      by (auto simp: base_access_def)
    define f0 where "f0 = \<lparr>f_pkt = pkt, f_blk = blk, f_lat = 0, f_wbs = [], f_cache = c\<lparr>c_tags := t\<rparr>\<rparr>"
    have i: "iso good {} (c_tags c) t" "\<And>j. blk = Some j \<Longrightarrow> plain_idx t j \<and> blkValid (blk_at t j)"
      using accessBlock_iso[OF assms(1,2) t] by auto
    have ok: "f_ok good f0" using i iso_ok[OF i(1)] by (auto simp: f0_def f_ok_def)
    have v: "\<And>j. f_blk f0 = Some j \<Longrightarrow> blkValid (blk_at (f_tags f0) j)" using i(2) by (simp add: f0_def)
    have p: "f_pkt f0 = pkt" by (simp add: f0_def)
    consider (l1) "isSPMcmd (cmd pkt)" "l1_spm_access cx l f0 = Inr (b, f)"
      | (l2) "isSPMcmd (cmd pkt)" "is_l2_cache (cfg cx)" "\<not> is_l1_cache (cfg cx)" "access_spm_l2 cx l f0 = Inr (b, f)"
      | (common) "access_common cx l f0 = Inr (b, f)"
      using a t by (auto simp: base_access_def Let_def f0_def split: if_splits)
    then show ?thesis
    proof cases
      case l1
      then show ?thesis using l1_spm_access_hits l1_spm_access_cmd p by fastforce
    next
      case l2
      show ?thesis using access_spm_l2_frame[OF assms(1) ok l2(4,2,3) v] l2(1) p by auto
    next
      case common
      show ?thesis
        using access_common_iso[OF assms(1) ok common] access_common_cmd[OF assms(1) ok common] p by auto
    qed
  qed
  then show "cmd (f_pkt f) = cmd pkt" "\<not> b \<or> \<not> isSPMcmd (cmd pkt) \<Longrightarrow> f_ok good f"
    "\<not> b \<Longrightarrow> cmd pkt = CPTOSPMReq \<Longrightarrow> getSlot (f_pkt f) = getSlot pkt" by auto
qed

end
