(* ===== verification/Cache_Queues.thy ===== *)
theory Cache_Queues
  imports Cache_Request
begin

text \<open>
  Invariants of the queues and of the flow control of a cache, and that every operation of
  Cache_State, Cache_Access, Cache_Snoop, Cache_Fill and Cache_Request that touches them keeps
  them: both queues are sound, the blocked flags say exactly which resource has run out, the
  port is blocked exactly while one has, a retry is scheduled exactly when one is owed and can
  be taken, and the scratchpad copies that wait in the miss registers name known slots.
\<close>

section \<open>Scratchpad copies waiting in a register\<close>

definition copy_slots :: "mshr_target list \<Rightarrow> addr set" where
  "copy_slots ts = (\<lambda>t. getSlot (t_pkt t)) `
     {t \<in> set ts. t_source t = FromCPU \<and> cmd (t_pkt t) = CPTOSPMReq}"

definition mshr_slots :: "mshr \<Rightarrow> addr set" where
  "mshr_slots m = copy_slots (waiting m)"

definition named_slot :: "packet \<Rightarrow> addr set" where
  "named_slot p = (if cmd p = CPTOSPMReq then {getSlot p} else {})"

lemma copy_slots_simps [simp]:
  "copy_slots [] = {}" "copy_slots (xs @ ys) = copy_slots xs \<union> copy_slots ys"
  "copy_slots (t # ts) = (if t_source t = FromCPU then named_slot (t_pkt t) else {}) \<union> copy_slots ts"
  by (auto simp: copy_slots_def named_slot_def)

lemma copy_slots_mono: "set xs \<subseteq> set ys \<Longrightarrow> copy_slots xs \<subseteq> copy_slots ys"
  by (auto simp: copy_slots_def)

lemma mshr_slots_eq: "mshr_slots m = copy_slots (targets_of m) \<union> copy_slots (deferred_of m)"
  by (simp add: mshr_slots_def waiting_def)

lemma copy_slots_core:
  assumes "map (\<lambda>t. t\<lparr>t_markedPending := False\<rparr>) xs = map (\<lambda>t. t\<lparr>t_markedPending := False\<rparr>) ys"
  shows "copy_slots xs = copy_slots ys"
proof -
  have "copy_slots (map (\<lambda>t. t\<lparr>t_markedPending := False\<rparr>) zs) = copy_slots zs" for zs
    by (induction zs) auto
  with assms show ?thesis by metis
qed

lemma tl_add_slots:
  "tl_add tk p r k s mark a up l = Inr (up', l') \<Longrightarrow>
   copy_slots (tl_targets l') = copy_slots (tl_targets l) \<union> (if s = FromCPU then named_slot p else {})"
  by (erule tl_add_result) auto

lemma replaceUpgrade_slot:
  assumes "replaceUpgrade fr p = Inr p'"
  shows "named_slot p' \<subseteq> named_slot p"
proof -
  define c where "c = (if cmd p = UpgradeReq then ReadExReq else if cmd p = SCUpgradeReq then SCUpgradeFailReq
      else if cmd p = StoreCondReq then StoreCondFailReq else cmd p)"
  have "p' = p\<lparr>cmd := c\<rparr> \<or> allocate fr (p\<lparr>cmd := c\<rparr>) = Inr p'"
    using assms unfolding replaceUpgrade_def Let_def c_def[symmetric] by (auto split: if_splits)
  then have "cmd p' = c" "getSlot p' = getSlot p" by (auto simp: allocate_def getSlot_def split: if_splits)
  then show ?thesis by (auto simp: named_slot_def c_def)
qed

lemma replaceUpgrades_slots:
  assumes "replaceUpgrades fr l = Inr l'"
  shows "copy_slots (tl_targets l') \<subseteq> copy_slots (tl_targets l)"
proof -
  let ?f = "\<lambda>t. bindR (replaceUpgrade fr (t_pkt t)) (\<lambda>p. Inr (t\<lparr>t_pkt := p\<rparr>))"
  have c: "copy_slots ts' \<subseteq> copy_slots ts" if "mapR ?f ts = Inr ts'" for ts ts'
    using that
  proof (induction ts arbitrary: ts')
    case (Cons t ts)
    then obtain p ts1 where p: "replaceUpgrade fr (t_pkt t) = Inr p" "mapR ?f ts = Inr ts1"
      "ts' = t\<lparr>t_pkt := p\<rparr> # ts1"
      by auto
    from Cons.IH[OF p(2)] replaceUpgrade_slot[OF p(1)] show ?case by (auto simp: p(3))
  qed simp
  show ?thesis using assms by (auto simp: replaceUpgrades_def split: if_splits dest!: c)
qed

lemma snoop_replace_slots:
  "snoop_replace_upgrades fr p l = Inr l' \<Longrightarrow> copy_slots (tl_targets l') \<subseteq> copy_slots (tl_targets l)"
  using replaceUpgrades_slots by (fastforce simp: snoop_replace_upgrades_def split: if_splits)

text \<open>What each operation does to the slots a register waits for.\<close>

lemma MSHR_allocate_slots:
  assumes "mshr_getNumTargets m = 0" "MSHR_allocate tk a n p t k alloc up m = Inr (up', m')"
  shows "mshr_slots m' \<subseteq> named_slot p"
proof -
  from assms(2) obtain l m1 where l: "tl_add tk p t k (if cmd p = HardPFReq then FromPrefetcher else FromCPU)
      True alloc up (tl_init a n (m_targets m)) = Inr (up', l)"
    and m1: "m' = m1\<lparr>m_targets := l\<rparr>" "deferred_of m1 = deferred_of m"
    unfolding MSHR_allocate_def Let_def by auto
  have "targets_of m = []" "deferred_of m = []" using assms(1) by (auto simp: mshr_getNumTargets_def)
  with tl_add_slots[OF l] m1 show ?thesis by (auto simp: mshr_slots_eq split: if_splits)
qed

lemma allocateTarget_slots:
  assumes "allocateTarget fr tk p r k a up m = Inr (up', m')"
  shows "mshr_slots m' \<subseteq> mshr_slots m \<union> named_slot p"
  using assms
proof (cases rule: allocateTarget_cases)
  case (deferred p1 l)
  then have "named_slot p1 \<subseteq> named_slot p" using replaceUpgrade_slot[of fr p p1] by (auto split: if_splits)
  with tl_add_slots[OF deferred(3)] deferred(4) show ?thesis by (auto simp: mshr_slots_eq)
next
  case (joined l)
  with tl_add_slots[OF joined(4)] show ?thesis by (auto simp: mshr_slots_eq)
qed

lemma mshr_handleSnoop_slots:
  assumes "mshr_handleSnoop fr tk p k up m = Inr (w, p', up', m')"
  shows "mshr_slots m' \<subseteq> mshr_slots m"
  using assms
proof (cases rule: mshr_handleSnoop_cases)
  case (before l d)
  with snoop_replace_slots[OF before(2)] snoop_replace_slots[OF before(3)] show ?thesis
    by (auto simp: mshr_slots_eq)
next
  case (gone d t)
  with snoop_replace_slots[OF gone(3)] show ?thesis by (auto simp: mshr_slots_eq)
next
  case (after d t p1 m2)
  have "copy_slots (targets_of m2) = copy_slots (targets_of m) \<and> m_deferred m2 = d"
  proof (cases "pendingModified m \<or> isInvalidate (cmd p)")
    case True
    with after(6) have s: "snoop_save fr tk w p k up (m\<lparr>m_deferred := d\<rparr>) = Inr (p1, up', m2)" by simp
    show ?thesis by (rule snoop_save_result[OF s]) (auto dest: tl_add_slots)
  next
    case False
    then show ?thesis using after(6) by auto
  qed
  with after(7) snoop_replace_slots[OF after(3)] show ?thesis by (auto simp: mshr_slots_eq)
qed

lemma split_at_locked_set: "split_at_locked ts = (a, b) \<Longrightarrow> set a \<subseteq> set ts \<and> set b \<subseteq> set ts"
  by (induction ts arbitrary: a b) (auto split: if_splits prod.splits)

lemma extract_slots:
  assumes "extractServiceableTargets p m = Inr (r, m')"
  shows "copy_slots (tl_targets r) \<subseteq> mshr_slots m" and "mshr_slots m' \<subseteq> mshr_slots m"
proof -
  have "set (tl_targets r) \<subseteq> set (targets_of m) \<and> set (targets_of m') \<subseteq> set (targets_of m) \<and> m_deferred m' = m_deferred m"
    using assms split_at_locked_set[of "targets_of m"]
    by (auto simp: extractServiceableTargets_def Let_def split: if_splits list.splits prod.splits)
  then show "copy_slots (tl_targets r) \<subseteq> mshr_slots m" "mshr_slots m' \<subseteq> mshr_slots m"
    using copy_slots_mono[of "tl_targets r" "targets_of m"] copy_slots_mono[of "targets_of m'" "targets_of m"]
    by (auto simp: mshr_slots_eq)
qed

lemma mshr_popTarget_slots: "mshr_slots (mshr_popTarget m) \<subseteq> mshr_slots m"
  using copy_slots_mono[of "tl (targets_of m)" "targets_of m"] list.set_sel(2)[of "targets_of m"]
  by (cases "targets_of m") (auto simp: mshr_slots_eq mshr_popTarget_def)

lemma promoteIf_slots: "promoteIf P up m = Inr (up', m') \<Longrightarrow> mshr_slots m' = mshr_slots m"
proof -
  assume "promoteIf P up m = Inr (up', m')"
  then obtain moved stay moved' where p: "spanR P (deferred_of m) = Inr (moved, stay)"
      "clear_targets_pending moved up = Inr (up', moved')"
      "targets_of m' = targets_of m @ moved'" "deferred_of m' = stay"
    by (auto simp: promoteIf_def)
  have "copy_slots moved' = copy_slots moved" by (rule copy_slots_core[OF clear_targets_pending_map[OF p(2)]])
  then show ?thesis using spanR_append[OF p(1)] by (simp add: mshr_slots_eq p(3,4) Un_assoc)
qed

lemma promote_slots:
  "promoteReadable up m = Inr (up', m') \<Longrightarrow> mshr_slots m' = mshr_slots m"
  "promoteWritable up m = Inr (up', m') \<Longrightarrow> mshr_slots m' = mshr_slots m"
  "mshr_wf m \<Longrightarrow> promoteDeferredTargets tk m = Inr (b, m') \<Longrightarrow> mshr_slots m' = mshr_slots m"
proof -
  show "promoteReadable up m = Inr (up', m') \<Longrightarrow> mshr_slots m' = mshr_slots m"
    by (auto simp: promoteReadable_def dest: promoteIf_slots split: if_splits)
  show "promoteWritable up m = Inr (up', m') \<Longrightarrow> mshr_slots m' = mshr_slots m"
    by (auto simp: promoteWritable_def mshr_slots_eq dest!: promoteIf_slots split: if_splits list.splits)
  show "mshr_wf m \<Longrightarrow> promoteDeferredTargets tk m = Inr (b, m') \<Longrightarrow> mshr_slots m' = mshr_slots m"
    using promoteDeferredTargets_waiting(1) by (simp add: mshr_slots_def)
qed

lemma MSHR_markInService_slots: "MSHR_markInService pm up m = Inr (up', m') \<Longrightarrow> mshr_slots m' = mshr_slots m"
  by (erule MSHR_markInService_result) (auto simp: mshr_slots_eq dest: copy_slots_core)

lemma updateLocked_slots: "updateLockedRMWReadTarget p m = Inr m' \<Longrightarrow> mshr_slots m' \<subseteq> mshr_slots m"
  by (auto simp: updateLockedRMWReadTarget_def mshr_slots_eq named_slot_def Packet_new_def Let_def
      split: list.splits if_splits)

section \<open>The miss registers of a cache\<close>

definition queue_slots :: "mshr queue \<Rightarrow> addr set" where
  "queue_slots q = (\<Union>i \<in> {..<numEntries q}. mshr_slots (entry_at q i))"

lemma queue_slots_upd: "queue_slots (upd_entry i m q) \<subseteq> queue_slots q \<union> mshr_slots m"
  by (auto simp: queue_slots_def split: if_splits)

lemma queue_slots_scalar [simp]:
  "queue_slots (q\<lparr>readyList := l\<rparr>) = queue_slots q" "queue_slots (q\<lparr>numInService := n\<rparr>) = queue_slots q"
  by (simp_all add: queue_slots_def)

lemma queue_slots_entry: "i < numEntries q \<Longrightarrow> mshr_slots (entry_at q i) \<subseteq> queue_slots q"
  by (auto simp: queue_slots_def)

definition mq_ok :: "addr set \<Rightarrow> mshr queue \<Rightarrow> bool" where
  "mq_ok A q \<longleftrightarrow> mq_inv q \<and> queue_slots q \<subseteq> A \<and> numReserve q < numEntries q"

lemma mq_ok_allocated: "mq_ok A q \<Longrightarrow> i \<in> set (allocatedList q) \<Longrightarrow>
    i < numEntries q \<and> mshr_wf (entry_at q i) \<and> mshr_slots (entry_at q i) \<subseteq> A"
proof -
  assume ok: "mq_ok A q" and i: "i \<in> set (allocatedList q)"
  have "i < numEntries q" using ok i by (auto simp: mq_ok_def queue_inv_def queue_wf_def)
  then show ?thesis using ok queue_slots_entry[of i q] by (auto simp: mq_ok_def queue_inv_def)
qed

lemma mq_ok_upd:
  assumes "mq_ok A q" "i \<in> set (allocatedList q)" "mshr_wf m" "e_inService m = e_inService (entry_at q i)"
    and "mshr_slots m \<subseteq> A"
  shows "mq_ok A (upd_entry i m q)"
  using assms mq_inv_upd queue_slots_upd[of i m q] by (auto simp: mq_ok_def)

lemma mq_ok_allocate:
  assumes ok: "mq_ok A q" and n: "0 < n" and run: "mq_allocate tk a n p t k al up q = Inr (i, up', q')"
    and p: "named_slot p \<subseteq> A"
  shows "mq_ok A q'" and "i \<in> set (readyList q')" and "i \<in> set (allocatedList q')"
proof -
  have inv: "mq_inv q" using ok by (simp add: mq_ok_def)
  obtain rest m where w: "freeList q = i # rest" "mshr_getNumTargets (entry_at q i) = 0"
    "MSHR_allocate tk a n p t k al up (entry_at q i) = Inr (up', m)"
    "queue_allocate mshr_getNumTargets (\<lambda>_. Inr m) q = Inr (i, q')"
    using mq_allocate_result[OF run] .
  have law: "\<forall>e e'. mshr_wf e \<longrightarrow> mshr_getNumTargets e = 0 \<longrightarrow> Inr m = (Inr e' :: mshr res) \<longrightarrow>
      mshr_wf e' \<and> \<not> e_inService e'"
    using MSHR_allocate_wf(1,2)[OF w(2) n w(3)] by simp
  note r = mq.allocate_inv[OF inv law w(4)]
  have at: "entry_at q' i = m" "\<And>j. j \<noteq> i \<Longrightarrow> entry_at q' j = entry_at q j" using r(4,6) by auto
  have "mshr_slots (entry_at q' j) \<subseteq> A" if "j < numEntries q'" for j
  proof (cases "j = i")
    case True
    then show ?thesis using MSHR_allocate_slots[OF w(2,3)] p at by auto
  next
    case False
    have "j < numEntries q" using that queue_allocate_size[OF w(4)] by simp
    then show ?thesis using ok at(2)[OF False] queue_slots_entry[of j q] by (auto simp: mq_ok_def)
  qed
  then show "mq_ok A q'" using mq_allocate_inv(1)[OF inv n run] ok same_size_ops(1)[OF run]
    by (auto simp: mq_ok_def queue_slots_def same_size_def)
  show "i \<in> set (readyList q')" "i \<in> set (allocatedList q')" using r(3,5) by auto
qed

lemma mq_ok_markInService:
  assumes ok: "mq_ok A q" and i: "i \<in> set (readyList q)" and run: "mq_markInService i pm up q = Inr (up', q')"
  shows "mq_ok A q'" and "allocated q' = allocated q" and "same_size q q'"
proof -
  from run obtain m where m: "MSHR_markInService pm up (entry_at q i) = Inr (up', m)"
    and q': "q' = (upd_entry i m q)\<lparr>readyList := remove1 i (readyList q), numInService := numInService q + 1\<rparr>"
    by (auto simp: mq_markInService_def)
  have inv: "mq_inv q" using ok by (simp add: mq_ok_def)
  have "i < numEntries q" using inv i by (auto simp: queue_inv_def queue_wf_def)
  then have "mshr_slots m \<subseteq> A"
    using MSHR_markInService_slots[OF m] queue_slots_entry[of i q] ok by (auto simp: mq_ok_def)
  then show "mq_ok A q'"
    using mq_markInService_inv(1)[OF inv i run] queue_slots_upd[of i m q] ok
    by (auto simp: mq_ok_def q')
  show "allocated q' = allocated q" by (simp add: q')
  show "same_size q q'" by (rule same_size_ops(2)[OF run])
qed

lemma mq_ok_markPending:
  assumes ok: "mq_ok A q" and i: "i \<in> set (allocatedList q)" and run: "mq_markPending i q = Inr q'"
  shows "mq_ok A q'" and "allocated q' = allocated q" and "same_size q q'"
proof -
  let ?q = "(upd_entry i ((entry_at q i)\<lparr>e_inService := False\<rparr>) q)\<lparr>numInService := numInService q - 1\<rparr>"
  from run have s: "e_inService (entry_at q i)" "addToReadyList i ?q = Inr q'" by (auto simp: mq_markPending_def)
  obtain l where "addToReadyList i ?q = Inr (?q\<lparr>readyList := l\<rparr>)" using addToReadyList_result[of i ?q] .
  then have q': "q' = ?q\<lparr>readyList := l\<rparr>" using s(2) by simp
  have inv: "mq_inv q" using ok by (simp add: mq_ok_def)
  obtain q2 where "mq_markPending i q = Inr q2" "mq_inv q2" using mq_markPending_inv[OF inv i s(1)] .
  then have "mq_inv q'" using run by simp
  moreover have "mshr_slots ((entry_at q i)\<lparr>e_inService := False\<rparr>) = mshr_slots (entry_at q i)"
    by (simp add: mshr_slots_eq)
  ultimately show "mq_ok A q'"
    using mq_ok_allocated[OF ok i] ok queue_slots_upd[of i "(entry_at q i)\<lparr>e_inService := False\<rparr>" q]
    by (auto simp: mq_ok_def q')
  show "allocated q' = allocated q" by (simp add: q')
  show "same_size q q'" by (rule same_size_ops(3)[OF run])
qed

lemma mq_ok_deallocate:
  assumes ok: "mq_ok A q" and i: "i \<in> set (allocatedList q)" and run: "mq_deallocate i q = Inr q'"
  shows "mq_ok A q'" and "allocated q' = allocated q - 1" and "same_size q q'"
proof -
  have inv: "mq_inv q" using ok by (simp add: mq_ok_def)
  note r = run[unfolded mq_deallocate_def]
  obtain e' where e': "MSHR_deallocate (entry_at q i) = Inr e'"
    "entry_at q' i = (if i < length (entries q) then e' else entry_at q i)"
    using queue_deallocate_fields(7)[OF r, of i] by auto
  have none: "mshr_slots (entry_at q' i) = {}"
    using MSHR_deallocate_idle[OF _ e'(1)] mq_ok_allocated[OF ok i] e'(2) inv
    by (auto simp: mshr_slots_eq mshr_getNumTargets_def queue_inv_def queue_wf_def)
  have "mshr_slots (entry_at q' j) \<subseteq> mshr_slots (entry_at q j)" for j
    using none mq.deallocate_inv(4)[OF inv i r, of j] by (cases "j = i") simp_all
  moreover have "numEntries q' = numEntries q" using queue_deallocate_fields(4)[OF r] by simp
  ultimately have "queue_slots q' \<subseteq> queue_slots q" unfolding queue_slots_def by auto
  then show "mq_ok A q'" using mq_deallocate_inv[OF inv i run] ok same_size_ops(4)[OF run]
    by (auto simp: mq_ok_def same_size_def)
  show "allocated q' = allocated q - 1" by (rule queue_deallocate_fields(3)[OF r])
  show "same_size q q'" by (rule same_size_ops(4)[OF run])
qed

lemma mq_ok_delay:
  assumes ok: "mq_ok A q" and i: "i \<in> set (readyList q)" and run: "mq_delay tk i d q = Inr q'"
  shows "mq_ok A q'" and "allocated q' = allocated q" and "same_size q q'"
proof -
  have q': "q' = upd_entry i ((entry_at q i)\<lparr>e_readyTime := tk + d\<rparr>) q" by (rule mq_delay_result(2)[OF run i])
  have al: "i \<in> set (allocatedList q)" using ok i by (auto simp: mq_ok_def queue_inv_def queue_wf_def)
  have w: "mshr_wf ((entry_at q i)\<lparr>e_readyTime := tk + d\<rparr>)"
      "mshr_slots ((entry_at q i)\<lparr>e_readyTime := tk + d\<rparr>) \<subseteq> A"
    using mq_ok_allocated[OF ok al] by (auto simp: mshr_wf_def mshr_getNumTargets_def mshr_slots_eq)
  show "mq_ok A q'" unfolding q' by (rule mq_ok_upd[OF ok al w(1) _ w(2)]) simp
  show "allocated q' = allocated q" "same_size q q'" by (simp_all add: q' same_size_def)
qed

lemma isFull_cong: "allocated q' = allocated q \<Longrightarrow> same_size q q' \<Longrightarrow> isFull q' = isFull q"
  by (simp add: isFull_def same_size_def)

lemma isFull_upd [simp]: "isFull (upd_entry i e q) = isFull q"
  by (simp add: isFull_def)

text \<open>Lookup returns allocated entries.\<close>

lemma findR_set: "findR P xs = Inr (Some x) \<Longrightarrow> x \<in> set xs"
  by (induction xs) (auto split: if_splits)

lemma mq_findMatch_allocated: "mq_findMatch a s q = Inr (Some i) \<Longrightarrow> i \<in> set (allocatedList q)"
  by (auto simp: mq_findMatch_def findMatch_def dest: findR_set)

lemma wq_findMatch_allocated: "wq_findMatch a s q = Inr (Some i) \<Longrightarrow> i \<in> set (allocatedList q)"
  by (auto simp: wq_findMatch_def findMatch_def dest: findR_set)

section \<open>Flow control\<close>

definition port_ok :: "bool \<Rightarrow> response_port \<Rightarrow> bool" where
  "port_ok blk p \<longleftrightarrow> portBlocked p = blk \<and> (retryScheduled p \<noteq> None \<longleftrightarrow> mustSendRetry p \<and> \<not> portBlocked p)"

definition flag_word :: "bool \<Rightarrow> bool \<Rightarrow> bool \<Rightarrow> 8 word" where
  "flag_word no_mshr no_wb no_tgt = (if no_mshr then 1 else 0) OR (if no_wb then 2 else 0) OR (if no_tgt then 4 else 0)"

definition block_flags :: "'s cache \<Rightarrow> 8 word" where
  "block_flags c = flag_word (isFull (mshrQueue c)) (isFull (writeBuffer c)) (noTargetMSHR c \<noteq> None)"

lemma flag_word_simps:
  "flag_word a b t \<noteq> 0 \<longleftrightarrow> a \<or> b \<or> t"
  "flag_word a b t OR cause_flag Blocked_NoMSHRs = flag_word True b t"
  "flag_word a b t OR cause_flag Blocked_NoWBBuffers = flag_word a True t"
  "flag_word a b t OR cause_flag Blocked_NoTargets = flag_word a b True"
  "flag_word a b t AND NOT (cause_flag Blocked_NoMSHRs) = flag_word False b t"
  "flag_word a b t AND NOT (cause_flag Blocked_NoWBBuffers) = flag_word a False t"
  "flag_word a b t AND NOT (cause_flag Blocked_NoTargets) = flag_word a b False"
  by (cases a; cases b; cases t; simp add: flag_word_def)+

declare cause_flag.simps [simp del]

definition flow_ok :: "'s cache \<Rightarrow> bool" where
  "flow_ok c \<longleftrightarrow> blocked c = block_flags c \<and> port_ok (blocked c \<noteq> 0) (cpuSidePort c)"

definition wq_ok :: "wq_entry queue \<Rightarrow> bool" where
  "wq_ok q \<longleftrightarrow> wq_inv q \<and> numReserve q < numEntries q"

definition q_ok :: "addr set \<Rightarrow> 's cache \<Rightarrow> bool" where
  "q_ok A c \<longleftrightarrow> mq_ok A (mshrQueue c) \<and> wq_ok (writeBuffer c) \<and> flow_ok c \<and>
     (\<forall>i. noTargetMSHR c = Some i \<longrightarrow> i \<in> set (allocatedList (mshrQueue c)))"

text \<open>The part of the state these invariants speak about.\<close>

definition same_queues :: "'s cache \<Rightarrow> 's cache \<Rightarrow> bool" where
  "same_queues c c' \<longleftrightarrow> mshrQueue c' = mshrQueue c \<and> writeBuffer c' = writeBuffer c \<and> blocked c' = blocked c \<and>
     cpuSidePort c' = cpuSidePort c \<and> noTargetMSHR c' = noTargetMSHR c"

lemma same_queues_refl [simp]: "same_queues c c"
  by (simp add: same_queues_def)

lemma same_queues_trans: "same_queues c c1 \<Longrightarrow> same_queues c1 c2 \<Longrightarrow> same_queues c c2"
  by (simp add: same_queues_def)

lemma q_ok_same: "same_queues c c' \<Longrightarrow> q_ok A c' = q_ok A c"
  by (simp add: same_queues_def q_ok_def flow_ok_def block_flags_def)

lemma same_queues_upd [simp]:
  "same_queues c (c'\<lparr>c_tags := t\<rparr>) = same_queues c c'" "same_queues c (c'\<lparr>tempBlock := b\<rparr>) = same_queues c c'"
  "same_queues c (c'\<lparr>tempAddr := a\<rparr>) = same_queues c c'" "same_queues c (c'\<lparr>sendEvents := e\<rparr>) = same_queues c c'"
  "same_queues c (c'\<lparr>missCount := n\<rparr>) = same_queues c c'" "same_queues c (c'\<lparr>cpuResps := r\<rparr>) = same_queues c c'"
  "same_queues c (c'\<lparr>spmResps := r\<rparr>) = same_queues c c'" "same_queues c (c'\<lparr>snoopResps := r\<rparr>) = same_queues c c'"
  "same_queues c (c'\<lparr>sentReqs := ps\<rparr>) = same_queues c c'" "same_queues c (c'\<lparr>spmPortFreeAt := x\<rparr>) = same_queues c c'"
  "same_queues c (c'\<lparr>writeAllocator := w\<rparr>) = same_queues c c'" "same_queues c (c'\<lparr>c_order := n\<rparr>) = same_queues c c'"
  "same_queues c (c'\<lparr>upPending := u\<rparr>) = same_queues c c'"
  by (simp_all add: same_queues_def)

lemma setBlocked_flow:
  assumes "setBlocked k c = Inr c'" "port_ok (blocked c \<noteq> 0) (cpuSidePort c)"
  shows "blocked c' = blocked c OR cause_flag k" and "port_ok True (cpuSidePort c')"
    and "mshrQueue c' = mshrQueue c" and "writeBuffer c' = writeBuffer c" and "noTargetMSHR c' = noTargetMSHR c"
  using assms
  by (auto simp: setBlocked_def port_setBlocked_def port_ok_def Let_def split: if_splits)

lemma clearBlocked_flow:
  assumes "clearBlocked tk k c = Inr c'" "port_ok (blocked c \<noteq> 0) (cpuSidePort c)"
  shows "blocked c' = blocked c AND NOT (cause_flag k)" and "port_ok (blocked c' \<noteq> 0) (cpuSidePort c')"
    and "mshrQueue c' = mshrQueue c" and "writeBuffer c' = writeBuffer c" and "noTargetMSHR c' = noTargetMSHR c"
  using assms
  by (auto simp: clearBlocked_def port_clearBlocked_def port_ok_def Let_def split: if_splits)

lemma setBlocked_ok:
  assumes "setBlocked k c1 = Inr c'" "flow_ok c" "blocked c1 = blocked c" "cpuSidePort c1 = cpuSidePort c"
    and "block_flags c1 = block_flags c OR cause_flag k"
  shows "flow_ok c' \<and> mshrQueue c' = mshrQueue c1 \<and> writeBuffer c' = writeBuffer c1 \<and> noTargetMSHR c' = noTargetMSHR c1"
proof -
  have p: "port_ok (blocked c1 \<noteq> 0) (cpuSidePort c1)" using assms(2-4) by (auto simp: flow_ok_def)
  note f = setBlocked_flow[OF assms(1) p]
  have "block_flags c' = block_flags c1" using f(3-5) by (simp add: block_flags_def)
  moreover have "blocked c' = block_flags c1" using f(1) assms(2,3,5) by (simp add: flow_ok_def)
  moreover have "blocked c' \<noteq> 0" using f(1) by (cases k) (auto simp: or_eq_0_iff cause_flag.simps)
  ultimately show ?thesis using f(2-5) by (simp add: flow_ok_def)
qed

lemma clearBlocked_ok:
  assumes "clearBlocked tk k c1 = Inr c'" "flow_ok c" "blocked c1 = blocked c" "cpuSidePort c1 = cpuSidePort c"
  shows "blocked c' = block_flags c AND NOT (cause_flag k) \<and> port_ok (blocked c' \<noteq> 0) (cpuSidePort c') \<and>
    mshrQueue c' = mshrQueue c1 \<and> writeBuffer c' = writeBuffer c1 \<and> noTargetMSHR c' = noTargetMSHR c1"
proof -
  have "port_ok (blocked c1 \<noteq> 0) (cpuSidePort c1)" using assms(2-4) by (auto simp: flow_ok_def)
  note f = clearBlocked_flow[OF assms(1) this]
  show ?thesis using f assms(2,3) by (auto simp: flow_ok_def)
qed

lemma flow_ok_cong:
  assumes "flow_ok c" "blocked c' = blocked c" "cpuSidePort c' = cpuSidePort c"
    and "isFull (mshrQueue c') = isFull (mshrQueue c)" "isFull (writeBuffer c') = isFull (writeBuffer c)"
    and "noTargetMSHR c' = noTargetMSHR c"
  shows "flow_ok c'"
proof -
  have "block_flags c' = block_flags c" using assms(4-6) by (simp add: block_flags_def)
  with assms(1-3) show ?thesis by (auto simp: flow_ok_def)
qed

lemma schedMemSideSendEvent_same [simp]: "same_queues c (schedMemSideSendEvent t c') = same_queues c c'"
  by (simp add: schedMemSideSendEvent_def)

lemma q_ok_sched [simp]: "q_ok A (schedMemSideSendEvent t c) = q_ok A c"
  by (rule q_ok_same) simp

lemma isFull_mono: "isFull q \<Longrightarrow> allocated q' \<ge> allocated q \<Longrightarrow> same_size q q' \<Longrightarrow> isFull q'"
  by (simp add: isFull_def same_size_def)

lemma queue_allocate_count:
  assumes "queue_allocate g f q = Inr (i, q')"
  shows "allocated q' = allocated q + 1"
proof -
  from assms obtain rest e q1 where q1: "addToReadyList i
      (upd_entry i e (q\<lparr>freeList := rest, allocatedList := allocatedList q @ [i]\<rparr>)) = Inr q1"
    "q' = q1\<lparr>allocated := allocated q1 + 1\<rparr>"
    by (auto simp: queue_allocate_def split: list.splits)
  obtain l where "addToReadyList i (upd_entry i e (q\<lparr>freeList := rest, allocatedList := allocatedList q @ [i]\<rparr>))
      = Inr ((upd_entry i e (q\<lparr>freeList := rest, allocatedList := allocatedList q @ [i]\<rparr>))\<lparr>readyList := l\<rparr>)"
    using addToReadyList_result[of i] by blast
  with q1(1) have "q1 = (upd_entry i e (q\<lparr>freeList := rest, allocatedList := allocatedList q @ [i]\<rparr>))\<lparr>readyList := l\<rparr>"
    by simp
  then show ?thesis by (simp add: q1(2))
qed

text \<open>After an entry was added: the block flag is raised if the queue is now full.\<close>

lemma raise_mshr_flag:
  assumes "flow_ok c" "isFull (mshrQueue c) \<Longrightarrow> isFull (mshrQueue c1)"
    and "blocked c1 = blocked c" "cpuSidePort c1 = cpuSidePort c" "writeBuffer c1 = writeBuffer c" "noTargetMSHR c1 = noTargetMSHR c"
    and "(if isFull (mshrQueue c1) then setBlocked Blocked_NoMSHRs c1 else Inr c1) = Inr c2"
  shows "flow_ok c2 \<and> mshrQueue c2 = mshrQueue c1 \<and> writeBuffer c2 = writeBuffer c1 \<and> noTargetMSHR c2 = noTargetMSHR c1"
proof (cases "isFull (mshrQueue c1)")
  case True
  then have "setBlocked Blocked_NoMSHRs c1 = Inr c2" using assms(7) by simp
  then show ?thesis
    by (rule setBlocked_ok[OF _ assms(1,3,4)]) (use True assms(5,6) in \<open>simp add: block_flags_def flag_word_simps\<close>)
next
  case False
  then have "c2 = c1" using assms(7) by simp
  with False assms(2-6) flow_ok_cong[OF assms(1), of c1] show ?thesis by auto
qed

lemma raise_wq_flag:
  assumes "flow_ok c" "isFull (writeBuffer c) \<Longrightarrow> isFull (writeBuffer c1)"
    and "blocked c1 = blocked c" "cpuSidePort c1 = cpuSidePort c" "mshrQueue c1 = mshrQueue c" "noTargetMSHR c1 = noTargetMSHR c"
    and "(if isFull (writeBuffer c1) then setBlocked Blocked_NoWBBuffers c1 else Inr c1) = Inr c2"
  shows "flow_ok c2 \<and> mshrQueue c2 = mshrQueue c1 \<and> writeBuffer c2 = writeBuffer c1 \<and> noTargetMSHR c2 = noTargetMSHR c1"
proof (cases "isFull (writeBuffer c1)")
  case True
  then have "setBlocked Blocked_NoWBBuffers c1 = Inr c2" using assms(7) by simp
  then show ?thesis
    by (rule setBlocked_ok[OF _ assms(1,3,4)]) (use True assms(5,6) in \<open>simp add: block_flags_def flag_word_simps\<close>)
next
  case False
  then have "c2 = c1" using assms(7) by simp
  with False assms(2-6) flow_ok_cong[OF assms(1), of c1] show ?thesis by auto
qed

text \<open>After an entry was removed: the flag is lowered if the queue is no longer full.\<close>

lemma lower_mshr_flag:
  assumes "flow_ok c" "isFull (mshrQueue c1) \<Longrightarrow> isFull (mshrQueue c)"
    and "blocked c1 = blocked c" "cpuSidePort c1 = cpuSidePort c" "writeBuffer c1 = writeBuffer c" "noTargetMSHR c1 = noTargetMSHR c"
    and "(if isFull (mshrQueue c) \<and> \<not> isFull (mshrQueue c1) then clearBlocked tk Blocked_NoMSHRs c1 else Inr c1) = Inr c2"
  shows "flow_ok c2 \<and> mshrQueue c2 = mshrQueue c1 \<and> writeBuffer c2 = writeBuffer c1 \<and> noTargetMSHR c2 = noTargetMSHR c1"
proof (cases "isFull (mshrQueue c) \<and> \<not> isFull (mshrQueue c1)")
  case True
  then have "clearBlocked tk Blocked_NoMSHRs c1 = Inr c2" using assms(7) by simp
  from clearBlocked_ok[OF this assms(1,3,4)] True assms(5,6) show ?thesis
    by (auto simp: flow_ok_def block_flags_def flag_word_simps)
next
  case False
  then have "c2 = c1" using assms(7) by (simp split: if_splits)
  with False assms(2-6) flow_ok_cong[OF assms(1), of c1] show ?thesis by auto
qed

lemma lower_wq_flag:
  assumes "flow_ok c" "isFull (writeBuffer c1) \<Longrightarrow> isFull (writeBuffer c)"
    and "blocked c1 = blocked c" "cpuSidePort c1 = cpuSidePort c" "mshrQueue c1 = mshrQueue c" "noTargetMSHR c1 = noTargetMSHR c"
    and "(if isFull (writeBuffer c) \<and> \<not> isFull (writeBuffer c1) then clearBlocked tk Blocked_NoWBBuffers c1 else Inr c1) = Inr c2"
  shows "flow_ok c2 \<and> mshrQueue c2 = mshrQueue c1 \<and> writeBuffer c2 = writeBuffer c1 \<and> noTargetMSHR c2 = noTargetMSHR c1"
proof (cases "isFull (writeBuffer c) \<and> \<not> isFull (writeBuffer c1)")
  case True
  then have "clearBlocked tk Blocked_NoWBBuffers c1 = Inr c2" using assms(7) by simp
  from clearBlocked_ok[OF this assms(1,3,4)] True assms(5,6) show ?thesis
    by (auto simp: flow_ok_def block_flags_def flag_word_simps)
next
  case False
  then have "c2 = c1" using assms(7) by (simp split: if_splits)
  with False assms(2-6) flow_ok_cong[OF assms(1), of c1] show ?thesis by auto
qed

end
