(* ===== verification/Cache_Invariant.thy ===== *)
theory Cache_Invariant
  imports Isolation Cache_Queues
begin

text \<open>
  The invariant of a whole cache and that every handler keeps it. \<open>sound good A c\<close>: the tag
  store is well formed, both queues are sound, the flow control agrees with them, and the
  scratchpad copies that wait in miss registers name slots of \<open>A\<close>. \<open>keeps good A c c'\<close>: the
  invariant still holds, every scratchpad slot outside \<open>A\<close> is untouched, no block has become
  or ceased to be a slot, and the same miss registers are in use (and the same one, if any, has
  run out of targets). It is what every operation
  below the two handlers that allocate and free registers satisfies, and it composes.
\<close>

section \<open>Sound caches\<close>

definition slots_of :: "indexing_policy \<Rightarrow> addr set \<Rightarrow> nat set" where
  "slots_of ip A = (\<Union>a\<in>A. set_option (slot_idx ip a))"

definition sound :: "('s \<Rightarrow> bool) \<Rightarrow> addr set \<Rightarrow> 's cache \<Rightarrow> bool" where
  "sound good A c \<longleftrightarrow> tags_ok good (c_tags c) \<and> q_ok A c"

definition evolves :: "('s \<Rightarrow> bool) \<Rightarrow> addr set \<Rightarrow> 's cache \<Rightarrow> 's cache \<Rightarrow> bool" where
  "evolves good A c c' \<longleftrightarrow> ciso good (slots_of (tagsIp (c_tags c)) A) c c' \<and> q_ok A c'"

definition keeps :: "('s \<Rightarrow> bool) \<Rightarrow> addr set \<Rightarrow> 's cache \<Rightarrow> 's cache \<Rightarrow> bool" where
  "keeps good A c c' \<longleftrightarrow> evolves good A c c' \<and> slot_set (c_tags c') = slot_set (c_tags c) \<and>
     allocatedList (mshrQueue c') = allocatedList (mshrQueue c) \<and> noTargetMSHR c' = noTargetMSHR c"

lemma sound_tags: "sound good A c \<Longrightarrow> tags_ok good (c_tags c)"
  by (simp add: sound_def)

lemma evolves_sound: "evolves good A c c' \<Longrightarrow> sound good A c'"
  by (auto simp: evolves_def sound_def iso_ok)

lemma keeps_evolves: "keeps good A c c' \<Longrightarrow> evolves good A c c'"
  by (simp add: keeps_def)

lemmas keeps_sound = evolves_sound[OF keeps_evolves]

lemma evolves_trans: "evolves good A c c1 \<Longrightarrow> evolves good A c1 c2 \<Longrightarrow> evolves good A c c2"
  unfolding evolves_def by (metis iso_def iso_trans)

lemma keeps_trans: "keeps good A c c1 \<Longrightarrow> keeps good A c1 c2 \<Longrightarrow> keeps good A c c2"
  by (auto simp: keeps_def intro: evolves_trans)

lemma keeps_refl: "sound good A c \<Longrightarrow> keeps good A c c"
  by (simp add: sound_def keeps_def evolves_def iso_refl)

lemma keeps_allocated: "keeps good A c c' \<Longrightarrow> i \<in> set (allocatedList (mshrQueue c)) \<Longrightarrow> i \<in> set (allocatedList (mshrQueue c'))"
  by (simp add: keeps_def)

lemma keeps_ptr: "keeps good A c c' \<Longrightarrow> ptr_ok c bp \<Longrightarrow> ptr_ok c' bp"
  by (cases bp) (auto simp: keeps_def evolves_def plain_idx_def iso_def)

lemma keeps_queue:
  assumes "sound good A c" "c_tags c' = c_tags c" "q_ok A c'" "allocatedList (mshrQueue c') = allocatedList (mshrQueue c)"
    and "noTargetMSHR c' = noTargetMSHR c"
  shows "keeps good A c c'"
  using assms by (simp add: keeps_def evolves_def sound_def iso_refl)

lemma iso_empty_slots: "iso good {} t t' \<Longrightarrow> slot_set t' = slot_set t"
  by (auto simp: iso_def slot_set_def)

lemma keeps_blocks:
  assumes "sound good A c" "ciso good {} c c'" "same_queues c c'"
  shows "keeps good A c c'"
  using assms iso_mono[of good "{}"] iso_empty_slots[of good "c_tags c" "c_tags c'"] q_ok_same[of c c' A]
  by (auto simp: keeps_def evolves_def sound_def same_queues_def)

lemma keeps_same:
  assumes "keeps good A c c'" "c_tags c'' = c_tags c'" "same_queues c' c''"
  shows "keeps good A c c''"
  using assms q_ok_same[of c' c'' A] by (auto simp: keeps_def evolves_def same_queues_def)

section \<open>Block operations leave the queues alone\<close>

named_theorems block_op "operations that leave the queues and the flow control alone"

lemma set_blk_same [simp]: "same_queues c (set_blk bp b c') = same_queues c c'"
  by (cases bp) simp_all

lemma with_blk_same [block_op]: "with_blk bp h c = Inr c' \<Longrightarrow> same_queues c c'"
  by (auto simp: with_blk_def)

lemma invalidateBlock_same [block_op]: "invalidateBlock cx bp c = Inr c' \<Longrightarrow> same_queues c c'"
  by (cases bp) (auto simp: invalidateBlock_def tempBlock_invalidate_def)

lemma tempBlock_insert_same [block_op]: "tempBlock_insert a s c = Inr c' \<Longrightarrow> same_queues c c'"
  by (auto simp: tempBlock_insert_def)

lemma writebackBlk_same [block_op]: "writebackBlk cx bp c = Inr (p, c') \<Longrightarrow> same_queues c c'"
  by (auto simp: writebackBlk_def Let_def split_def)

lemma writecleanBlk_same [block_op]: "writecleanBlk cx bp d c = Inr (p, c') \<Longrightarrow> same_queues c c'"
  by (auto simp: writecleanBlk_def Let_def split_def)

lemma evictBlock_same [block_op]: "evictBlock cx bp c = Inr (p, c') \<Longrightarrow> same_queues c c'"
  by (auto simp: evictBlock_def split: if_splits
      intro: same_queues_trans[OF writebackBlk_same] invalidateBlock_same)

lemma base_satisfyRequest_same [block_op]: "base_satisfyRequest cx p bp c = Inr (p', c') \<Longrightarrow> same_queues c c'"
  by (auto simp: base_satisfyRequest_def split: if_splits dest: invalidateBlock_same)

lemma satisfyRequest_same [block_op]: "satisfyRequest cx dr pd p bp c = Inr (p', c') \<Longrightarrow> same_queues c c'"
  by (auto simp: satisfyRequest_def split: if_splits dest: base_satisfyRequest_same)

lemma maintainClusivity_same [block_op]: "maintainClusivity cx fc blk c = Inr c' \<Longrightarrow> same_queues c c'"
  by (auto simp: maintainClusivity_def split: option.splits if_splits dest: invalidateBlock_same)

lemma evict_valid_same: "evict_valid cx is (wbs, c) = Inr (wbs', c') \<Longrightarrow> same_queues c c'"
proof (induction "is" arbitrary: wbs c)
  case (Cons i "is")
  then show ?case
    by (auto split: if_splits dest!: evictBlock_same intro: same_queues_trans)
qed simp

lemma handleEvictions_same [block_op]: "handleEvictions cx is wbs c = Inr (ok, wbs', c') \<Longrightarrow> same_queues c c'"
  by (auto simp: handleEvictions_def simp del: evict_valid.simps split: if_splits dest: evict_valid_same)

lemma allocateBlock_same [block_op]:
  assumes "allocateBlock cx p wbs c = Inr (r, wbs', c')"
  shows "same_queues c c'"
proof -
  from assms obtain v es t where v: "(case v of None \<Rightarrow> Inr (None, wbs, c\<lparr>c_tags := t\<rparr>)
       | Some v \<Rightarrow> bindR (handleEvictions cx [v] wbs (c\<lparr>c_tags := t\<rparr>)) (\<lambda>(ok, wbs1, c2).
           if \<not> ok then Inr (None, wbs1, c2)
           else bindR (insertBlock (ops cx) (renv cx) p v (c_tags c2)) (\<lambda>t2.
                  Inr (Some v, wbs1, c2\<lparr>c_tags := t2\<rparr>)))) = Inr (r, wbs', c')"
    by (auto simp: allocateBlock_def Let_def)
  have h: "same_queues c c2" if "handleEvictions cx [w] wbs (c\<lparr>c_tags := t\<rparr>) = Inr (ok, wbs1, c2)" for w ok wbs1 c2
    using handleEvictions_same[OF that] by (simp add: same_queues_def)
  show ?thesis using v by (cases v) (auto split: if_splits dest!: h)
qed

section \<open>Queue operations keep the invariant\<close>

declare cause_flag.simps [simp del]

lemma isFull_more:
  "isFull q \<Longrightarrow> allocated q' \<ge> allocated q \<Longrightarrow> numEntries q' = numEntries q \<Longrightarrow> numReserve q' = numReserve q \<Longrightarrow> isFull q'"
  by (simp add: isFull_def)

lemma sched_mshrQueue [simp]:
  "mshrQueue (schedMemSideSendEvent t c) = mshrQueue c" "noTargetMSHR (schedMemSideSendEvent t c) = noTargetMSHR c"
  by (simp_all add: schedMemSideSendEvent_def)

lemma allocateWriteBuffer_q:
  assumes ok: "q_ok A c" and run: "allocateWriteBuffer cx p t c = Inr c'"
  shows "q_ok A c' \<and> mshrQueue c' = mshrQueue c \<and> noTargetMSHR c' = noTargetMSHR c"
proof -
  let ?a = "getBlockAddr (blkSize (cfg cx)) p"
  from run obtain i q c2 where q: "wq_allocate (curTick cx) ?a (blkSize (cfg cx)) p t (c_order c) (writeBuffer c) = Inr (i, q)"
    and c2: "(if isFull (writeBuffer (c\<lparr>writeBuffer := q, c_order := Suc (c_order c)\<rparr>))
        then setBlocked Blocked_NoWBBuffers (c\<lparr>writeBuffer := q, c_order := Suc (c_order c)\<rparr>)
        else Inr (c\<lparr>writeBuffer := q, c_order := Suc (c_order c)\<rparr>)) = Inr c2"
    and c': "c' = schedMemSideSendEvent t c2"
    by (auto simp: allocateWriteBuffer_def Let_def)
  let ?c1 = "c\<lparr>writeBuffer := q, c_order := Suc (c_order c)\<rparr>"
  note r = q[unfolded wq_allocate_def]
  have more: "isFull (writeBuffer c) \<Longrightarrow> isFull (writeBuffer ?c1)"
    using isFull_more[of "writeBuffer c" q] queue_allocate_count[OF r] queue_allocate_size[OF r] by simp
  have f: "flow_ok c" using ok by (simp add: q_ok_def)
  have k: "flow_ok c2 \<and> mshrQueue c2 = mshrQueue ?c1 \<and> writeBuffer c2 = writeBuffer ?c1 \<and> noTargetMSHR c2 = noTargetMSHR ?c1"
    by (rule raise_wq_flag[OF f more _ _ _ _ c2]) simp_all
  have "wq_ok q" using wq_allocate_inv(1)[OF _ q] ok queue_allocate_size[OF r] by (simp add: q_ok_def wq_ok_def)
  with k ok have "q_ok A c2" by (simp add: q_ok_def)
  with c' k show ?thesis by simp
qed

lemma allocateWriteBuffer_keeps:
  assumes "sound good A c" "allocateWriteBuffer cx p t c = Inr c'"
  shows "keeps good A c c'"
proof (rule keeps_queue[OF assms(1) allocateWriteBuffer_tags[OF assms(2)]])
  show "q_ok A c'" "allocatedList (mshrQueue c') = allocatedList (mshrQueue c)" "noTargetMSHR c' = noTargetMSHR c"
    using allocateWriteBuffer_q[OF _ assms(2)] assms(1) by (auto simp: sound_def)
qed

lemma markInService_wq_keeps:
  assumes "sound good A c" "j \<in> set (allocatedList (writeBuffer c))" "markInService_wq cx j c = Inr c'"
  shows "keeps good A c c'"
proof -
  have ok: "q_ok A c" using assms(1) by (simp add: sound_def)
  then have inv: "wq_inv (writeBuffer c)" and f: "flow_ok c" by (auto simp: q_ok_def wq_ok_def)
  obtain q where q: "wq_markInService j (writeBuffer c) = Inr q" "wq_inv q" "allocated q = allocated (writeBuffer c) - 1"
    using wq_markInService_inv[OF inv assms(2)] by metis
  let ?c1 = "c\<lparr>writeBuffer := q\<rparr>"
  have c': "(if isFull (writeBuffer c) \<and> \<not> isFull (writeBuffer ?c1)
       then clearBlocked (curTick cx) Blocked_NoWBBuffers ?c1 else Inr ?c1) = Inr c'"
    using assms(3) q(1) by (simp add: markInService_wq_def Let_def)
  have sz: "numEntries q = numEntries (writeBuffer c)" "numReserve q = numReserve (writeBuffer c)"
    using q(1) queue_deallocate_fields(4)
    by (fastforce simp: wq_markInService_def wq_deallocate_def)+
  have less: "isFull (writeBuffer ?c1) \<Longrightarrow> isFull (writeBuffer c)"
    using q(3) sz by (simp add: isFull_def)
  have "flow_ok c' \<and> mshrQueue c' = mshrQueue ?c1 \<and> writeBuffer c' = writeBuffer ?c1 \<and> noTargetMSHR c' = noTargetMSHR ?c1"
    by (rule lower_wq_flag[OF f less _ _ _ _ c']) simp_all
  then have "q_ok A c'" "mshrQueue c' = mshrQueue c" "noTargetMSHR c' = noTargetMSHR c"
    using q(2) ok sz by (auto simp: q_ok_def wq_ok_def)
  then show ?thesis by (intro keeps_queue[OF assms(1) markInService_wq_tags[OF assms(3)]]) auto
qed

lemma q_ok_allocated: "q_ok A c \<Longrightarrow> i \<in> set (allocatedList (mshrQueue c)) \<Longrightarrow>
    mshr_wf (entry_at (mshrQueue c) i) \<and> mshr_slots (entry_at (mshrQueue c) i) \<subseteq> A"
  using mq_ok_allocated[of A "mshrQueue c" i] by (simp add: q_ok_def)

lemma mq_entry_stepI:
  "isRequest (cmd p) \<Longrightarrow> allocateTarget fr tk p t k al up m = Inr (up', m') \<Longrightarrow> mq_entry_step m m'"
  "mshr_handleSnoop fr tk p k up m = Inr (w, p', up', m') \<Longrightarrow> mq_entry_step m m'"
  "extractServiceableTargets p m = Inr (r, m') \<Longrightarrow> mq_entry_step m m'"
  "promoteReadable up m = Inr (up', m') \<Longrightarrow> mq_entry_step m m'"
  "promoteWritable up m = Inr (up', m') \<Longrightarrow> mq_entry_step m m'"
  "promoteDeferredTargets tk m = Inr (b, m') \<Longrightarrow> mq_entry_step m m'"
  by (unfold mq_entry_step_def) (metis+)

lemma mshr_upd_keeps:
  assumes "sound good A c" "i \<in> set (allocatedList (mshrQueue c))" "mshr_wf m"
    and "e_inService m = e_inService (entry_at (mshrQueue c) i)" "mshr_slots m \<subseteq> A"
  shows "keeps good A c (c\<lparr>mshrQueue := upd_entry i m (mshrQueue c)\<rparr>)"
proof -
  let ?c = "c\<lparr>mshrQueue := upd_entry i m (mshrQueue c)\<rparr>"
  have ok: "q_ok A c" using assms(1) by (simp add: sound_def)
  have "mq_ok A (mshrQueue ?c)" using mq_ok_upd[OF _ assms(2-5)] ok by (simp add: q_ok_def)
  moreover have "flow_ok ?c" by (rule flow_ok_cong[of c]) (use ok in \<open>simp_all add: q_ok_def\<close>)
  ultimately have "q_ok A ?c" using ok by (simp add: q_ok_def)
  then show ?thesis by (intro keeps_queue[OF assms(1)]) simp_all
qed

lemma mshr_step_keeps:
  assumes "sound good A c" "i \<in> set (allocatedList (mshrQueue c))" "mq_entry_step (entry_at (mshrQueue c) i) m"
    and "mshr_slots m \<subseteq> mshr_slots (entry_at (mshrQueue c) i) \<union> A"
  shows "keeps good A c (c\<lparr>mshrQueue := upd_entry i m (mshrQueue c)\<rparr>)"
proof -
  have w: "mshr_wf (entry_at (mshrQueue c) i) \<and> mshr_slots (entry_at (mshrQueue c) i) \<subseteq> A"
    using q_ok_allocated assms(1,2) by (auto simp: sound_def)
  then show ?thesis
    using mq_entry_step_wf[OF assms(3)] assms(4) by (intro mshr_upd_keeps[OF assms(1,2)]) auto
qed

lemma allocateMissBuffer_evolves:
  assumes "sound good A c" "0 < blkSize (cfg cx)" "named_slot p \<subseteq> A" "allocateMissBuffer cx p t b c = Inr (i, c')"
  shows "evolves good A c c'" and "c_tags c' = c_tags c" and "i \<in> set (readyList (mshrQueue c'))"
proof -
  let ?a = "getBlockAddr (blkSize (cfg cx)) p"
  have ok: "q_ok A c" using assms(1) by (simp add: sound_def)
  then have mq: "mq_ok A (mshrQueue c)" and f: "flow_ok c" by (auto simp: q_ok_def)
  from assms(4) obtain al up q c2 where q: "mq_allocate (curTick cx) ?a (blkSize (cfg cx)) p t (c_order c) al (upPending c)
      (mshrQueue c) = Inr (i, up, q)"
    and c2: "(if isFull (mshrQueue (c\<lparr>mshrQueue := q, upPending := up, c_order := Suc (c_order c)\<rparr>))
        then setBlocked Blocked_NoMSHRs (c\<lparr>mshrQueue := q, upPending := up, c_order := Suc (c_order c)\<rparr>)
        else Inr (c\<lparr>mshrQueue := q, upPending := up, c_order := Suc (c_order c)\<rparr>)) = Inr c2"
    and c': "c' = (if b then schedMemSideSendEvent t c2 else c2)"
    by (auto simp: allocateMissBuffer_def Let_def)
  let ?c1 = "c\<lparr>mshrQueue := q, upPending := up, c_order := Suc (c_order c)\<rparr>"
  obtain rest m where r: "queue_allocate mshr_getNumTargets (\<lambda>_. Inr m) (mshrQueue c) = Inr (i, q)"
    using mq_allocate_result[OF q] .
  have more: "isFull (mshrQueue c) \<Longrightarrow> isFull (mshrQueue ?c1)"
    using isFull_more[of "mshrQueue c" q] queue_allocate_count[OF r] queue_allocate_size[OF r] by simp
  have k: "flow_ok c2 \<and> mshrQueue c2 = mshrQueue ?c1 \<and> writeBuffer c2 = writeBuffer ?c1 \<and> noTargetMSHR c2 = noTargetMSHR ?c1"
    by (rule raise_mshr_flag[OF f more _ _ _ _ c2]) simp_all
  have al: "allocatedList q = allocatedList (mshrQueue c) @ [i]"
    using mq_allocate_inv(2)[OF _ assms(2) q] mq by (simp add: mq_ok_def)
  have "q_ok A c2"
    using k ok al mq_ok_allocate(1)[OF mq assms(2) q assms(3)] by (auto simp: q_ok_def)
  then have q': "q_ok A c'" using c' by simp
  show t: "c_tags c' = c_tags c" by (rule allocateMissBuffer_tags[OF assms(4)])
  show "evolves good A c c'" using q' t assms(1) by (simp add: evolves_def sound_def iso_refl)
  show "i \<in> set (readyList (mshrQueue c'))"
    using mq_ok_allocate(2)[OF mq assms(2) q assms(3)] k c' by (simp add: schedMemSideSendEvent_def)
qed

lemma mq_markInService_keeps:
  assumes "sound good A c" "i \<in> set (readyList (mshrQueue c))" "mq_markInService i pm (upPending c) (mshrQueue c) = Inr (up, q)"
  shows "keeps good A c (c\<lparr>mshrQueue := q, upPending := up\<rparr>)"
proof -
  let ?c = "c\<lparr>mshrQueue := q, upPending := up\<rparr>"
  have ok: "q_ok A c" using assms(1) by (simp add: sound_def)
  then have mq: "mq_ok A (mshrQueue c)" by (simp add: q_ok_def)
  note r = mq_ok_markInService[OF mq assms(2,3)]
  have "flow_ok ?c" by (rule flow_ok_cong[of c]) (use ok isFull_cong[OF r(2,3)] in \<open>simp_all add: q_ok_def\<close>)
  moreover have "allocatedList q = allocatedList (mshrQueue c)" using assms(3) by (auto simp: mq_markInService_def)
  ultimately show ?thesis using r(1) ok by (intro keeps_queue[OF assms(1)]) (auto simp: q_ok_def)
qed

lemma markInService_mshr_keeps:
  assumes "sound good A c" "i \<in> set (readyList (mshrQueue c))" "markInService_mshr cx i pm c = Inr c'"
  shows "keeps good A c c'"
proof -
  have mq: "mq_ok A (mshrQueue c)" using assms(1) by (simp add: sound_def q_ok_def)
  from assms(3) obtain up q where q: "mq_markInService i pm (upPending c) (mshrQueue c) = Inr (up, q)"
    by (auto simp: markInService_mshr_def Let_def)
  then have "isFull q = isFull (mshrQueue c)" using mq_ok_markInService[OF mq assms(2)] isFull_cong by metis
  with assms(3) q have "c' = c\<lparr>mshrQueue := q, upPending := up\<rparr>" by (auto simp: markInService_mshr_def Let_def)
  with mq_markInService_keeps[OF assms(1,2) q] show ?thesis by simp
qed

lemma coalesce_target_evolves:
  assumes "sound good A c" "i \<in> set (allocatedList (mshrQueue c))" "isRequest (cmd p)" "named_slot p \<subseteq> A"
    and "coalesce_target cx p i t c = Inr c'"
  shows "evolves good A c c'"
proof -
  let ?m = "entry_at (mshrQueue c) i"
  from assms(5) obtain al up m where m: "allocateTarget (fresh cx) (curTick cx) p t (c_order c) al (upPending c) ?m = Inr (up, m)"
    and r: "(if mshr_getNumTargets m \<ge> numTarget (cfg cx)
        then setBlocked Blocked_NoTargets (c\<lparr>mshrQueue := upd_entry i m (mshrQueue c), upPending := up,
            c_order := Suc (c_order c), noTargetMSHR := Some i\<rparr>)
        else Inr (c\<lparr>mshrQueue := upd_entry i m (mshrQueue c), upPending := up, c_order := Suc (c_order c)\<rparr>)) = Inr c'"
    by (auto simp: coalesce_target_def Let_def)
  let ?c1 = "c\<lparr>mshrQueue := upd_entry i m (mshrQueue c), upPending := up, c_order := Suc (c_order c)\<rparr>"
  have "mq_entry_step ?m m" by (rule mq_entry_stepI(1)[OF assms(3) m])
  then have k: "keeps good A c (c\<lparr>mshrQueue := upd_entry i m (mshrQueue c)\<rparr>)"
    using allocateTarget_slots[OF m] assms(4) by (intro mshr_step_keeps[OF assms(1,2)]) auto
  then have k1: "keeps good A c ?c1" by (rule keeps_same) (simp_all add: same_queues_def)
  show ?thesis
  proof (cases "mshr_getNumTargets m \<ge> numTarget (cfg cx)")
    case True
    let ?c2 = "?c1\<lparr>noTargetMSHR := Some i\<rparr>"
    have s: "setBlocked Blocked_NoTargets ?c2 = Inr c'" using True r by simp
    have ok: "q_ok A c" using assms(1) by (simp add: sound_def)
    then have f: "flow_ok c" by (simp add: q_ok_def)
    have "flow_ok c' \<and> mshrQueue c' = mshrQueue ?c2 \<and> writeBuffer c' = writeBuffer ?c2 \<and> noTargetMSHR c' = noTargetMSHR ?c2"
      by (rule setBlocked_ok[OF s f]) (simp_all add: block_flags_def flag_word_simps)
    then have "q_ok A c'" using keeps_sound[OF k1] assms(2) by (auto simp: sound_def q_ok_def)
    moreover have "c_tags c' = c_tags c" using setBlocked_tags[OF s] by simp
    ultimately show ?thesis using assms(1) by (simp add: evolves_def sound_def iso_refl)
  next
    case False
    then show ?thesis using r keeps_evolves[OF k1] by simp
  qed
qed

lemma doWritebacks_keeps:
  "sound good A c \<Longrightarrow> doWritebacks cx ns wbs t c = Inr c' \<Longrightarrow> keeps good A c c'"
proof (induction wbs arbitrary: c)
  case Nil
  then show ?case by (simp add: keeps_refl)
next
  case (Cons wb wbs)
  from Cons.prems(2) obtain c1 where r: "doWritebacks cx ns wbs t c1 = Inr c'"
    and c1: "c1 = c \<or> (\<exists>p. allocateWriteBuffer cx p t c = Inr c1)"
    by (auto split: if_splits)
  have k: "keeps good A c c1"
    using c1 allocateWriteBuffer_keeps[OF Cons.prems(1)] keeps_refl[OF Cons.prems(1)] by blast
  from keeps_trans[OF k Cons.IH[OF keeps_sound[OF k] r]] show ?case .
qed

section \<open>Responses and snoops\<close>

lemma response_same [simp]:
  "c_tags (schedTimingResp p t c) = c_tags c" "same_queues c' (schedTimingResp p t c) = same_queues c' c"
  by (simp_all add: schedTimingResp_def)

lemma sharedReadEgress_same [simp]:
  "c_tags (snd (sharedReadEgress g t p c)) = c_tags c" "same_queues c' (snd (sharedReadEgress g t p c)) = same_queues c' c"
  by (simp_all add: sharedReadEgress_def Let_def)

lemma cpuRespond_same [simp]: "c_tags (cpuRespond g p t c) = c_tags c" "same_queues c (cpuRespond g p t c)"
  by (simp_all add: cpuRespond_def split_def)

lemma spmSchedResp_same [simp]: "c_tags (spmSchedResp g p t c) = c_tags c" "same_queues c (spmSchedResp g p t c)"
  by (simp_all add: spmSchedResp_def split_def Let_def)

lemma keeps_respond:
  "keeps good A c c' \<Longrightarrow> keeps good A c (cpuRespond g p t c')" "keeps good A c c' \<Longrightarrow> keeps good A c (spmSchedResp g p t c')"
  by (erule keeps_same; simp)+

lemma supply_same: "doTimingSupplyResponse cx p d a b c = Inr c' \<Longrightarrow> c_tags c' = c_tags c \<and> same_queues c c'"
  by (auto simp: doTimingSupplyResponse_def Let_def)

text \<open>A change of one block that keeps plain blocks plain.\<close>

lemma set_blk_keeps:
  assumes "sound good A c" "ptr_ok c bp" "bp = TempBlk \<or> plain b"
  shows "keeps good A c (set_blk bp b c)"
  by (rule keeps_blocks[OF assms(1) set_blk_iso[OF sound_tags[OF assms(1)] assms(2,3)]]) simp

lemma clear_blk_keeps:
  assumes "sound good A c" "ptr_ok c bp"
  shows "keeps good A c (set_blk bp (clearCoherenceBits m (get_blk c bp)) c)"
  by (rule set_blk_keeps[OF assms]) (use ptr_plain[OF sound_tags[OF assms(1)] assms(2)] in \<open>auto intro: plain_clear\<close>)

lemma with_blk_keeps:
  assumes "sound good A c" "ptr_ok c bp" "with_blk bp h c = Inr c'" "\<And>b b'. plain b \<Longrightarrow> h b = Inr b' \<Longrightarrow> plain b'"
  shows "keeps good A c c'"
  by (rule keeps_blocks[OF assms(1) with_blk_iso[OF sound_tags[OF assms(1)] assms(2-4)] with_blk_same[OF assms(3)]])

lemma invalidateBlock_keeps:
  assumes "cx_ok good cx" "sound good A c" "ptr_ok c bp" "invalidateBlock cx bp c = Inr c'"
  shows "keeps good A c c'"
  by (rule keeps_blocks[OF assms(2) conjunct1[OF invalidateBlock_iso[OF assms(1) sound_tags[OF assms(2)] assms(3,4)]]
      invalidateBlock_same[OF assms(4)]])

lemma writecleanBlk_keeps:
  assumes "sound good A c" "ptr_ok c bp" "writecleanBlk cx bp d c = Inr (p, c')"
  shows "keeps good A c c'"
  by (rule keeps_blocks[OF assms(1) writecleanBlk_iso[OF sound_tags[OF assms(1)] assms(2,3)] writecleanBlk_same[OF assms(3)]])

lemma evictBlock_keeps:
  assumes "cx_ok good cx" "sound good A c" "ptr_ok c bp" "evictBlock cx bp c = Inr (p, c')"
  shows "keeps good A c c'"
  by (rule keeps_blocks[OF assms(2) conjunct1[OF evictBlock_iso[OF assms(1) sound_tags[OF assms(2)] assms(3,4)]]
      evictBlock_same[OF assms(4)]])

lemma satisfyRequest_keeps:
  assumes "cx_ok good cx" "sound good A c" "ptr_ok c bp" "satisfyRequest cx dr pd p bp c = Inr (p', c')"
  shows "keeps good A c c'"
  by (rule keeps_blocks[OF assms(2) satisfyRequest_iso[OF assms(1) sound_tags[OF assms(2)] assms(3,4)]
      satisfyRequest_same[OF assms(4)]])

lemma maintainClusivity_keeps:
  assumes "cx_ok good cx" "sound good A c" "\<And>bp. blk = Some bp \<Longrightarrow> ptr_ok c bp" "maintainClusivity cx fc blk c = Inr c'"
  shows "keeps good A c c'"
  by (rule keeps_blocks[OF assms(2) maintainClusivity_iso[OF assms(1) sound_tags[OF assms(2)] assms(3,4)]
      maintainClusivity_same[OF assms(4)]])

lemma snoop_clean_keeps:
  assumes "sound good A c" "\<And>bp. blk = Some bp \<Longrightarrow> ptr_ok c bp" "snoop_clean cx ns p blk c = Inr (p', c')"
  shows "keeps good A c c'"
proof (cases "c' = c")
  case False
  then obtain bp wb c1 t where w: "blk = Some bp" "writecleanBlk cx bp (getDest (req p)) c = Inr (wb, c1)"
      "doWritebacks cx ns [wb] t c1 = Inr c'"
    using assms(3) by (auto simp: snoop_clean_def simp del: doWritebacks.simps split: option.splits if_splits)
  have k: "keeps good A c c1" by (rule writecleanBlk_keeps[OF assms(1) assms(2)[OF w(1)] w(2)])
  show ?thesis by (rule keeps_trans[OF k doWritebacks_keeps[OF keeps_sound[OF k] w(3)]])
qed (simp add: keeps_refl assms(1))

lemma snoop_share_keeps:
  assumes "sound good A c" "\<And>bp. blk = Some bp \<Longrightarrow> ptr_ok c bp" "snoop_share p iv nw blk c = Inr (p', c')"
  shows "keeps good A c c'"
  using assms(3) keeps_refl[OF assms(1)] clear_blk_keeps[OF assms(1,2)]
  by (auto simp: snoop_share_def split: if_splits option.splits)

lemma snoop_supply_keeps:
  assumes "sound good A c" "snoop_supply cx p iv d pv bp c = Inr (p', c')"
  shows "keeps good A c c'"
  using assms(2) keeps_same[OF keeps_refl[OF assms(1)]]
  by (auto simp: snoop_supply_def dest!: supply_same)

lemma snoop_finish_keeps:
  assumes "cx_ok good cx" "sound good A c" "\<And>bp. blk = Some bp \<Longrightarrow> ptr_ok c bp"
    and "snoop_finish cx p r iv nw d pv blk v c = Inr (p', c')"
  shows "keeps good A c c'"
proof (cases "mustCheckAbove p")
  case False
  then obtain p1 c1 where s1: "snoop_share p iv nw blk c = Inr (p1, c1)"
    using assms(4) by (auto simp: snoop_finish_def)
  then obtain p2 c2 where s2: "(case (r, blk) of (True, Some bp) \<Rightarrow> snoop_supply cx p1 iv d pv bp c1
        | _ \<Rightarrow> must (d \<longrightarrow> needsResponse (cmd p1)) (Inr (p1, c1))) = Inr (p2, c2)"
    and s3: "(case blk of Some bp \<Rightarrow> if v \<and> iv then invalidateBlock cx bp c2 else Inr c2 | None \<Rightarrow> Inr c2) = Inr c'"
    using assms(4) False by (auto simp: snoop_finish_def)
  have s: "c2 = c1 \<or> (\<exists>bp. snoop_supply cx p1 iv d pv bp c1 = Inr (p2, c2))"
      "c' = c2 \<or> (\<exists>bp. blk = Some bp \<and> invalidateBlock cx bp c2 = Inr c')"
    using s2 s3 by (auto split: option.splits if_splits bool.splits)
  have k1: "keeps good A c c1" by (rule snoop_share_keeps[OF assms(2,3) s1])
  have k2: "keeps good A c1 c2"
    using s(1) snoop_supply_keeps[OF keeps_sound[OF k1]] keeps_refl[OF keeps_sound[OF k1]] by blast
  note k = keeps_trans[OF k1 k2]
  have "keeps good A c2 c'"
    using s(2) invalidateBlock_keeps[OF assms(1) keeps_sound[OF k] keeps_ptr[OF k assms(3)]] keeps_refl[OF keeps_sound[OF k]]
    by (elim disjE exE conjE) simp_all
  with k show ?thesis by (rule keeps_trans)
qed (use assms(2,4) in \<open>simp add: snoop_finish_def keeps_refl\<close>)

lemma handleSnoop_keeps:
  assumes "cx_ok good cx" "sound good A c" "\<And>bp. blk = Some bp \<Longrightarrow> ptr_ok c bp"
    and "handleSnoop cx ns p blk d pv c = Inr (n, p', c')"
  shows "keeps good A c c'"
proof -
  from assms(4) obtain n1 p1 where u: "snoop_upwards cx ns p = Inr (n1, p1)"
    by (auto simp: handleSnoop_def Let_def)
  show ?thesis
  proof (cases "isClean (cmd p1)")
    case True
    then obtain p2 c1 where w: "snoop_clean cx ns p1 blk c = Inr (p2, c1)"
      and f: "snoop_finish cx p2 False (isInvalidate (cmd p)) (needsWritable (cmd p)) d pv blk
        (case blk of None \<Rightarrow> False | Some bp \<Rightarrow> blkValid (get_blk c bp)) c1 = Inr (p', c')"
      using assms(4) u unfolding handleSnoop_def Let_def by auto
    have k: "keeps good A c c1" by (rule snoop_clean_keeps[OF assms(2,3) w])
    show ?thesis
      by (rule keeps_trans[OF k snoop_finish_keeps[OF assms(1) keeps_sound[OF k] keeps_ptr[OF k assms(3)] f]])
  next
    case False
    show ?thesis
    proof (cases "c' = c")
      case F: False
      show ?thesis
        by (rule snoop_finish_keeps[OF assms(1-3)])
          (use assms(4) u False F in \<open>auto simp: handleSnoop_def Let_def split: if_splits\<close>)
    qed (simp add: keeps_refl assms(2))
  qed
qed

lemma upd_front_same:
  "e_inService (upd_front_pkt h e) = e_inService e" "e_readyTime (upd_front_pkt h e) = e_readyTime e"
  "wq_getNumTargets (upd_front_pkt h e) = wq_getNumTargets e"
  by (auto simp: upd_front_pkt_def wq_getNumTargets_def split: list.splits)

lemma wq_inv_front:
  assumes "wq_inv q"
  shows "wq_inv (upd_entry j (upd_front_pkt h (entry_at q j)) q)"
proof -
  have wf: "queue_wf q" using assms by (simp add: wq_inv_def queue_inv_def)
  show ?thesis
    using assms queue_wf_upd[OF wf upd_front_same(1)[of h "entry_at q j"]]
      ready_sorted_upd[OF upd_front_same(2)[of h "entry_at q j"]]
    by (auto simp: wq_inv_def queue_inv_def upd_front_same)
qed

lemma wq_front_keeps:
  assumes "sound good A c"
  shows "keeps good A c (c\<lparr>writeBuffer := upd_entry j (upd_front_pkt h (entry_at (writeBuffer c) j)) (writeBuffer c)\<rparr>)"
proof -
  let ?c = "c\<lparr>writeBuffer := upd_entry j (upd_front_pkt h (entry_at (writeBuffer c) j)) (writeBuffer c)\<rparr>"
  have ok: "q_ok A c" using assms by (simp add: sound_def)
  have "flow_ok ?c" by (rule flow_ok_cong[of c]) (use ok in \<open>simp_all add: q_ok_def\<close>)
  then have "q_ok A ?c" using ok wq_inv_front by (simp add: q_ok_def wq_ok_def)
  then show ?thesis by (intro keeps_queue[OF assms]) simp_all
qed

lemma snoop_writeBuffer_keeps:
  assumes "sound good A c" "j \<in> set (allocatedList (writeBuffer c))" "snoop_writeBuffer cx p j c = Inr (e, p', c')"
  shows "keeps good A c c'"
proof (cases "c' = c")
  case False
  define c1 where "c1 = (if \<not> isUncacheable (req p) \<and> isRead (cmd p) \<and> \<not> isInvalidate (cmd p)
    then c\<lparr>writeBuffer := upd_entry j (upd_front_pkt setHasSharers (entry_at (writeBuffer c) j)) (writeBuffer c)\<rparr> else c)"
  have k1: "keeps good A c c1"
    using wq_front_keeps[OF assms(1)] keeps_refl[OF assms(1)] by (simp add: c1_def)
  have a1: "j \<in> set (allocatedList (writeBuffer c1))" using assms(2) by (simp add: c1_def)
  obtain c3 where c3: "c3 = c1 \<or> (\<exists>p2 d. doTimingSupplyResponse cx p2 d False False c1 = Inr c3)"
      "c' = c3 \<or> markInService_wq cx j c3 = Inr c'"
    using assms(3) False unfolding snoop_writeBuffer_def Let_def c1_def[symmetric]
    by (auto split: if_splits)
  have s3: "c_tags c3 = c_tags c1" "same_queues c1 c3" using c3(1) by (auto dest: supply_same)
  have k3: "keeps good A c c3" by (rule keeps_same[OF k1 s3])
  have a3: "j \<in> set (allocatedList (writeBuffer c3))" using a1 s3(2) by (simp add: same_queues_def)
  show ?thesis
    using c3(2) k3 keeps_trans[OF k3 markInService_wq_keeps[OF keeps_sound[OF k3] a3]] by blast
qed (simp add: keeps_refl assms(1))

lemma snoop_mshr_keeps:
  assumes "sound good A c" "i \<in> set (allocatedList (mshrQueue c))" "snoop_mshr cx p i c = Inr (e, p', c')"
  shows "keeps good A c c'"
proof (cases "mustCheckAbove p")
  case False
  let ?m = "entry_at (mshrQueue c) i"
  from False assms(3) obtain up m where m: "mshr_handleSnoop (fresh cx) (curTick cx) p (c_order c) (upPending c) ?m = Inr (e, p', up, m)"
      "c' = c\<lparr>mshrQueue := upd_entry i m (mshrQueue c), upPending := up, c_order := c_order c + 1\<rparr>"
    by (auto simp: snoop_mshr_def)
  have "keeps good A c (c\<lparr>mshrQueue := upd_entry i m (mshrQueue c)\<rparr>)"
    by (rule mshr_step_keeps[OF assms(1,2) mq_entry_stepI(2)[OF m(1)]]) (use mshr_handleSnoop_slots[OF m(1)] in blast)
  then show ?thesis unfolding m(2) by (rule keeps_same) (simp_all add: same_queues_def)
qed (use assms(1,3) in \<open>simp add: snoop_mshr_def keeps_refl\<close>)

lemma findBlock_ptr: "sound good A c \<Longrightarrow> map_option InTags (findBlock a s (c_tags c)) = Some bp \<Longrightarrow> ptr_ok c bp"
  using findBlock_plain[OF sound_tags, of good A c a s] by auto

lemma recvTimingSnoopReq_keeps:
  assumes "cx_ok good cx" "sound good A c" "recvTimingSnoopReq cx ns p c = Inr (p', c')"
  shows "keeps good A c c'"
proof (cases "inRange (cfg cx) (getAddr p)")
  case True
  define blk where "blk = map_option InTags (findBlock (getAddr p) (isSecure p) (c_tags c))"
  define p0 where "p0 = p\<lparr>snoopDelay := max (snoopDelay p) (tagLatency (cfg cx) * clockPeriod (cfg cx))\<rparr>"
  let ?a = "getBlockAddr (blkSize (cfg cx)) p"
  note u = assms(3)[unfolded recvTimingSnoopReq_def Let_def, folded p0_def blk_def]
  from u True obtain mi e p1 c1 where mi: "mq_findMatch ?a (isSecure p) (mshrQueue c) = Inr mi"
    and s1: "(case mi of None \<Rightarrow> Inr (False, p0, c) | Some i \<Rightarrow> snoop_mshr cx p0 i c) = Inr (e, p1, c1)"
    by auto
  have k1: "keeps good A c c1"
    using s1 snoop_mshr_keeps[OF assms(2) mq_findMatch_allocated] mi keeps_refl[OF assms(2)]
    by (cases mi) auto
  have b1: "ptr_ok c1 bp" if "blk = Some bp" for bp
    using keeps_ptr[OF k1] findBlock_ptr[OF assms(2)] that by (simp add: blk_def)
  show ?thesis
  proof (cases e)
    case False
    with u True mi s1 obtain wi e' p2 c2 where wi: "wq_findMatch ?a (isSecure p) (writeBuffer c1) = Inr wi"
      and s2: "(case wi of None \<Rightarrow> Inr (False, p1, c1) | Some j \<Rightarrow> snoop_writeBuffer cx p1 j c1) = Inr (e', p2, c2)"
      by auto
    have k2: "keeps good A c1 c2"
      using s2 snoop_writeBuffer_keeps[OF keeps_sound[OF k1] wq_findMatch_allocated] wi keeps_refl[OF keeps_sound[OF k1]]
      by (cases wi) auto
    note k = keeps_trans[OF k1 k2]
    show ?thesis
    proof (cases e')
      case e': False
      with u True mi s1 False wi s2 obtain n p3 where h: "handleSnoop cx ns p2 blk False False c2 = Inr (n, p3, c')"
        by auto
      show ?thesis
        by (rule keeps_trans[OF k handleSnoop_keeps[OF assms(1) keeps_sound[OF k] keeps_ptr[OF k2 b1] h]])
    qed (use u True mi s1 False wi s2 k in auto)
  qed (use u True mi s1 k1 in auto)
qed (use assms(2,3) in \<open>simp add: recvTimingSnoopReq_def keeps_refl\<close>)

end
