(* ===== verification/Cache_Handlers.thy ===== *)
theory Cache_Handlers
  imports Cache_Invariant
begin

text \<open>
  Every handler of the coherent cache keeps the invariant of \<open>Cache_Invariant\<close>: the response
  path (\<open>Cache_Fill\<close>), the request path and the send path (\<open>Cache_Request\<close>). A handler that
  allocates or frees a miss register \<open>evolves\<close> the cache, the operations it is made of \<open>keep\<close>
  it.
\<close>

section \<open>Fills\<close>

lemma allocateBlock_keeps:
  assumes "cx_ok good cx" "sound good A c" "allocateBlock cx p wbs c = Inr (r, wbs', c')"
  shows "keeps good A c c' \<and> (\<forall>v. r = Some v \<longrightarrow> ptr_ok c' (InTags v))"
  using allocateBlock_iso[OF assms(1) sound_tags[OF assms(2)] assms(3)]
    keeps_blocks[OF assms(2) _ allocateBlock_same[OF assms(3)]] by simp

lemma plain_set_if:
  "(if P then setCoherenceBits m b else Inr b) = Inr b' \<Longrightarrow> m AND ScratchpadBit = 0 \<Longrightarrow> m \<noteq> ScratchpadBit \<Longrightarrow>
   plain b \<Longrightarrow> plain b'"
  by (auto split: if_splits intro: plain_setI)

lemma plain_fill_blk:
  assumes "plain b" "fill_blk cx p t b = Inr b'"
  shows "plain b'"
proof -
  let ?g = "cfg cx"
  from assms(2) obtain b1 b2 b3 b6 b7 where b:
    "setCoherenceBits ReadableBit b = Inr b1"
    "(if is_l2_cache ?g \<and> t \<and> isNoL1Alloc (req p) \<and> cfL2PinKeepEnabled ?g then setCoherenceBits PinnedBit b1 else Inr b1) = Inr b2"
    "(if is_l1_cache ?g \<and> t \<and> isPinL1Keep (req p) \<and> cfL1PinKeepEnabled ?g then setCoherenceBits PinnedBit b2 else Inr b2) = Inr b3"
    "(if hasSharers p then Inr b3 else bindR (setCoherenceBits WritableBit b3) (\<lambda>b4. if cacheResponding p
       then bindR (setCoherenceBits DirtyBit b4) (\<lambda>b5. must (\<not> isReadOnly ?g) (Inr b5)) else Inr b4)) = Inr b6"
    "(if isRead (cmd p) then must (hasData (cmd p)) (must (getSize p = blkSize ?g) (updateBlockData ?g p b6)) else Inr b6) = Inr b7"
    and w: "\<exists>w. setWhenReady w b7 = Inr b'"
    unfolding fill_blk_def Let_def bindR_Inr must_Inr by blast
  have p1: "plain b1" by (rule plain_setI[OF b(1)]) (use assms(1) in auto)
  have p2: "plain b2" by (rule plain_set_if[OF b(2)]) (use p1 in auto)
  have p3: "plain b3" by (rule plain_set_if[OF b(3)]) (use p2 in auto)
  have p6: "plain b6"
  proof (cases "hasSharers p")
    case False
    with b(4) obtain b4 where w: "setCoherenceBits WritableBit b3 = Inr b4"
        "(if cacheResponding p then setCoherenceBits DirtyBit b4 else Inr b4) = Inr b6"
      by (auto split: if_splits)
    have "plain b4" by (rule plain_setI[OF w(1)]) (use p3 in auto)
    then show ?thesis by (intro plain_set_if[OF w(2)]) auto
  qed (use b(4) p3 in simp)
  have "plain b7" using b(5) p6 plain_updateBlockData by (fastforce split: if_splits)
  then show ?thesis using w plain_setWhenReady by blast
qed

lemma fill_target_keeps:
  assumes "cx_ok good cx" "sound good A c" "\<And>i. blk = Some i \<Longrightarrow> ptr_ok c (InTags i)"
    and "fill_target cx p blk wbs al c = Inr (bp, wbs', c')"
  shows "keeps good A c c' \<and> ptr_ok c' bp"
proof (cases blk)
  case None
  with assms(4) obtain v wbs1 c1 where a: "(if SPMresp p \<or> \<not> al then Inr (None, wbs, c) else allocateBlock cx p wbs c) = Inr (v, wbs1, c1)"
    and r: "(case v of Some i \<Rightarrow> Inr (InTags i, wbs1, c1)
       | None \<Rightarrow> bindR (tempBlock_insert (getAddr p) (isSecure p) c1) (\<lambda>c2. Inr (TempBlk, wbs1, c2))) = Inr (bp, wbs', c')"
    by (auto simp: fill_target_def)
  have k: "keeps good A c c1 \<and> (\<forall>i. v = Some i \<longrightarrow> ptr_ok c1 (InTags i))"
    using a allocateBlock_keeps[OF assms(1,2)] keeps_refl[OF assms(2)] by (auto split: if_splits)
  show ?thesis
  proof (cases v)
    case None
    then obtain c2 where t: "tempBlock_insert (getAddr p) (isSecure p) c1 = Inr c2" "bp = TempBlk" "c' = c2"
      using r by auto
    have "c_tags c2 = c_tags c1" using t(1) by (auto simp: tempBlock_insert_def)
    then show ?thesis using k keeps_same[of good A c c1 c2] tempBlock_insert_same[OF t(1)] t by simp
  qed (use r k in auto)
qed (use assms(2-4) keeps_refl in \<open>auto simp: fill_target_def\<close>)

lemma handleFill_keeps:
  assumes "cx_ok good cx" "sound good A c" "\<And>i. blk = Some i \<Longrightarrow> ptr_ok c (InTags i)"
    and "handleFill cx p blk wbs al c = Inr (bp, wbs', c')"
  shows "keeps good A c c' \<and> ptr_ok c' bp"
proof -
  from assms(4) obtain c1 where f: "fill_target cx p blk wbs al c = Inr (bp, wbs', c1)"
    and w: "with_blk bp (fill_blk cx p (bp \<noteq> TempBlk)) c1 = Inr c'"
    by (auto simp: handleFill_def)
  have k1: "keeps good A c c1" "ptr_ok c1 bp" using fill_target_keeps[OF assms(1-3) f] by auto
  have k2: "keeps good A c1 c'" by (rule with_blk_keeps[OF keeps_sound[OF k1(1)] k1(2) w]) (rule plain_fill_blk)
  show ?thesis using keeps_trans[OF k1(1) k2] keeps_ptr[OF k2 k1(2)] by simp
qed

section \<open>Serving targets\<close>

lemma demote_source_keeps:
  assumes "cx_ok good cx" "sound good A c" "demote_source cx bp c = Inr c'"
  shows "keeps good A c c'"
proof (cases bp)
  case (InTags i)
  with assms(3) obtain t where t: "demoteToLRU (ops cx) i (c_tags c) = Inr t" "c' = c\<lparr>c_tags := t\<rparr>"
    by (auto simp: demote_source_def)
  then show ?thesis using demoteToLRU_iso[OF assms(1) sound_tags[OF assms(2)] t(1)] by (intro keeps_blocks[OF assms(2)]) auto
qed (use assms(2,3) keeps_refl in \<open>auto simp: demote_source_def\<close>)

lemma findSPMSlot_keeps:
  assumes "sound good A c" "findSPMSlot p (c_tags c) = (r, l, t)"
  shows "keeps good A c (c\<lparr>c_tags := t\<rparr>) \<and> (\<forall>s. r = Some s \<longrightarrow> s < length (tagBlks t)) \<and>
    r = slot_idx (tagsIp (c_tags c)) (getSlot p)"
  using findSPMSlot_iso[OF sound_tags[OF assms(1)] assms(2), of "{}"]
  by (auto intro!: keeps_blocks[OF assms(1)] simp: slot_idx_def)

lemma fill_slot_keeps:
  assumes "sound good A c" "s < length (tagBlks (c_tags c))" "s \<in> slots_of (tagsIp (c_tags c)) A"
    and "with_blk (InTags s) (fill_slot off src n w) c = Inr c'"
  shows "keeps good A c c'"
proof -
  from assms(4) obtain b where b: "fill_slot off src n w (blk_at (c_tags c) s) = Inr b" "c' = c\<lparr>c_tags := upd_blk s b (c_tags c)\<rparr>"
    by (auto simp: with_blk_def)
  have "blk_wf b" using wf_fill_slot[OF tags_ok_blk[OF sound_tags[OF assms(1)] assms(2)] b(1)] .
  then have i: "iso good (slots_of (tagsIp (c_tags c)) A) (c_tags c) (c_tags c')"
    by (intro iso_upd[OF sound_tags[OF assms(1)], of _ s b]) (use b(2) assms(1,3) in \<open>auto simp: sound_def tags_ok_def\<close>)
  have e: "coherence b = coherence (blk_at (c_tags c) s)" "blkValid b = blkValid (blk_at (c_tags c) s)"
    using b(1) by (auto simp: fill_slot_def setWhenReady_def)
  then have "slot_set (c_tags c') = slot_set (c_tags c)"
    using b(2) by (auto simp: slot_set_def blk_at_def nth_update_any blk_isSet_def split: if_splits)
  moreover have "q_ok A c'" using q_ok_same[of c c' A] b(2) assms(1) by (simp add: sound_def)
  ultimately show ?thesis using i b(2) by (simp add: keeps_def evolves_def)
qed

lemma respond_spm_keeps: "keeps good A c c1 \<Longrightarrow> respond_spm cx p t c1 = Inr c' \<Longrightarrow> keeps good A c c'"
  by (auto simp: respond_spm_def intro: keeps_respond(2))

lemma service_copy_keeps:
  assumes "cx_ok good cx" "sound good A c" "getSlot tp \<in> A" "service_copy cx p tp blk c = Inr c'"
  shows "keeps good A c c'"
proof -
  from assms(4) obtain bp tgt0 tgt1 c1 where w: "blk = Some bp"
      "(if hasData (cmd tp) then Inr tp else allocate (fresh cx) tp) = Inr tgt0"
      "copy_from_line cx (get_blk c bp) tgt0 = Inr tgt1" "demote_source cx bp c = Inr c1"
    by (auto simp: service_copy_def split: option.splits)
  have sl: "getSlot tgt1 = getSlot tp"
    using w(2,3) by (auto simp: copy_from_line_def Let_def getSlot_def allocate_def split: if_splits)
  have k1: "keeps good A c c1" by (rule demote_source_keeps[OF assms(1,2) w(4)])
  obtain r l t where t: "findSPMSlot tgt1 (c_tags c1) = (r, l, t)" by (metis prod_cases3)
  let ?c2 = "c1\<lparr>c_tags := t\<rparr>"
  note f = findSPMSlot_keeps[OF keeps_sound[OF k1] t]
  have k2: "keeps good A c ?c2" using keeps_trans[OF k1] f by blast
  have ip: "tagsIp t = tagsIp (c_tags c1)" using f by (simp add: keeps_def evolves_def iso_def)
  from assms(4) w t obtain c3 where c3: "(case r of None \<Rightarrow> Inr ?c2 | Some s \<Rightarrow>
       if blk_isSet ScratchpadBit (blk_at t s)
       then bindR (getPtr tgt1) (\<lambda>d. with_blk (InTags s) (fill_slot (line_offset cx (getSlot tgt1)) d (getSpmSize tgt1)
               (clockEdge cx (fillLatency (cfg cx)))) ?c2)
       else Inr ?c2) = Inr c3" and r: "\<exists>q. respond_spm cx p q c3 = Inr c'"
    by (auto simp: service_copy_def Let_def)
  have "keeps good A c c3"
  proof (cases "c3 = ?c2")
    case False
    with c3 obtain s d where s: "r = Some s" "with_blk (InTags s) (fill_slot (line_offset cx (getSlot tgt1)) d (getSpmSize tgt1)
               (clockEdge cx (fillLatency (cfg cx)))) ?c2 = Inr c3"
      by (auto split: option.splits if_splits)
    have "slot_idx (tagsIp t) (getSlot tp) = Some s" using f s(1) sl ip by simp
    then have "s \<in> slots_of (tagsIp (c_tags ?c2)) A" using assms(3) by (force simp: slots_of_def)
    then have "keeps good A ?c2 c3" using f s by (intro fill_slot_keeps[OF keeps_sound[OF k2] _ _ s(2)]) auto
    with k2 show ?thesis by (rule keeps_trans)
  qed (use k2 in simp)
  with r show ?thesis using respond_spm_keeps by blast
qed

lemma service_spm_writeback_keeps:
  assumes "sound good A c" "\<And>bp. blk = Some bp \<Longrightarrow> ptr_ok c bp" "service_spm_writeback cx p tp blk c = Inr c'"
  shows "keeps good A c c'"
proof -
  obtain r l t where t: "findSPMSlot tp (c_tags c) = (r, l, t)" by (metis prod_cases3)
  let ?c1 = "c\<lparr>c_tags := t\<rparr>"
  have k1: "keeps good A c ?c1" using findSPMSlot_keeps[OF assms(1) t] by blast
  from assms(3) t obtain bp q off d n c2 where w: "blk = Some bp" "with_blk bp (write_line q off d n) ?c1 = Inr c2"
      "respond_spm cx p q c2 = Inr c'"
    by (cases blk; cases r) (auto simp: service_spm_writeback_def Let_def split: if_splits)
  have "keeps good A ?c1 c2"
    by (rule with_blk_keeps[OF keeps_sound[OF k1] keeps_ptr[OF k1 assms(2)[OF w(1)]] w(2)]) (rule plain_write_line)
  then show ?thesis using respond_spm_keeps[OF keeps_trans[OF k1] w(3)] by blast
qed

lemma updateLocked_wf:
  "mshr_wf m \<Longrightarrow> updateLockedRMWReadTarget p m = Inr m' \<Longrightarrow> mshr_wf m' \<and> e_inService m' = e_inService m"
  by (auto simp: updateLockedRMWReadTarget_def mshr_wf_def mshr_getNumTargets_def split: list.splits)

lemma service_from_blk_keeps:
  assumes "cx_ok good cx" "sound good A c" "ptr_ok c bp" "i \<in> set (allocatedList (mshrQueue c))"
    and "service_from_blk cx i p tp bp off c = Inr (tp', t, c')"
  shows "keeps good A c c'"
proof -
  from assms(5) obtain pd tgt1 c1 where s: "satisfyRequest cx True pd tp bp c = Inr (tgt1, c1)"
    and r: "c' = c1 \<or> (\<exists>m1. updateLockedRMWReadTarget tp (entry_at (mshrQueue c1) i) = Inr m1 \<and>
       c' = set_blk bp (clearCoherenceBits ReadableBit (clearCoherenceBits WritableBit (get_blk c1 bp)))
              (c1\<lparr>mshrQueue := upd_entry i m1 (mshrQueue c1)\<rparr>))"
    by (auto simp: service_from_blk_def Let_def split: if_splits)
  have k1: "keeps good A c c1" by (rule satisfyRequest_keeps[OF assms(1-3) s])
  show ?thesis
    using r
  proof (elim disjE exE conjE)
    fix m1
    let ?b = "clearCoherenceBits ReadableBit (clearCoherenceBits WritableBit (get_blk c1 bp))"
    let ?c2 = "c1\<lparr>mshrQueue := upd_entry i m1 (mshrQueue c1)\<rparr>"
    assume m1: "updateLockedRMWReadTarget tp (entry_at (mshrQueue c1) i) = Inr m1" and c': "c' = set_blk bp ?b ?c2"
    have a1: "i \<in> set (allocatedList (mshrQueue c1))" using keeps_allocated[OF k1 assms(4)] .
    have w: "mshr_wf (entry_at (mshrQueue c1) i) \<and> mshr_slots (entry_at (mshrQueue c1) i) \<subseteq> A"
      using q_ok_allocated keeps_sound[OF k1] a1 by (auto simp: sound_def)
    have k2: "keeps good A c1 ?c2"
      using updateLocked_wf[OF _ m1] updateLocked_slots[OF m1] w by (intro mshr_upd_keeps[OF keeps_sound[OF k1] a1]) auto
    have p1: "ptr_ok c1 bp" using keeps_ptr[OF k1 assms(3)] .
    have "bp = TempBlk \<or> plain ?b"
      using ptr_plain[OF sound_tags[OF keeps_sound[OF k1]] p1] plain_clear by blast
    then have "keeps good A ?c2 c'" unfolding c' by (intro set_blk_keeps[OF keeps_sound[OF k2] keeps_ptr[OF k2 p1]])
    then show ?thesis using keeps_trans[OF k1 keeps_trans[OF k2]] by blast
  qed (use k1 in simp)
qed

lemma service_forwarded_keeps:
  assumes "cx_ok good cx" "sound good A c" "\<And>bp. blk = Some bp \<Longrightarrow> ptr_ok c bp"
    and "service_forwarded cx p tp blk er iv c = Inr (tp', t, c')"
  shows "keeps good A c c'"
proof -
  from assms(4) have "(case blk of None \<Rightarrow> Inr c
       | Some bp \<Rightarrow> if iv \<and> blkValid (get_blk c bp) then invalidateBlock cx bp c else Inr c) = Inr c'"
    by (auto simp: service_forwarded_def)
  then show ?thesis
    using invalidateBlock_keeps[OF assms(1,2) assms(3)] keeps_refl[OF assms(2)]
    by (auto split: option.splits if_splits)
qed

lemma service_data_keeps:
  assumes "cx_ok good cx" "sound good A c" "\<And>bp. blk = Some bp \<Longrightarrow> ptr_ok c bp" "i \<in> set (allocatedList (mshrQueue c))"
    and "service_data cx i p tp blk off er iv c = Inr (tp', t, c')"
  shows "keeps good A c c'"
proof -
  consider "c' = c" | bp where "blk = Some bp" "service_from_blk cx i p tp bp off c = Inr (tp', t, c')"
    | "service_forwarded cx p tp blk er iv c = Inr (tp', t, c')"
    using assms(5) by (cases blk) (auto simp: service_data_def Let_def split: if_splits)
  then show ?thesis
    using keeps_refl[OF assms(2)] service_from_blk_keeps[OF assms(1,2) assms(3) assms(4)]
      service_forwarded_keeps[OF assms(1-3)] by cases auto
qed

lemma service_request_keeps:
  assumes "cx_ok good cx" "sound good A c" "\<And>bp. blk = Some bp \<Longrightarrow> ptr_ok c bp" "i \<in> set (allocatedList (mshrQueue c))"
    and "service_request cx i p tp blk off er iv c = Inr c'"
  shows "keeps good A c c'"
proof -
  from assms(5) obtain tp' t c1 q where s: "service_data cx i p tp blk off er iv c = Inr (tp', t, c1)"
      "c' = cpuRespond (cfg cx) q t c1"
    unfolding service_request_def Let_def by auto
  show ?thesis unfolding s(2) by (rule keeps_respond(1)[OF service_data_keeps[OF assms(1-4) s(1)]])
qed

lemma service_sw_prefetch_keeps:
  assumes "sound good A c" "\<And>bp. blk = Some bp \<Longrightarrow> ptr_ok c bp" "service_sw_prefetch cx tp blk c = Inr c'"
  shows "keeps good A c c'"
proof (cases "needsWritable (cmd tp)")
  case True
  with assms(3) obtain bp where w: "blk = Some bp" "with_blk bp (setCoherenceBits DirtyBit) c = Inr c'"
    by (auto simp: service_sw_prefetch_def split: option.splits)
  show ?thesis by (rule with_blk_keeps[OF assms(1) assms(2)[OF w(1)] w(2)]) (erule (1) plain_setI[rotated 3]; simp)
qed (use assms(1,3) keeps_refl in \<open>auto simp: service_sw_prefetch_def\<close>)

lemma service_target_keeps:
  assumes "cx_ok good cx" "sound good A c" "\<And>bp. blk = Some bp \<Longrightarrow> ptr_ok c bp" "i \<in> set (allocatedList (mshrQueue c))"
    and "copy_slots [t] \<subseteq> A" "service_target cx ns i p blk off er iv t c = Inr c'"
  shows "keeps good A c c'"
proof -
  consider (copy) "t_source t = FromCPU" "cmd (t_pkt t) = CPTOSPMReq" "service_copy cx p (t_pkt t) blk c = Inr c'"
    | (wb) "service_spm_writeback cx p (t_pkt t) blk c = Inr c'"
    | (pf) "service_sw_prefetch cx (t_pkt t) blk c = Inr c'"
    | (rq) "service_request cx i p (t_pkt t) blk off er iv c = Inr c'"
    | (hw) "c' = c"
    | (snoop) n q pv where "handleSnoop cx ns (t_pkt t) blk True pv c = Inr (n, q, c')"
    using assms(6) by (cases "t_source t") (auto simp: service_target_def Let_def split: if_splits)
  then show ?thesis
  proof cases
    case copy
    then show ?thesis using assms(5) by (intro service_copy_keeps[OF assms(1,2) _ copy(3)]) (simp add: named_slot_def)
  next
    case wb
    show ?thesis by (rule service_spm_writeback_keeps[OF assms(2,3) wb])
  next
    case pf
    show ?thesis by (rule service_sw_prefetch_keeps[OF assms(2,3) pf])
  next
    case rq
    show ?thesis by (rule service_request_keeps[OF assms(1-4) rq])
  next
    case hw
    then show ?thesis by (simp add: keeps_refl assms(2))
  next
    case snoop
    show ?thesis by (rule handleSnoop_keeps[OF assms(1-3) snoop])
  qed
qed

lemma service_targets_keeps:
  assumes "cx_ok good cx"
  shows "sound good A c \<Longrightarrow> (\<And>bp. blk = Some bp \<Longrightarrow> ptr_ok c bp) \<Longrightarrow> i \<in> set (allocatedList (mshrQueue c)) \<Longrightarrow>
    copy_slots ts \<subseteq> A \<Longrightarrow> foldR (service_target cx ns i p blk off er iv) ts c = Inr c' \<Longrightarrow> keeps good A c c'"
proof (induction ts arbitrary: c)
  case Nil
  then show ?case by (simp add: keeps_refl)
next
  case (Cons t ts)
  from Cons.prems(5) obtain c1 where c1: "service_target cx ns i p blk off er iv t c = Inr c1"
      "foldR (service_target cx ns i p blk off er iv) ts c1 = Inr c'"
    by auto
  have k: "keeps good A c c1"
    by (rule service_target_keeps[OF assms Cons.prems(1,2,3) _ c1(1)]) (use Cons.prems(4) in auto)
  have "keeps good A c1 c'"
    by (rule Cons.IH[OF keeps_sound[OF k] keeps_ptr[OF k Cons.prems(2)] keeps_allocated[OF k Cons.prems(3)] _ c1(2)])
      (use Cons.prems(4) in auto)
  with k show ?case by (rule keeps_trans)
qed

lemma after_targets_keeps:
  assumes "cx_ok good cx" "sound good A c" "\<And>bp. blk = Some bp \<Longrightarrow> ptr_ok c bp"
    and "after_targets cx i iv hc blk c = Inr c'"
  shows "keeps good A c c'"
proof (cases "hasLockedRMWReadTarget (entry_at (mshrQueue c) i)")
  case False
  let ?m = "entry_at (mshrQueue c) i"
  note u = assms(4)[unfolded after_targets_def Let_def]
  from u False obtain c1 where m: "maintainClusivity cx hc blk c = Inr c1" by auto
  have k: "keeps good A c c1" by (rule maintainClusivity_keeps[OF assms(1-3) m])
  have "c' = c1 \<or> (\<exists>bp. blk = Some bp \<and> (invalidateBlock cx bp c1 = Inr c' \<or>
      c' = set_blk bp (clearCoherenceBits WritableBit (get_blk c1 bp)) c1))"
    using u False m by (cases blk) (auto split: if_splits)
  then have "keeps good A c1 c'"
    using keeps_refl[OF keeps_sound[OF k]] invalidateBlock_keeps[OF assms(1) keeps_sound[OF k] keeps_ptr[OF k assms(3)]]
      clear_blk_keeps[OF keeps_sound[OF k] keeps_ptr[OF k assms(3)]]
    by (elim disjE exE conjE) simp_all
  with k show ?thesis by (rule keeps_trans)
qed (use assms(2,4) in \<open>simp add: after_targets_def Let_def keeps_refl\<close>)

lemma serviceMSHRTargets_keeps:
  assumes "cx_ok good cx" "sound good A c" "\<And>bp. blk = Some bp \<Longrightarrow> ptr_ok c bp" "i \<in> set (allocatedList (mshrQueue c))"
    and "serviceMSHRTargets cx ns i p blk c = Inr c'"
  shows "keeps good A c c'"
proof -
  let ?m = "entry_at (mshrQueue c) i"
  note u = assms(5)[unfolded serviceMSHRTargets_def Let_def]
  from u obtain it m1 ts m2 c1 where it: "mshr_getTarget ?m = Inr it"
    and m1: "(if cmd p = LockedRMWWriteResp then must (cmd (t_pkt it) = LockedRMWReadReq) (Inr (mshr_popTarget ?m)) else Inr ?m) = Inr m1"
    and m2: "extractServiceableTargets p m1 = Inr (ts, m2)"
    and c1: "foldR (service_target cx ns i p blk (unat (getOffset (blkSize (cfg cx)) (t_pkt it))) (isError (cmd p))
        (isInvalidate (cmd p) \<and> \<not> wasWholeLineWrite ?m)) (tl_targets ts)
        (c\<lparr>mshrQueue := upd_entry i m2 (mshrQueue c)\<rparr>) = Inr c1"
    and r: "after_targets cx i (isInvalidate (cmd p) \<and> \<not> wasWholeLineWrite ?m) (tl_hasFromCache ts) blk
        (case blk of Some bp \<Rightarrow> if \<not> list_ex (\<lambda>t. t_source t = FromCPU) (tl_targets ts) \<and>
              list_ex (\<lambda>t. t_source t = FromPrefetcher) (tl_targets ts)
            then set_blk bp (setPrefetched (get_blk c1 bp)) c1 else c1
          | None \<Rightarrow> c1) = Inr c'"
    by auto
  have w: "mshr_wf ?m" "mshr_slots ?m \<subseteq> A" using q_ok_allocated assms(2,4) by (auto simp: sound_def)
  have ht: "mshr_hasTargets ?m" using it by (simp add: mshr_getTarget_def)
  have w1: "mshr_wf m1 \<and> e_inService m1 = e_inService ?m" "mshr_slots m1 \<subseteq> A"
    using m1 mshr_popTarget_wf[OF w(1) ht] mshr_popTarget_slots[of ?m] w by (auto split: if_splits)
  have w2: "mshr_wf m2 \<and> e_inService m2 = e_inService m1"
    using mq_entry_step_wf[OF mq_entry_stepI(3)[OF m2]] w1 by blast
  note sl = extract_slots[OF m2]
  let ?c0 = "c\<lparr>mshrQueue := upd_entry i m2 (mshrQueue c)\<rparr>"
  have k0: "keeps good A c ?c0" using w1 w2 sl(2) by (intro mshr_upd_keeps[OF assms(2,4)]) auto
  have k1: "keeps good A ?c0 c1"
    by (rule service_targets_keeps[OF assms(1) keeps_sound[OF k0] keeps_ptr[OF k0 assms(3)] keeps_allocated[OF k0 assms(4)] _ c1])
      (use sl(1) w1(2) in auto)
  note k = keeps_trans[OF k0 k1]
  define c2 where "c2 = (case blk of Some bp \<Rightarrow> if \<not> list_ex (\<lambda>t. t_source t = FromCPU) (tl_targets ts) \<and>
              list_ex (\<lambda>t. t_source t = FromPrefetcher) (tl_targets ts)
            then set_blk bp (setPrefetched (get_blk c1 bp)) c1 else c1
          | None \<Rightarrow> c1)"
  have pf: "keeps good A c1 (set_blk bp (setPrefetched (get_blk c1 bp)) c1)" if "blk = Some bp" for bp
    by (rule set_blk_keeps[OF keeps_sound[OF k] keeps_ptr[OF k assms(3)[OF that]]])
      (use ptr_plain[OF sound_tags[OF keeps_sound[OF k]] keeps_ptr[OF k assms(3)[OF that]]] in
        \<open>auto simp: setPrefetched_def plain_def blk_wf_def\<close>)
  have k2: "keeps good A c1 c2" using pf keeps_refl[OF keeps_sound[OF k]] by (cases blk) (auto simp: c2_def)
  note kk = keeps_trans[OF k k2]
  have "keeps good A c2 c'"
    by (rule after_targets_keeps[OF assms(1) keeps_sound[OF kk] keeps_ptr[OF kk assms(3)] r[folded c2_def]])
  with kk show ?thesis by (rule keeps_trans)
qed

section \<open>Responses\<close>

lemma promote_targets_keeps:
  assumes "sound good A c" "\<And>bp. blk = Some bp \<Longrightarrow> ptr_ok c bp" "i \<in> set (allocatedList (mshrQueue c))"
    and "promote_targets i p blk c = Inr c'"
  shows "keeps good A c c'"
proof (cases "c' = c")
  case False
  note u = assms(4)[unfolded promote_targets_def]
  from u False obtain bp c2 where bp: "blk = Some bp" and c2: "(if blkValid (get_blk c bp) \<and> isClean (cmd p) \<and> \<not> isInvalidate (cmd p)
       then bindR (with_blk bp (setCoherenceBits ReadableBit) c) (\<lambda>c1.
            bindR (promoteReadable (upPending c1) (entry_at (mshrQueue c1) i)) (\<lambda>(up, m).
              Inr (c1\<lparr>mshrQueue := upd_entry i m (mshrQueue c1), upPending := up\<rparr>)))
       else Inr c) = Inr c2"
    and r: "(if blk_isSet WritableBit (get_blk c2 bp) \<and> \<not> isCacheInvalidate (req p)
       then bindR (promoteWritable (upPending c2) (entry_at (mshrQueue c2) i)) (\<lambda>(up, m).
              Inr (c2\<lparr>mshrQueue := upd_entry i m (mshrQueue c2), upPending := up\<rparr>))
       else Inr c2) = Inr c'"
    by (auto split: option.splits if_splits)
  have k2: "keeps good A c c2"
  proof (cases "c2 = c")
    case False
    with c2 obtain c1 up m where w: "with_blk bp (setCoherenceBits ReadableBit) c = Inr c1"
        "promoteReadable (upPending c1) (entry_at (mshrQueue c1) i) = Inr (up, m)"
        "c2 = c1\<lparr>mshrQueue := upd_entry i m (mshrQueue c1), upPending := up\<rparr>"
      by (auto split: if_splits)
    have k1: "keeps good A c c1"
      by (rule with_blk_keeps[OF assms(1) assms(2)[OF bp] w(1)]) (erule (1) plain_setI[rotated 3]; simp)
    have "keeps good A c1 (c1\<lparr>mshrQueue := upd_entry i m (mshrQueue c1)\<rparr>)"
      by (rule mshr_step_keeps[OF keeps_sound[OF k1] keeps_allocated[OF k1 assms(3)] mq_entry_stepI(4)[OF w(2)]])
        (use promote_slots(1)[OF w(2)] in simp)
    from keeps_same[OF keeps_trans[OF k1 this], of c2] show ?thesis by (simp add: w(3) same_queues_def)
  qed (simp add: keeps_refl assms(1))
  show ?thesis
  proof (cases "c' = c2")
    case False
    with r obtain up m where w: "promoteWritable (upPending c2) (entry_at (mshrQueue c2) i) = Inr (up, m)"
        "c' = c2\<lparr>mshrQueue := upd_entry i m (mshrQueue c2), upPending := up\<rparr>"
      by (auto split: if_splits)
    have "keeps good A c2 (c2\<lparr>mshrQueue := upd_entry i m (mshrQueue c2)\<rparr>)"
      by (rule mshr_step_keeps[OF keeps_sound[OF k2] keeps_allocated[OF k2 assms(3)] mq_entry_stepI(5)[OF w(1)]])
        (use promote_slots(2)[OF w(1)] in simp)
    from keeps_same[OF keeps_trans[OF k2 this], of c'] show ?thesis by (simp add: w(2) same_queues_def)
  qed (use k2 in simp)
qed (simp add: keeps_refl assms(1))

lemma retire_mshr_evolves:
  assumes "sound good A c" "\<And>bp. blk = Some bp \<Longrightarrow> ptr_ok c bp" "i \<in> set (allocatedList (mshrQueue c))"
    and "noTargetMSHR c \<noteq> Some i" "retire_mshr cx i p blk c = Inr c'"
  shows "evolves good A c c'"
proof -
  note u = assms(5)[unfolded retire_mshr_def Let_def]
  from u obtain b m where m: "promoteDeferredTargets (curTick cx) (entry_at (mshrQueue c) i) = Inr (b, m)" by auto
  let ?c1 = "c\<lparr>mshrQueue := upd_entry i m (mshrQueue c)\<rparr>"
  have w: "mshr_wf (entry_at (mshrQueue c) i)" using q_ok_allocated assms(1,3) by (auto simp: sound_def)
  have k1: "keeps good A c ?c1"
    by (rule mshr_step_keeps[OF assms(1,3) mq_entry_stepI(6)[OF m]]) (use promote_slots(3)[OF w m] in simp)
  show ?thesis
  proof (cases b)
    case True
    define c2 where "c2 = (case blk of None \<Rightarrow> ?c1 | Some bp \<Rightarrow> set_blk bp (clearCoherenceBits ReadableBit (get_blk ?c1 bp)) ?c1)"
    have "keeps good A ?c1 c2"
      using keeps_refl[OF keeps_sound[OF k1]] clear_blk_keeps[OF keeps_sound[OF k1] keeps_ptr[OF k1 assms(2)]]
      by (cases blk) (auto simp: c2_def)
    note k2 = keeps_trans[OF k1 this]
    from u m True obtain q t where q: "mq_markPending i (mshrQueue c2) = Inr q" "c' = schedMemSideSendEvent t (c2\<lparr>mshrQueue := q\<rparr>)"
      by (auto simp: c2_def)
    have ok2: "q_ok A c2" using keeps_sound[OF k2] by (simp add: sound_def)
    then have mq: "mq_ok A (mshrQueue c2)" by (simp add: q_ok_def)
    have a2: "i \<in> set (allocatedList (mshrQueue c2))" using keeps_allocated[OF k2 assms(3)] .
    note r = mq_ok_markPending[OF mq a2 q(1)]
    have al: "allocatedList q = allocatedList (mshrQueue c2)"
    proof -
      have inv: "mq_inv (mshrQueue c2)" using mq by (simp add: mq_ok_def)
      have "e_inService (entry_at (mshrQueue c2) i)" using q(1) by (simp add: mq_markPending_def)
      then show ?thesis using mq_markPending_inv[OF inv a2] q(1) by (metis sum.inject(2))
    qed
    have "flow_ok (c2\<lparr>mshrQueue := q\<rparr>)"
      by (rule flow_ok_cong[of c2]) (use ok2 isFull_cong[OF r(2,3)] in \<open>simp_all add: q_ok_def\<close>)
    then have "q_ok A (c2\<lparr>mshrQueue := q\<rparr>)" using ok2 r(1) al by (simp add: q_ok_def)
    then have "q_ok A c'" using q(2) by simp
    moreover have "c_tags c' = c_tags c2" using q(2) by simp
    ultimately show ?thesis using keeps_evolves[OF k2] by (simp add: evolves_def)
  next
    case False
    from u m False obtain q where q: "mq_deallocate i (mshrQueue ?c1) = Inr q"
      and r: "(if isFull (mshrQueue ?c1) \<and> \<not> isFull (mshrQueue (?c1\<lparr>mshrQueue := q\<rparr>))
        then clearBlocked (curTick cx) Blocked_NoMSHRs (?c1\<lparr>mshrQueue := q\<rparr>) else Inr (?c1\<lparr>mshrQueue := q\<rparr>)) = Inr c'"
      by auto
    have ok1: "q_ok A ?c1" using keeps_sound[OF k1] by (simp add: sound_def)
    then have mq: "mq_ok A (mshrQueue ?c1)" and f: "flow_ok ?c1" by (auto simp: q_ok_def)
    have a1: "i \<in> set (allocatedList (mshrQueue ?c1))" using assms(3) by simp
    note d = mq_ok_deallocate[OF mq a1 q]
    have less: "isFull (mshrQueue (?c1\<lparr>mshrQueue := q\<rparr>)) \<Longrightarrow> isFull (mshrQueue ?c1)"
      using d(2,3) by (simp add: isFull_def same_size_def)
    have l: "flow_ok c' \<and> mshrQueue c' = mshrQueue (?c1\<lparr>mshrQueue := q\<rparr>) \<and> writeBuffer c' = writeBuffer (?c1\<lparr>mshrQueue := q\<rparr>) \<and>
        noTargetMSHR c' = noTargetMSHR (?c1\<lparr>mshrQueue := q\<rparr>)"
      by (rule lower_mshr_flag[OF f less _ _ _ _ r]) simp_all
    have al: "allocatedList q = remove1 i (allocatedList (mshrQueue c))"
      using mq.deallocate_inv(2)[OF _ a1 q[unfolded mq_deallocate_def]] mq by (simp add: mq_ok_def)
    have "q_ok A c'" using l ok1 d(1) assms(4) by (auto simp: q_ok_def al in_set_remove1)
    moreover have "c_tags c' = c_tags c" using r clearBlocked_tags by (fastforce split: if_splits)
    ultimately show ?thesis using assms(1) by (simp add: evolves_def sound_def iso_refl)
  qed
qed

lemma evict_temp_keeps:
  assumes "cx_ok good cx" "sound good A c" "evict_temp cx blk wbs c = Inr (wbs', c')"
  shows "keeps good A c c'"
  using assms(3) keeps_refl[OF assms(2)] evictBlock_keeps[OF assms(1,2), of TempBlk]
  by (auto simp: evict_temp_def split: if_splits)

lemma resp_fill_keeps:
  assumes "cx_ok good cx" "sound good A c" "\<And>j. blk = Some j \<Longrightarrow> ptr_ok c (InTags j)"
    and "resp_fill cx i p blk c = Inr (bp, wbs, c')"
  shows "keeps good A c c' \<and> (\<forall>x. bp = Some x \<longrightarrow> ptr_ok c' x)"
proof -
  consider "c' = c" "bp = map_option InTags blk"
    | x al where "handleFill cx p blk [] al c = Inr (x, wbs, c')" "bp = Some x"
    using assms(4) by (auto simp: resp_fill_def Let_def split: if_splits)
  then show ?thesis
    using keeps_refl[OF assms(2)] assms(3) handleFill_keeps[OF assms(1-3)] by cases auto
qed

lemma mshr_response_evolves:
  assumes "cx_ok good cx" "sound good A c" "i \<in> set (allocatedList (mshrQueue c))" "noTargetMSHR c \<noteq> Some i"
    and "mshr_response cx ns i p c = Inr c'"
  shows "evolves good A c c'"
proof -
  note u = assms(5)[unfolded mshr_response_def Let_def]
  from u obtain p1 bp wbs c1 c2 c3 wbs1 c4 t where
      f: "resp_fill cx i p1 (findBlock (getAddr p) (isSecure p) (c_tags c)) c = Inr (bp, wbs, c1)"
    and pr: "promote_targets i p1 bp c1 = Inr c2" and sv: "serviceMSHRTargets cx ns i p1 bp c2 = Inr c3"
    and rt: "(if hasLockedRMWReadTarget (entry_at (mshrQueue c3) i) then Inr (wbs, c3)
        else bindR (retire_mshr cx i p1 bp c3) (evict_temp cx bp wbs)) = Inr (wbs1, c4)"
    and wb: "doWritebacks cx ns wbs1 t c4 = Inr c'"
    unfolding bindR_Inr must_Inr by (fastforce simp del: doWritebacks.simps)
  have pf: "ptr_ok c (InTags j)" if "findBlock (getAddr p) (isSecure p) (c_tags c) = Some j" for j
    using findBlock_ptr[OF assms(2), of "getAddr p" "isSecure p" "InTags j"] that by simp
  have k1: "keeps good A c c1" "\<And>x. bp = Some x \<Longrightarrow> ptr_ok c1 x" using resp_fill_keeps[OF assms(1,2) pf f] by auto
  have k2: "keeps good A c1 c2"
    by (rule promote_targets_keeps[OF keeps_sound[OF k1(1)] k1(2) keeps_allocated[OF k1(1) assms(3)] pr])
  note k12 = keeps_trans[OF k1(1) k2]
  have k3: "keeps good A c2 c3"
    by (rule serviceMSHRTargets_keeps[OF assms(1) keeps_sound[OF k12] keeps_ptr[OF k2 k1(2)] keeps_allocated[OF k12 assms(3)] sv])
  note k = keeps_trans[OF k12 k3]
  have p3: "ptr_ok c3 x" if "bp = Some x" for x using keeps_ptr[OF keeps_trans[OF k2 k3] k1(2)[OF that]] .
  have n3: "noTargetMSHR c3 \<noteq> Some i" using k assms(4) by (simp add: keeps_def)
  have e4: "evolves good A c c4"
  proof (cases "hasLockedRMWReadTarget (entry_at (mshrQueue c3) i)")
    case True
    then show ?thesis using rt keeps_evolves[OF k] by simp
  next
    case False
    then obtain c5 where c5: "retire_mshr cx i p1 bp c3 = Inr c5" "evict_temp cx bp wbs c5 = Inr (wbs1, c4)"
      using rt by auto
    have e5: "evolves good A c3 c5"
      by (rule retire_mshr_evolves[OF keeps_sound[OF k] p3 keeps_allocated[OF k assms(3)] n3 c5(1)])
    have "keeps good A c5 c4" by (rule evict_temp_keeps[OF assms(1) evolves_sound[OF e5] c5(2)])
    then show ?thesis using evolves_trans[OF keeps_evolves[OF k] evolves_trans[OF e5 keeps_evolves]] by blast
  qed
  show ?thesis by (rule evolves_trans[OF e4 keeps_evolves[OF doWritebacks_keeps[OF evolves_sound[OF e4] wb]]])
qed

lemma clear_noTarget:
  assumes "sound good A c" "noTargetMSHR c = Some i" "clearBlocked tk Blocked_NoTargets c = Inr c1"
  shows "evolves good A c (c1\<lparr>noTargetMSHR := None\<rparr>) \<and> mshrQueue c1 = mshrQueue c"
proof -
  let ?c = "c1\<lparr>noTargetMSHR := None\<rparr>"
  have ok: "q_ok A c" using assms(1) by (simp add: sound_def)
  then have f: "flow_ok c" by (simp add: q_ok_def)
  note cl = clearBlocked_ok[OF assms(3) f refl refl]
  have "flow_ok ?c" using cl by (auto simp: flow_ok_def block_flags_def flag_word_simps)
  then have "q_ok A ?c" using ok cl by (simp add: q_ok_def)
  then show ?thesis using cl assms(1) clearBlocked_tags[OF assms(3)] by (simp add: evolves_def sound_def iso_refl)
qed

lemma target_allocated:
  assumes "sound good A c" "i < numEntries (mshrQueue c)" "mshr_getTarget (entry_at (mshrQueue c) i) = Inr t"
  shows "i \<in> set (allocatedList (mshrQueue c))"
proof -
  have inv: "mq_inv (mshrQueue c)" using assms(1) by (simp add: sound_def q_ok_def mq_ok_def)
  have "mshr_getNumTargets (entry_at (mshrQueue c) i) \<noteq> 0"
    using assms(3) by (simp add: mshr_getTarget_def mshr_hasTargets_def mshr_getNumTargets_def)
  then have "i \<notin> set (freeList (mshrQueue c))" using inv by (auto simp: queue_inv_def)
  moreover have "i \<in> set (allocatedList (mshrQueue c) @ freeList (mshrQueue c))"
    using inv assms(2) by (auto simp: queue_inv_def queue_wf_def)
  ultimately show ?thesis by simp
qed

text \<open>A response is for a register of this cache.\<close>

definition own_response :: "'s cache \<Rightarrow> packet \<Rightarrow> bool" where
  "own_response c pkt \<longleftrightarrow>
     (case senderState pkt of MSHR_state i # _ \<Rightarrow> i < numEntries (mshrQueue c) | _ \<Rightarrow> True)"

lemma recvTimingResp_evolves:
  assumes "cx_ok good cx" "sound good A c" "own_response c p" "recvTimingResp cx ns p c = Inr c'"
  shows "evolves good A c c'"
proof (cases "isWrite (cmd p) \<and> cmd p \<noteq> LockedRMWWriteResp")
  case True
  then have "c' = handleUncacheableWriteResp cx p c" using assms(4) by (auto simp: recvTimingResp_def)
  then show ?thesis
    using keeps_evolves[OF keeps_respond(1)[OF keeps_refl[OF assms(2)]]] by (simp add: handleUncacheableWriteResp_def)
next
  case False
  with assms(4) obtain st p1 where st: "popSenderState p = Inr (st, p1)" by (auto simp: recvTimingResp_def)
  with assms(4) False obtain i where i: "st = MSHR_state i" by (cases st) (auto simp: recvTimingResp_def)
  from assms(4) False st i obtain c1 where c1: "(if noTargetMSHR c = Some i
       then bindR (clearBlocked (curTick cx) Blocked_NoTargets c) (\<lambda>c1. Inr (c1\<lparr>noTargetMSHR := None\<rparr>)) else Inr c) = Inr c1"
    and r: "mshr_response cx ns i p1 c1 = Inr c'"
    by (auto simp: recvTimingResp_def)
  have n: "i < numEntries (mshrQueue c)"
    using assms(3) st i by (auto simp: own_response_def popSenderState_def split: list.splits)
  have e1: "evolves good A c c1 \<and> mshrQueue c1 = mshrQueue c \<and> noTargetMSHR c1 \<noteq> Some i"
    using c1 clear_noTarget[OF assms(2)] keeps_evolves[OF keeps_refl[OF assms(2)]] by (auto split: if_splits)
  obtain t where "mshr_getTarget (entry_at (mshrQueue c1) i) = Inr t" using r by (auto simp: mshr_response_def)
  then have "i \<in> set (allocatedList (mshrQueue c1))"
    using e1 n by (intro target_allocated[OF evolves_sound]) auto
  with e1 mshr_response_evolves[OF assms(1) evolves_sound _ _ r] show ?thesis using evolves_trans by blast
qed

section \<open>The access path leaves the queues alone\<close>

abbreviation fsame :: "'s frame \<Rightarrow> 's frame \<Rightarrow> bool" where
  "fsame f f' \<equiv> same_queues (f_cache f) (f_cache f')"

lemma fsame_basic [simp]:
  "fsame f (f_with_tags t g) = fsame f g" "fsame f (tag_only cx l g) = fsame f g"
  "fsame (f_with_tags t f) g = fsame f g" "same_queues (c\<lparr>c_tags := t\<rparr>) c' = same_queues c c'"
  by (simp_all add: f_with_tags_def same_queues_def)

lemma f_with_blk_fsame: "f_with_blk i h f = Inr f' \<Longrightarrow> fsame f f'"
  by (auto simp: f_with_blk_def dest: with_blk_same)

lemma f_findSPMSlot_fsame: "f_findSPMSlot f = (r, l, f') \<Longrightarrow> fsame f f'"
  by (auto simp: f_findSPMSlot_def split: prod.splits)

lemma count_same: "incMissCount cx p c = Inr c' \<Longrightarrow> same_queues c c'" "incHitCount cx p c = Inr c' \<Longrightarrow> same_queues c c'"
  by (auto simp: incMissCount_def incHitCount_def)

lemma vacate_slot_fsame: "vacate_slot cx s f = Inr (ok, f') \<Longrightarrow> fsame f f'"
  by (auto simp: vacate_slot_def Let_def split: if_splits dest!: handleEvictions_same f_with_blk_fsame
      intro: same_queues_trans)

lemmas fsame_dest = f_with_blk_fsame vacate_slot_fsame count_same allocateBlock_same satisfyRequest_same maintainClusivity_same

lemma l2_copy_found_fsame: "l2_copy_found cx sl s f = Inr (b, f') \<Longrightarrow> fsame f f'"
  unfolding l2_copy_found_def Let_def
  by (auto split: if_splits dest!: fsame_dest) (simp_all add: same_queues_def)

lemma l2_copy_missing_fsame: "l2_copy_missing cx sl s f = Inr (b, f') \<Longrightarrow> fsame f f'"
  unfolding l2_copy_missing_def
  by (auto split: if_splits dest!: fsame_dest intro: same_queues_trans)

lemma l2_copy_source_fsame: "l2_copy_source cx l f = Inr (sl, f') \<Longrightarrow> fsame f f'"
  unfolding l2_copy_source_def by (auto split: if_splits option.splits)

lemma l2_copy_access_fsame:
  assumes "l2_copy_access cx sl f = Inr (b, f')"
  shows "fsame f f'"
proof -
  let ?f = "f\<lparr>f_pkt := (f_pkt f)\<lparr>SPMresp := True\<rparr>\<rparr>"
  obtain r l f1 where f1: "f_findSPMSlot ?f = (r, l, f1)" by (metis prod_cases3)
  with assms obtain s where "l2_copy_found cx sl s f1 = Inr (b, f') \<or> l2_copy_missing cx sl s f1 = Inr (b, f')"
    by (cases r) (auto simp: l2_copy_access_def split: if_splits)
  then have "fsame f1 f'" using l2_copy_found_fsame l2_copy_missing_fsame by blast
  with f_findSPMSlot_fsame[OF f1] show ?thesis by (auto intro: same_queues_trans)
qed

lemma l2_writeback_access_fsame:
  assumes "l2_writeback_access cx f = Inr (r, l, f')"
  shows "fsame f f'"
proof -
  let ?f = "f\<lparr>f_pkt := (f_pkt f)\<lparr>SPMresp := True\<rparr>\<rparr>"
  obtain sl l0 f0 where f0: "f_findSPMSlot ?f = (sl, l0, f0)" by (metis prod_cases3)
  from assms f0 obtain d p where w: "l2_writeback_line cx d l0 (f0\<lparr>f_pkt := p\<rparr>) = Inr (r, l, f')"
    by (cases sl) (auto simp: l2_writeback_access_def Let_def)
  let ?g = "f0\<lparr>f_pkt := p\<rparr>"
  have al: "fsame ?g f'" if "l2_writeback_alloc cx d l0 ?g = Inr (r, l, f')"
    using that by (auto simp: l2_writeback_alloc_def Let_def split: option.splits dest!: fsame_dest)
        (simp_all add: same_queues_def)
  have "fsame ?g f'"
    using w al by (auto simp: l2_writeback_line_def l2_writeback_hit_def Let_def split: option.splits if_splits dest!: fsame_dest)
  with f_findSPMSlot_fsame[OF f0] show ?thesis by (auto intro: same_queues_trans)
qed

lemma spm_store_loop_fsame: "spm_store_loop cx d a w is k l f = Inr (b, f') \<Longrightarrow> fsame f f'"
proof (induction "is" arbitrary: k l f)
  case Nil
  then show ?case by auto
next
  case (Cons i "is")
  let ?base = "(a div of_nat (blkSize (cfg cx))) * of_nat (blkSize (cfg cx))"
  show ?case
  proof (cases "w + i \<ge> getWayAllocationMax (f_tags f)")
    case True
    then show ?thesis using Cons.prems by (simp add: Let_def)
  next
    case False
    then obtain pkt where p: "setSlot (slot_addr_of cx ?base (w + i) f) (f_pkt f) = Inr pkt"
      using Cons.prems by (auto simp: Let_def)
    obtain r l1 f1 where f1: "f_findSPMSlot (f\<lparr>f_pkt := pkt\<rparr>) = (r, l1, f1)" by (metis prod_cases3)
    obtain off n where oc: "chunk_at cx (unat (a mod of_nat (blkSize (cfg cx)))) (getSize pkt) i k = (off, n)"
      by (metis surj_pair)
    have s1: "fsame f f1" using f_findSPMSlot_fsame[OF f1] by simp
    show ?thesis
    proof (cases "f_cache f' = f_cache f1")
      case F: False
      with Cons.prems False p f1 oc obtain s f2 where s: "f_with_blk s (fill_slot off (drop k d) n (slot_ready_at cx l1 pkt)) f1 = Inr f2"
        and rest: "spm_store_loop cx d a w [] (k + n) l1 f2 = Inr (b, f') \<or> spm_store_loop cx d a w is (k + n) l1 f2 = Inr (b, f')"
        by (cases r) (auto simp del: spm_store_loop.simps(1) simp: Let_def split: if_splits)
      have "fsame f2 f'" using rest Cons.IH[of "k + n" l1 f2] by auto
      then show ?thesis using same_queues_trans[OF s1 same_queues_trans[OF f_with_blk_fsame[OF s]]] by blast
    qed (use s1 in simp)
  qed
qed

lemma spm_load_slots_fsame: "spm_load_slots cx a w is ss l f = Inr (r, l', f') \<Longrightarrow> fsame f f'"
proof (induction "is" arbitrary: ss l f)
  case Nil
  then show ?case by auto
next
  case (Cons i "is")
  then obtain pkt where p: "setSlot (slot_addr_of cx a (w + i) f) (f_pkt f) = Inr pkt" by (auto simp: Let_def)
  obtain s l1 f1 where f1: "f_findSPMSlot (f\<lparr>f_pkt := pkt\<rparr>) = (s, l1, f1)" by (metis prod_cases3)
  have s1: "fsame f f1" using f_findSPMSlot_fsame[OF f1] by simp
  show ?case
  proof (cases "f_cache f' = f_cache f1")
    case False
    with Cons.prems p f1 obtain s' where "spm_load_slots cx a w is s' l1 f1 = Inr (r, l', f')"
      by (cases s) (auto simp: Let_def split: if_splits)
    from same_queues_trans[OF s1 Cons.IH[OF this]] show ?thesis .
  qed (use s1 in simp)
qed

lemma l2_ldst_access_fsame:
  assumes "l2_ldst_access cx l f = Inr (b, f')"
  shows "fsame f f'"
proof -
  from assms obtain pkt where p: "setSlot (getAddr (f_pkt f)) ((f_pkt f)\<lparr>SPM_LDST_resp := True\<rparr>) = Inr pkt"
    by (auto simp: l2_ldst_access_def)
  consider d a w xs where "spm_store_loop cx d a w xs 0 l (f\<lparr>f_pkt := pkt\<rparr>) = Inr (b, f')"
    | a w n where "l2_load_access cx l a w n (f\<lparr>f_pkt := pkt\<rparr>) = Inr (b, f')"
    using assms p by (auto simp: l2_ldst_access_def Let_def split: if_splits)
  then show ?thesis
  proof cases
    case 1
    from spm_store_loop_fsame[OF this] show ?thesis by simp
  next
    case 2
    then obtain base r l' f1 where "spm_load_slots cx base w [0..<n] [] l (f\<lparr>f_pkt := pkt\<rparr>) = Inr (r, l', f1)"
        "f_cache f' = f_cache f1"
      by (auto simp: l2_load_access_def Let_def split: option.splits)
    with spm_load_slots_fsame show ?thesis by fastforce
  qed
qed

lemma l1_spm_access_fsame: "l1_spm_access cx l f = Inr (b, f') \<Longrightarrow> fsame f f'"
  by (auto simp: l1_spm_access_def split: option.splits)

section \<open>The access path keeps the invariant\<close>

lemma writeback_blk_fsame: "writeback_blk cx f = Inr f' \<Longrightarrow> fsame f f'"
  unfolding writeback_blk_def Let_def
  by (auto split: option.splits dest!: fsame_dest) (simp add: same_queues_def)

lemma writeback_tail_fsame:
  assumes "bindR (writeback_blk cx f) (\<lambda>f1.
        case f_blk f1 of
          None \<Rightarrow> bindR (incMissCount cx p (f_cache f1)) (\<lambda>c. Inr (False, f1\<lparr>f_cache := c\<rparr>))
        | Some i \<Rightarrow> bindR (f_with_blk i (take_writeback cx l d w p) f1) (\<lambda>f2.
            bindR (incHitCount cx p (f_cache f2)) (\<lambda>c. Inr (r, f2\<lparr>f_cache := c\<rparr>)))) = Inr (b, f')"
  shows "fsame f f'"
proof -
  from assms obtain f1 where f1: "writeback_blk cx f = Inr f1" by auto
  have "fsame f1 f'"
    using assms f1 by (cases "f_blk f1") (auto dest!: fsame_dest intro: same_queues_trans)
  with writeback_blk_fsame[OF f1] show ?thesis by (rule same_queues_trans)
qed

lemma access_dispatch_fsame:
  assumes "access_dispatch cx l f = Inr (b, f')"
  shows "fsame f f'"
proof (cases "f' = f")
  case False
  from assms consider (same) "f_cache f' = f_cache f" | (wb) "access_writeback cx l f = Inr (b, f')"
    | (wc) "access_writeclean cx l f = Inr (b, f')" | (hit) i where "access_hit cx l i f = Inr (b, f')"
    | (miss) "access_miss cx l f = Inr (b, f')"
    by (auto simp: access_dispatch_def Let_def split: if_splits option.splits)
  then show ?thesis
  proof cases
    case wb
    show ?thesis
      by (rule writeback_tail_fsame) (use wb False in \<open>auto simp: access_writeback_def Let_def split: if_splits\<close>)
  next
    case wc
    show ?thesis
      by (rule writeback_tail_fsame) (use wc False in \<open>auto simp: access_writeclean_def Let_def split: if_splits\<close>)
  next
    case hit
    then show ?thesis by (auto simp: access_hit_def dest!: fsame_dest) (simp add: same_queues_def)
  next
    case miss
    then show ?thesis by (auto simp: access_miss_def Let_def split: if_splits dest!: count_same)
  qed simp
qed simp

lemma keeps_q: "keeps good A c c' \<Longrightarrow> q_ok A c'"
  by (simp add: keeps_def evolves_def)

lemma buffered_eviction_q:
  assumes "sound good A (f_cache f)" "access_buffered_eviction cx l f = Inr (b, f')"
  shows "q_ok A (f_cache f')"
proof (cases "f_cache f' = f_cache f")
  case True
  then show ?thesis using assms(1) by (simp add: sound_def)
next
  case False
  let ?c = "f_cache f"
  from False assms(2) obtain m where m: "wq_findMatch (getAddr (f_pkt f)) (isSecure (f_pkt f)) (writeBuffer ?c) = Inr m"
    unfolding access_buffered_eviction_def Let_def by (auto split: if_splits)
  with False assms(2) obtain j where j: "m = Some j"
    and r: "f_cache f' = ?c\<lparr>writeBuffer := upd_entry j (upd_front_pkt clearBlockCached (entry_at (writeBuffer ?c) j)) (writeBuffer ?c)\<rparr> \<or>
      markInService_wq cx j ?c = Inr (f_cache f')"
    by (cases m) (auto simp: access_buffered_eviction_def Let_def split: if_splits)
  have a: "j \<in> set (allocatedList (writeBuffer ?c))" using wq_findMatch_allocated m j by blast
  show ?thesis
    using r keeps_q[OF wq_front_keeps[OF assms(1)]] keeps_q[OF markInService_wq_keeps[OF assms(1) a]] by auto
qed

lemma access_common_q:
  assumes "sound good A (f_cache f)" "access_common cx l f = Inr (b, f')"
  shows "q_ok A (f_cache f')"
proof (cases "isCacheMaintenance (req (f_pkt f))")
  case True
  then show ?thesis using assms by (auto simp: access_common_def sound_def)
next
  case False
  then obtain sunk f0 where f0: "access_buffered_eviction cx l f = Inr (sunk, f0)"
    using assms(2) by (auto simp: access_common_def)
  have q0: "q_ok A (f_cache f0)" by (rule buffered_eviction_q[OF assms(1) f0])
  from False f0 assms(2) have "f' = f0 \<or>
      access_dispatch cx l (if isWrite (cmd (f_pkt f0)) then tag_only cx l f0 else f0) = Inr (b, f')"
    by (auto simp: access_common_def split: if_splits)
  then have "fsame f0 f'" using access_dispatch_fsame by (fastforce split: if_splits)
  with q0 q_ok_same show ?thesis by blast
qed

lemma access_spm_l2_q:
  assumes "cx_ok good cx" "f_ok good f" "q_ok A (f_cache f)" "access_spm_l2 cx l f = Inr (b, f')"
  shows "q_ok A (f_cache f')"
proof -
  from assms(4) obtain sl f1 where f1: "l2_copy_source cx l f = Inr (sl, f1)" by (auto simp: access_spm_l2_def)
  have s1: "fsame f f1" by (rule l2_copy_source_fsame[OF f1])
  have i: "fiso good {} f f1" "f_blk f1 = f_blk f" using l2_copy_source_iso[OF assms(1,2) f1] by auto
  have ok1: "f_ok good f1" by (rule f_ok_iso[OF assms(2) i])
  have q1: "q_ok A (f_cache f1)" using q_ok_same[OF s1] assms(3) by simp
  from assms(4) f1 consider "l2_copy_access cx sl f1 = Inr (b, f')"
    | r l' f2 where "l2_writeback_access cx f1 = Inr (r, l', f2)" "f' = f2 \<or> access_common cx l' f2 = Inr (b, f')"
    | "l2_ldst_access cx l f1 = Inr (b, f')"
    by (auto simp: access_spm_l2_def split: if_splits option.splits)
  then show ?thesis
  proof cases
    case 1
    then show ?thesis using q_ok_same[OF l2_copy_access_fsame] q1 by blast
  next
    case 2
    have q2: "q_ok A (f_cache f2)" using q_ok_same[OF l2_writeback_access_fsame[OF 2(1)]] q1 by simp
    have "f_ok good f2" using l2_writeback_access_iso[OF assms(1) ok1 2(1)] by blast
    then have "sound good A (f_cache f2)" using q2 by (simp add: sound_def f_ok_def)
    then show ?thesis using 2(2) q2 access_common_q by blast
  next
    case 3
    then show ?thesis using q_ok_same[OF l2_ldst_access_fsame] q1 by blast
  qed
qed

lemma access_q:
  assumes "cx_ok good cx" "sound good A c" "access cx p c = Inr (b, f)"
  shows "q_ok A (f_cache f)"
proof (cases "isUncacheable (req p)")
  case True
  then have "f_cache f = c \<or> (\<exists>i wb. evictBlock cx (InTags i) c = Inr (wb, f_cache f))"
    using assms(3) by (auto simp: access_def split: option.splits if_splits)
  then have "same_queues c (f_cache f)" using evictBlock_same by auto
  then show ?thesis using assms(2) q_ok_same by (auto simp: sound_def)
next
  case False
  then have a: "base_access cx p c = Inr (b, f)" using assms(3) by (simp add: access_def)
  then obtain blk l t where t: "accessBlock (ops cx) (renv cx) p (c_tags c) = Inr (blk, l, t)"
    by (auto simp: base_access_def)
  define f0 where "f0 = \<lparr>f_pkt = p, f_blk = blk, f_lat = 0, f_wbs = [], f_cache = c\<lparr>c_tags := t\<rparr>\<rparr>"
  have i: "iso good {} (c_tags c) t" "\<And>j. blk = Some j \<Longrightarrow> plain_idx t j"
    using accessBlock_iso[OF assms(1) sound_tags[OF assms(2)] t] by auto
  have ok: "f_ok good f0" using i iso_ok[OF i(1)] by (auto simp: f0_def f_ok_def)
  have q0: "q_ok A (f_cache f0)" using assms(2) q_ok_same[of c "f_cache f0" A] by (simp add: f0_def sound_def)
  then have s0: "sound good A (f_cache f0)" using ok by (simp add: sound_def f_ok_def)
  consider "l1_spm_access cx l f0 = Inr (b, f)" | "access_spm_l2 cx l f0 = Inr (b, f)" | "access_common cx l f0 = Inr (b, f)"
    using a t by (auto simp: base_access_def Let_def f0_def split: if_splits)
  then show ?thesis
    using q_ok_same[OF l1_spm_access_fsame, of cx l f0 b f A] q0 access_spm_l2_q[OF assms(1) ok q0] access_common_q[OF s0]
    by cases auto
qed

section \<open>Requests\<close>

text \<open>The slot addresses a request names, and what the access does outside them.\<close>

definition req_slots :: "cache_cfg \<Rightarrow> indexing_policy \<Rightarrow> packet \<Rightarrow> addr set" where
  "req_slots g ip pkt =
     (let base = (getAddr pkt div of_nat (blkSize g)) * of_nat (blkSize g);
          first_off = unat (getAddr pkt mod of_nat (blkSize g));
          n = (first_off + getSize pkt + blkSize g - 1) div blkSize g
      in if cmd pkt = CPTOSPMReq then {getSlot pkt}
         else if cmd pkt = SPMStoreReq
         then (\<lambda>i. base OR push_bit (wayShift ip) (of_nat (extractWay ip base + i))) ` {0..<n}
         else {})"

lemma touched_req_slots: "touched_slots cx p t \<subseteq> slots_of (tagsIp t) (req_slots (cfg cx) (tagsIp t) p)"
  by (auto simp: touched_slots_def req_slots_def slots_of_def num_slots_def Let_def split: if_splits)

lemma slots_of_mono: "A \<subseteq> B \<Longrightarrow> slots_of ip A \<subseteq> slots_of ip B"
  by (auto simp: slots_of_def)

lemma named_req_slots: "named_slot p \<subseteq> req_slots g ip p"
  by (simp add: named_slot_def req_slots_def Let_def)

lemma access_evolves:
  assumes "cx_ok good cx" "sound good A c" "req_slots (cfg cx) (tagsIp (c_tags c)) p \<subseteq> A" "access cx p c = Inr (b, f)"
  shows "evolves good A c (f_cache f)"
proof -
  have "iso good (slots_of (tagsIp (c_tags c)) A) (c_tags c) (f_tags f)"
    by (rule iso_mono[OF access_iso[OF assms(1) sound_tags[OF assms(2)] assms(4)]])
      (use touched_req_slots slots_of_mono[OF assms(3)] in blast)
  with access_q[OF assms(1,2,4)] show ?thesis by (simp add: evolves_def)
qed

lemma access_isRequest: "access cx p c = Inr (b, f) \<Longrightarrow> isRequest (cmd p)"
  by (auto simp: access_def base_access_def split: if_splits)

lemma unlock_blk_keeps:
  assumes "sound good A c" "unlock_blk p c = Inr c'"
  shows "keeps good A c c'"
proof (cases "cmd p = LockedRMWWriteReq")
  case True
  with assms(2) obtain j where j: "findBlock (getAddr p) (isSecure p) (c_tags c) = Some j"
      "with_blk (InTags j) (\<lambda>b. bindR (setCoherenceBits ReadableBit b) (setCoherenceBits WritableBit)) c = Inr c'"
    by (auto simp: unlock_blk_def Let_def split: option.splits)
  have pl: "plain b'" if "plain b" "bindR (setCoherenceBits ReadableBit b) (setCoherenceBits WritableBit) = Inr b'" for b b'
  proof -
    from that(2) obtain b1 where b1: "setCoherenceBits ReadableBit b = Inr b1" "setCoherenceBits WritableBit b1 = Inr b'" by auto
    have "plain b1" by (rule plain_setI[OF b1(1)]) (use that(1) in auto)
    then show ?thesis by (intro plain_setI[OF b1(2)]) auto
  qed
  show ?thesis
    by (rule with_blk_keeps[OF assms(1) _ j(2) pl]) (use findBlock_plain[OF sound_tags[OF assms(1)] j(1)] in simp)
qed (use assms in \<open>simp add: unlock_blk_def keeps_refl\<close>)

lemma respond_hit_keeps:
  assumes "keeps good A c c1" "respond_hit cx p t c1 = Inr c'"
  shows "keeps good A c c'"
  using assms keeps_respond[OF assms(1)] by (auto simp: respond_hit_def Let_def split: if_splits)

lemma mq_allocated_less: "sound good A c \<Longrightarrow> i \<in> set (allocatedList (mshrQueue c)) \<Longrightarrow> i < numEntries (mshrQueue c)"
  using mq_ok_allocated[of A "mshrQueue c" i] by (simp add: sound_def q_ok_def)

lemma locked_rmw_cmd: "isLockedRMW CPTOSPMReq = False"
  by code_simp

lemma locked_rmw_hit_evolves:
  assumes "cx_ok good cx" "sound good A c" "0 < blkSize (cfg cx)" "\<And>j. blk = Some j \<Longrightarrow> ptr_ok c (InTags j)"
    and "isLockedRMW (cmd p)" "locked_rmw_hit cx ns p blk c = Inr c'"
  shows "evolves good A c c'"
proof -
  note u = assms(6)[unfolded locked_rmw_hit_def Let_def]
  from u obtain mi where mi: "mq_findMatch (getBlockAddr (blkSize (cfg cx)) p) (isSecure p) (mshrQueue c) = Inr mi" by auto
  show ?thesis
  proof (cases "isRead (cmd p)")
    case True
    with u mi obtain p2 i c1 up q j where p2: "Packet_new (req p) (cmd p) = Inr p2"
      and c1: "allocateMissBuffer cx p2 (curTick cx) True c = Inr (i, c1)"
      and q: "mq_markInService i False (upPending c1) (mshrQueue c1) = Inr (up, q)" and j: "blk = Some j"
      and c': "c' = set_blk (InTags j) (clearCoherenceBits WritableBit (clearCoherenceBits ReadableBit
            (get_blk (c1\<lparr>mshrQueue := q, upPending := up\<rparr>) (InTags j)))) (c1\<lparr>mshrQueue := q, upPending := up\<rparr>)"
      by (auto split: option.splits)
    have "cmd p2 = cmd p" using p2 by (auto simp: Packet_new_def Let_def)
    then have ns: "named_slot p2 \<subseteq> A" using assms(5) by (auto simp: named_slot_def locked_rmw_cmd)
    note m = allocateMissBuffer_evolves[OF assms(2,3) ns c1]
    let ?c2 = "c1\<lparr>mshrQueue := q, upPending := up\<rparr>"
    have k2: "keeps good A c1 ?c2" by (rule mq_markInService_keeps[OF evolves_sound[OF m(1)] m(3) q])
    have p1: "ptr_ok c1 (InTags j)" using assms(4)[OF j] m(2) by simp
    note p2 = keeps_ptr[OF k2 p1]
    have "plain (get_blk ?c2 (InTags j))" using ptr_plain[OF sound_tags[OF keeps_sound[OF k2]] p2] by blast
    then have "keeps good A ?c2 c'" unfolding c' by (intro set_blk_keeps[OF keeps_sound[OF k2] p2] disjI2 plain_clear)
    then show ?thesis using evolves_trans[OF m(1) keeps_evolves[OF keeps_trans[OF k2]]] by blast
  next
    case False
    with u mi obtain i rp where i: "mi = Some i" and rp: "Packet_new (req p) LockedRMWWriteResp = Inr rp"
      and r: "recvTimingResp cx ns (rp\<lparr>senderState := [MSHR_state i]\<rparr>) c = Inr c'"
      by (auto split: option.splits)
    have "i < numEntries (mshrQueue c)" using mq_allocated_less[OF assms(2)] mq_findMatch_allocated mi i by blast
    then have "own_response c (rp\<lparr>senderState := [MSHR_state i]\<rparr>)" by (simp add: own_response_def)
    then show ?thesis by (rule recvTimingResp_evolves[OF assms(1,2) _ r])
  qed
qed

lemma handleTimingReqHit_evolves:
  assumes "cx_ok good cx" "sound good A c" "0 < blkSize (cfg cx)"
    and "\<And>j. isLockedRMW (cmd p) \<Longrightarrow> blk = Some j \<Longrightarrow> ptr_ok c (InTags j)"
    and "handleTimingReqHit cx ns p blk t c = Inr c'"
  shows "evolves good A c c'"
proof -
  from assms(5) obtain c1 where c1: "(if isLockedRMW (cmd p) then locked_rmw_hit cx ns p blk c else Inr c) = Inr c1"
      "respond_hit cx p t c1 = Inr c'"
    by (auto simp: handleTimingReqHit_def)
  have e1: "evolves good A c c1"
    using c1(1) keeps_evolves[OF keeps_refl[OF assms(2)]] locked_rmw_hit_evolves[OF assms(1-3) assms(4)]
    by (auto split: if_splits)
  have "keeps good A c1 c'" by (rule respond_hit_keeps[OF keeps_refl[OF evolves_sound[OF e1]] c1(2)])
  then show ?thesis by (rule evolves_trans[OF e1 keeps_evolves])
qed

lemma new_miss_evolves:
  assumes "sound good A c" "0 < blkSize (cfg cx)" "\<And>j. blk = Some j \<Longrightarrow> ptr_ok c (InTags j)" "named_slot p \<subseteq> A"
    and "new_miss cx p blk t c = Inr c'"
  shows "evolves good A c c'"
proof (cases "isEviction (cmd p) \<or> cmd p = WriteClean")
  case True
  then have "allocateWriteBuffer cx p t c = Inr c'" using assms(5) by (auto simp: new_miss_def)
  then show ?thesis by (rule keeps_evolves[OF allocateWriteBuffer_keeps[OF assms(1)]])
next
  case False
  with assms(5) obtain c1 i where c1: "c1 = c \<or> (\<exists>j. blk = Some j \<and>
       c1 = set_blk (InTags j) (clearCoherenceBits ReadableBit (get_blk c (InTags j))) c)"
    and m: "allocateMissBuffer cx p t True c1 = Inr (i, c')"
    by (cases blk) (auto simp: new_miss_def Let_def split: if_splits)
  have k1: "keeps good A c c1"
    using c1 keeps_refl[OF assms(1)] clear_blk_keeps[OF assms(1) assms(3)] by (elim disjE exE conjE) simp_all
  show ?thesis
    by (rule evolves_trans[OF keeps_evolves[OF k1] allocateMissBuffer_evolves(1)[OF keeps_sound[OF k1] assms(2,4) m]])
qed

lemma base_handleTimingReqMiss_evolves:
  assumes "sound good A c" "0 < blkSize (cfg cx)" "\<And>j. blk = Some j \<Longrightarrow> ptr_ok c (InTags j)"
    and "\<And>q. p = Some q \<Longrightarrow> named_slot q \<subseteq> A \<and> isRequest (cmd q)"
    and "\<And>i. mi = Some i \<Longrightarrow> i \<in> set (allocatedList (mshrQueue c))"
    and "base_handleTimingReqMiss cx p mi blk t c = Inr c'"
  shows "evolves good A c c'"
proof -
  define c1 where "c1 = (case (writeAllocator c, p) of
      (Some w, Some p) \<Rightarrow> if isWrite (cmd p) \<and> \<not> isUncacheable (req p)
         then c\<lparr>writeAllocator := Some (updateMode (getAddr p) (getSize p) (getBlockAddr (blkSize (cfg cx)) p) w)\<rparr> else c
    | _ \<Rightarrow> c)"
  have "c_tags c1 = c_tags c \<and> same_queues c c1" by (auto simp: c1_def split: option.splits)
  then have k1: "keeps good A c c1" and s1: "same_queues c c1"
    using keeps_same[OF keeps_refl[OF assms(1)], of c1] by auto
  note snd = keeps_sound[OF k1]
  have "c' = c1 \<or> (\<exists>q. p = Some q \<and> (allocateWriteBuffer cx q t c1 = Inr c' \<or>
      (\<exists>i. mi = Some i \<and> coalesce_target cx q i t c1 = Inr c') \<or> new_miss cx q blk t c1 = Inr c'))"
    using assms(6) unfolding base_handleTimingReqMiss_def Let_def c1_def[symmetric]
    by (cases p; cases mi) (auto split: if_splits)
  then have "evolves good A c1 c'"
  proof (elim disjE exE conjE)
    fix q assume q: "p = Some q" and w: "allocateWriteBuffer cx q t c1 = Inr c'"
    show ?thesis by (rule keeps_evolves[OF allocateWriteBuffer_keeps[OF snd w]])
  next
    fix q i assume q: "p = Some q" "mi = Some i" and w: "coalesce_target cx q i t c1 = Inr c'"
    show ?thesis
      by (rule coalesce_target_evolves[OF snd keeps_allocated[OF k1 assms(5)[OF q(2)]] _ _ w]) (use assms(4)[OF q(1)] in auto)
  next
    fix q assume q: "p = Some q" and w: "new_miss cx q blk t c1 = Inr c'"
    show ?thesis by (rule new_miss_evolves[OF snd assms(2) keeps_ptr[OF k1 assms(3)] _ w]) (use assms(4)[OF q] in auto)
  qed (use keeps_evolves[OF keeps_refl[OF snd]] in simp)
  with keeps_evolves[OF k1] show ?thesis by (rule evolves_trans)
qed

lemma swprefetch_cmd: "isSWPrefetch CPTOSPMReq = False"
  by code_simp

lemma handleTimingReqMiss_evolves:
  assumes "sound good A c" "0 < blkSize (cfg cx)" "\<And>j. blk = Some j \<Longrightarrow> ptr_ok c (InTags j)" "named_slot p \<subseteq> A"
    and "isRequest (cmd p)" "handleTimingReqMiss cx p blk t rt c = Inr c'"
  shows "evolves good A c c'"
proof (cases "isUncacheable (req p)")
  case True
  then have "allocateWriteBuffer cx p t c = Inr c' \<or> (\<exists>i. allocateMissBuffer cx p t True c = Inr (i, c'))"
    using assms(6) by (auto simp: handleTimingReqMiss_def uncacheable_miss_def split: if_splits)
  then show ?thesis
    using keeps_evolves[OF allocateWriteBuffer_keeps[OF assms(1)]] allocateMissBuffer_evolves(1)[OF assms(1,2,4)] by blast
next
  case False
  with assms(6) obtain mi where mi: "mq_findMatch (getBlockAddr (blkSize (cfg cx)) p) (isSecure p) (mshrQueue c) = Inr mi"
    by (auto simp: handleTimingReqMiss_def)
  have al: "i \<in> set (allocatedList (mshrQueue c))" if "mi = Some i" for i using mq_findMatch_allocated mi that by blast
  show ?thesis
  proof (cases "isSWPrefetch (cmd p)")
    case True
    with assms(6) False mi obtain pf c1 where pf: "(case mi of None \<Rightarrow> bindR (prefetch_copy cx p) (\<lambda>pf. Inr (Some pf))
        | Some _ \<Rightarrow> Inr None) = Inr pf"
      and c1: "respond_prefetch cx p rt c = Inr c1" and r: "base_handleTimingReqMiss cx pf mi blk t c1 = Inr c'"
      by (auto simp: handleTimingReqMiss_def)
    have k1: "keeps good A c c1"
      using c1 keeps_respond[OF keeps_refl[OF assms(1)]] by (auto simp: respond_prefetch_def split: if_splits)
    have q: "named_slot q \<subseteq> A \<and> isRequest (cmd q)" if "pf = Some q" for q
    proof -
      have "prefetch_copy cx p = Inr q" using pf that by (auto split: option.splits)
      then have "cmd q = cmd p"
        by (auto simp: prefetch_copy_def Packet_new_def Let_def dest!: allocate_cmd)
      then show ?thesis using True assms(5) by (auto simp: named_slot_def swprefetch_cmd)
    qed
    show ?thesis
      by (rule evolves_trans[OF keeps_evolves[OF k1] base_handleTimingReqMiss_evolves[OF keeps_sound[OF k1] assms(2)
            keeps_ptr[OF k1 assms(3)] q keeps_allocated[OF k1 al] r]])
  next
    case F: False
    then have r: "base_handleTimingReqMiss cx (Some p) mi blk t c = Inr c'"
      using assms(6) False mi by (auto simp: handleTimingReqMiss_def)
    show ?thesis by (rule base_handleTimingReqMiss_evolves[OF assms(1-3) _ al r]) (use assms(4,5) in auto)
  qed
qed

lemma base_recvTimingReq_evolves:
  assumes "cx_ok good cx" "sound good A c" "0 < blkSize (cfg cx)" "req_slots (cfg cx) (tagsIp (c_tags c)) p \<subseteq> A"
    and "base_recvTimingReq cx ns p c = Inr c'"
  shows "evolves good A c c'"
proof -
  note u = assms(5)[unfolded base_recvTimingReq_def Let_def]
  from u obtain c0 b f c1 where c0: "unlock_blk p c = Inr c0" and a: "access cx p c0 = Inr (b, f)"
    and c1: "doWritebacks cx ns (f_wbs f) (clockEdge cx (f_lat f + forwardLatency (cfg cx))) (f_cache f) = Inr c1"
    by auto
  let ?p1 = "(f_pkt f)\<lparr>headerDelay := 0, payloadDelay := 0\<rparr>"
  from u c0 a c1 have r: "if b then handleTimingReqHit cx ns ?p1 (f_blk f) (clockEdge cx (f_lat f)) c1 = Inr c'
      else handleTimingReqMiss cx ?p1 (f_blk f) (clockEdge cx (forwardLatency (cfg cx)) + headerDelay p) (clockEdge cx (f_lat f)) c1 = Inr c'"
    by (auto split: if_splits)
  have k0: "keeps good A c c0" by (rule unlock_blk_keeps[OF assms(2) c0])
  note s0 = keeps_sound[OF k0]
  have ip: "tagsIp (c_tags c0) = tagsIp (c_tags c)" using k0 by (simp add: keeps_def evolves_def iso_def)
  have e1: "evolves good A c0 (f_cache f)" by (rule access_evolves[OF assms(1) s0 _ a]) (use assms(4) ip in simp)
  note fr = access_frame[OF assms(1) sound_tags[OF s0] a]
  have k1: "keeps good A (f_cache f) c1" by (rule doWritebacks_keeps[OF evolves_sound[OF e1] c1])
  note s1 = keeps_sound[OF k1]
  have pt: "ptr_ok c1 (InTags j)" if "f_blk f = Some j" "\<not> b \<or> \<not> isSPMcmd (cmd p)" for j
    using keeps_ptr[OF k1, of "InTags j"] fr(2)[OF that(2)] that(1) by (simp add: f_ok_def)
  have cm: "cmd ?p1 = cmd p" using fr(1) by simp
  have "evolves good A c1 c'"
  proof (cases b)
    case True
    then have h: "handleTimingReqHit cx ns ?p1 (f_blk f) (clockEdge cx (f_lat f)) c1 = Inr c'" using r by simp
    have "ptr_ok c1 (InTags j)" if "isLockedRMW (cmd ?p1)" "f_blk f = Some j" for j
      by (rule pt[OF that(2)]) (use that(1) cm locked_rmw_cmd in \<open>cases "cmd p"; simp add: isSPMcmd_def isLockedRMW_def cmd_table commandInfo_def toInt_def\<close>)
    then show ?thesis by (rule handleTimingReqHit_evolves[OF assms(1) s1 assms(3) _ h])
  next
    case False
    then have h: "handleTimingReqMiss cx ?p1 (f_blk f) (clockEdge cx (forwardLatency (cfg cx)) + headerDelay p)
        (clockEdge cx (f_lat f)) c1 = Inr c'"
      using r by simp
    have "getSlot ?p1 = getSlot p" if "cmd p = CPTOSPMReq" using fr(3)[OF False that] by (simp add: getSlot_def)
    then have n: "named_slot ?p1 \<subseteq> A"
      using named_req_slots[of p "cfg cx" "tagsIp (c_tags c)"] assms(4) cm by (auto simp: named_slot_def)
    show ?thesis
      by (rule handleTimingReqMiss_evolves[OF s1 assms(3) pt n _ h]) (use access_isRequest[OF a] cm False in auto)
  qed
  then show ?thesis using evolves_trans[OF keeps_evolves[OF k0] evolves_trans[OF e1 evolves_trans[OF keeps_evolves[OF k1]]]] by blast
qed

lemma promoteWholeLineWrites_slots: "req_slots g ip (promoteWholeLineWrites h p) = req_slots g ip p"
  by (simp add: promoteWholeLineWrites_def req_slots_def getAddr_def getSize_def)

lemma recvTimingReq_evolves:
  assumes "cx_ok good cx" "sound good A c" "0 < blkSize (cfg cx)" "req_slots (cfg cx) (tagsIp (c_tags c)) p \<subseteq> A"
    and "recvTimingReq cx ns p c = Inr c'"
  shows "evolves good A c c'"
proof (cases "cacheResponding (promoteWholeLineWrites (cfg cx) p)")
  case True
  then obtain l where "c' = c\<lparr>sentReqs := l\<rparr>"
    using assms(5) by (auto simp: recvTimingReq_def Let_def split_def)
  then show ?thesis
    using keeps_evolves[OF keeps_same[OF keeps_refl[OF assms(2)], of c']] by simp
next
  case False
  then have "base_recvTimingReq cx ns (promoteWholeLineWrites (cfg cx) p) c = Inr c'"
    using assms(5) by (simp add: recvTimingReq_def Let_def)
  then show ?thesis
    by (rule base_recvTimingReq_evolves[OF assms(1-3), rotated]) (use assms(4) promoteWholeLineWrites_slots in metis)
qed

text \<open>The port refuses or accepts without losing a retry.\<close>

lemma port_step_keeps:
  assumes "sound good A c" "port_ok (blocked c \<noteq> 0) q"
  shows "keeps good A c (c\<lparr>cpuSidePort := q\<rparr>)"
proof -
  have "q_ok A (c\<lparr>cpuSidePort := q\<rparr>)"
    using assms by (auto simp: sound_def q_ok_def flow_ok_def block_flags_def)
  then show ?thesis by (intro keeps_queue[OF assms(1)]) simp_all
qed

lemma tryTiming_port_ok: "port_ok b q \<Longrightarrow> tryTiming byp p q = (a, q') \<Longrightarrow> port_ok b q'"
  by (auto simp: tryTiming_def port_ok_def split: if_splits)

lemma sound_port: "sound good A c \<Longrightarrow> port_ok (blocked c \<noteq> 0) (cpuSidePort c)"
  unfolding sound_def q_ok_def flow_ok_def by blast

lemma port_recvTimingReq_evolves:
  assumes "cx_ok good cx" "sound good A c" "0 < blkSize (cfg cx)" "req_slots (cfg cx) (tagsIp (c_tags c)) p \<subseteq> A"
    and "port_recvTimingReq cx ns p c = Inr (a, c')"
  shows "evolves good A c c'"
proof -
  obtain ac q where t: "tryTiming False p (cpuSidePort c) = (ac, q)" by (metis surj_pair)
  let ?c1 = "c\<lparr>cpuSidePort := q\<rparr>"
  have k: "keeps good A c ?c1" by (rule port_step_keeps[OF assms(2) tryTiming_port_ok[OF sound_port[OF assms(2)] t]])
  have "c' = ?c1 \<or> recvTimingReq cx ns p ?c1 = Inr c'"
    using assms(5) t by (auto simp: port_recvTimingReq_def Let_def split: if_splits)
  then have "evolves good A ?c1 c'"
    using keeps_evolves[OF keeps_refl[OF keeps_sound[OF k]]] recvTimingReq_evolves[OF assms(1) keeps_sound[OF k] assms(3)] assms(4)
    by auto
  with keeps_evolves[OF k] show ?thesis by (rule evolves_trans)
qed

section \<open>Sending\<close>

lemma getNext_ready: "getNext tk q = Some i \<Longrightarrow> i \<in> set (readyList q)"
  by (auto simp: getNext_def split: if_splits)

lemma findPending_ready: "findPending h h' e q = Inr (Some i) \<Longrightarrow> i \<in> set (readyList q)"
  by (auto simp: findPending_def dest: findR_set)

lemma getNextQueueEntry_ready:
  assumes "getNextQueueEntry tk c = Inr (Some e)"
  shows "case e of MissEntry i \<Rightarrow> i \<in> set (readyList (mshrQueue c)) | WriteEntry j \<Rightarrow> j \<in> set (readyList (writeBuffer c))"
proof -
  let ?m = "getNext tk (mshrQueue c)" and ?w = "getNext tk (writeBuffer c)"
  note u = assms[unfolded getNextQueueEntry_def Let_def]
  show ?thesis
  proof (cases "\<exists>j. ?w = Some j \<and> (isFull (writeBuffer c) \<or> ?m = None)")
    case True
    then obtain j x where j: "?w = Some j"
      and x: "findPending mshr_hasTargets wq_hasTargets (entry_at (writeBuffer c) j) (mshrQueue c) = Inr x"
      and e: "e = (case x of Some i \<Rightarrow> if e_order (entry_at (mshrQueue c) i) < e_order (entry_at (writeBuffer c) j)
             then MissEntry i else WriteEntry j | None \<Rightarrow> WriteEntry j)"
      using u by auto
    show ?thesis
      using e getNext_ready[OF j] x by (cases x) (auto dest: findPending_ready)
  next
    case False
    with u obtain i where i: "?m = Some i" by (cases ?m; cases ?w) auto
    with u False obtain x where x: "findPending wq_hasTargets mshr_hasTargets (entry_at (mshrQueue c) i) (writeBuffer c) = Inr x"
      by (cases ?w) auto
    have e: "e = (case x of Some k \<Rightarrow> WriteEntry k | None \<Rightarrow> MissEntry i)"
      using u i False x by (cases ?w; cases x) auto
    show ?thesis
      using e getNext_ready[OF i] x by (cases x) (auto dest: findPending_ready)
  qed
qed

lemma miss_packet_keeps:
  assumes "sound good A c" "i \<in> set (readyList (mshrQueue c))" "miss_packet cx i tp blk c = Inr (p, c')"
  shows "keeps good A c c' \<and> readyList (mshrQueue c') = readyList (mshrQueue c)"
proof -
  have al: "i \<in> set (allocatedList (mshrQueue c))"
    using assms(1,2) by (auto simp: sound_def q_ok_def mq_ok_def queue_inv_def queue_wf_def)
  let ?m = "entry_at (mshrQueue c) i"
  from assms(3) obtain b where c': "c' = c\<lparr>mshrQueue := upd_entry i (?m\<lparr>isForward := b\<rparr>) (mshrQueue c)\<rparr>"
    by (auto simp: miss_packet_def Let_def)
  have w: "mshr_wf ?m" "mshr_slots ?m \<subseteq> A" using q_ok_allocated assms(1) al by (auto simp: sound_def)
  have "keeps good A c c'" unfolding c'
    by (rule mshr_upd_keeps[OF assms(1) al])
      (use w in \<open>auto simp: mshr_wf_def mshr_getNumTargets_def mshr_slots_eq\<close>)
  then show ?thesis by (simp add: c')
qed

lemma coalesce_delay_keeps:
  assumes "sound good A c" "i \<in> set (readyList (mshrQueue c))" "coalesce_delay cx i tp c = Inr (d, c')"
  shows "keeps good A c c' \<and> (\<not> d \<longrightarrow> mshrQueue c' = mshrQueue c \<and> c_tags c' = c_tags c)"
proof -
  have "(c_tags c' = c_tags c \<and> same_queues c c') \<or>
      (d \<and> (\<exists>w k q. mq_delay (curTick cx) i k (mshrQueue c) = Inr q \<and> c' = c\<lparr>writeAllocator := w, mshrQueue := q\<rparr>))"
    using assms(3) by (auto simp: coalesce_delay_def Let_def split: option.splits if_splits bool.splits prod.splits)
  then show ?thesis
  proof (elim disjE exE conjE)
    assume s: "c_tags c' = c_tags c" "same_queues c c'"
    then show ?thesis using keeps_same[OF keeps_refl[OF assms(1)] s] by (simp add: same_queues_def)
  next
    fix w k q assume d: d and q: "mq_delay (curTick cx) i k (mshrQueue c) = Inr q" and c': "c' = c\<lparr>writeAllocator := w, mshrQueue := q\<rparr>"
    have ok: "q_ok A c" using assms(1) by (simp add: sound_def)
    then have mq: "mq_ok A (mshrQueue c)" by (simp add: q_ok_def)
    note r = mq_ok_delay[OF mq assms(2) q]
    have al: "allocatedList q = allocatedList (mshrQueue c)" using mq_delay_result(2)[OF q assms(2)] by simp
    have "flow_ok c'" by (rule flow_ok_cong[of c]) (use ok isFull_cong[OF r(2,3)] in \<open>simp_all add: q_ok_def c'\<close>)
    then have "q_ok A c'" using ok r(1) al by (simp add: q_ok_def c')
    then have "keeps good A c c'" by (intro keeps_queue[OF assms(1)]) (simp_all add: c' al)
    with d show ?thesis by simp
  qed
qed

lemma sent_mshr_keeps:
  assumes "sound good A c" "i \<in> set (readyList (mshrQueue c))" "\<And>j. blk = Some j \<Longrightarrow> ptr_ok c (InTags j)"
    and "sent_mshr cx ns i p blk c = Inr c'"
  shows "keeps good A c c'"
proof -
  let ?c0 = "c\<lparr>sentReqs := sentReqs c @ [p]\<rparr>"
  have k0: "keeps good A c ?c0" by (rule keeps_same[OF keeps_refl[OF assms(1)]]) simp_all
  from assms(4) obtain c1 where c1: "markInService_mshr cx i (\<not> hasSharers p \<and> cacheResponding p) ?c0 = Inr c1"
    and r: "c' = c1 \<or> (\<exists>j wb c2. blk = Some j \<and> writecleanBlk cx (InTags j) (getDest (req p)) c1 = Inr (wb, c2) \<and>
        doWritebacks cx ns [wb] 0 c2 = Inr c')"
    by (auto simp: sent_mshr_def simp del: doWritebacks.simps split: option.splits if_splits)
  have k1: "keeps good A ?c0 c1"
    by (rule markInService_mshr_keeps[OF keeps_sound[OF k0] _ c1]) (use assms(2) in simp)
  note k = keeps_trans[OF k0 k1]
  from r show ?thesis
  proof (elim disjE exE conjE)
    fix j wb c2 assume j: "blk = Some j" and w: "writecleanBlk cx (InTags j) (getDest (req p)) c1 = Inr (wb, c2)"
      and d: "doWritebacks cx ns [wb] 0 c2 = Inr c'"
    have k2: "keeps good A c1 c2" by (rule writecleanBlk_keeps[OF keeps_sound[OF k] keeps_ptr[OF k assms(3)[OF j]] w])
    show ?thesis by (rule keeps_trans[OF k keeps_trans[OF k2 doWritebacks_keeps[OF keeps_sound[OF k2] d]]])
  qed (use k in simp)
qed

lemma sendMSHRQueuePacket_keeps:
  assumes "sound good A c" "i \<in> set (readyList (mshrQueue c))" "sendMSHRQueuePacket cx ns i c = Inr (w, c')"
  shows "keeps good A c c'"
proof -
  note u = assms(3)[unfolded sendMSHRQueuePacket_def Let_def]
  from u obtain t d c1 where t: "mshr_getTarget (entry_at (mshrQueue c) i) = Inr t"
    and d: "coalesce_delay cx i (t_pkt t) c = Inr (d, c1)"
    by auto
  note k1 = coalesce_delay_keeps[OF assms(1,2) d]
  show ?thesis
  proof (cases d)
    case True
    then show ?thesis using u t d k1 by auto
  next
    case False
    define blk where "blk = findBlock (e_blkAddr (entry_at (mshrQueue c1) i)) (e_secure (entry_at (mshrQueue c1) i)) (c_tags c1)"
    from u t d False obtain p c2 where m: "miss_packet cx i (t_pkt t) blk c1 = Inr (p, c2)" by (auto simp: blk_def)
    obtain ac sent where sb: "sendBelow ns p = (ac, sent)" by (metis surj_pair)
    have r: "c' = c2 \<or> sent_mshr cx ns i sent blk c2 = Inr c'"
      using u t d False m sb by (auto simp: blk_def split: if_splits)
    have i1: "i \<in> set (readyList (mshrQueue c1))" using k1 False assms(2) by simp
    have s1: "sound good A c1" using k1 keeps_sound by blast
    note k2 = miss_packet_keeps[OF s1 i1 m]
    then have s2: "sound good A c2" using keeps_sound by blast
    have p2: "ptr_ok c2 (InTags j)" if "blk = Some j" for j
    proof -
      have "ptr_ok c1 (InTags j)" using findBlock_plain[OF sound_tags[OF s1]] that by (simp add: blk_def)
      then show ?thesis using keeps_ptr k2 by blast
    qed
    have "keeps good A c2 c'"
      using r keeps_refl[OF s2] sent_mshr_keeps[OF s2 _ p2] k2 i1 by auto
    then show ?thesis using k1 k2 keeps_trans by blast
  qed
qed

lemma wq_ready_allocated: "sound good A c \<Longrightarrow> j \<in> set (readyList (writeBuffer c)) \<Longrightarrow> j \<in> set (allocatedList (writeBuffer c))"
  by (auto simp: sound_def q_ok_def wq_ok_def wq_inv_def queue_inv_def queue_wf_def)

lemma sendWriteQueuePacket_keeps:
  assumes "sound good A c" "j \<in> set (readyList (writeBuffer c))" "sendWriteQueuePacket cx ns j c = Inr (w, c')"
  shows "keeps good A c c'"
proof -
  from assms(3) obtain l where r: "c' = c \<or> markInService_wq cx j (c\<lparr>sentReqs := l\<rparr>) = Inr c'"
    by (auto simp: sendWriteQueuePacket_def split_def split: if_splits)
  let ?c0 = "c\<lparr>sentReqs := l\<rparr>"
  have k0: "keeps good A c ?c0" by (rule keeps_same[OF keeps_refl[OF assms(1)]]) simp_all
  have a: "j \<in> set (allocatedList (writeBuffer ?c0))" using wq_ready_allocated[OF assms(1,2)] by simp
  show ?thesis
    using r keeps_refl[OF assms(1)] keeps_trans[OF k0 markInService_wq_keeps[OF keeps_sound[OF k0] a]] by blast
qed

lemma sendDeferredPacket_keeps:
  assumes "sound good A c" "sendDeferredPacket cx ns cf c = Inr (w, c')"
  shows "keeps good A c c'"
proof (cases "c' = c")
  case False
  note u = assms(2)[unfolded sendDeferredPacket_def]
  from u obtain e where e: "getNextQueueEntry (curTick cx) c = Inr e" by auto
  with u False obtain b c1 where c1: "(case e of None \<Rightarrow> Inr (False, c) | Some (MissEntry i) \<Rightarrow> sendMSHRQueuePacket cx ns i c
       | Some (WriteEntry j) \<Rightarrow> sendWriteQueuePacket cx ns j c) = Inr (b, c1)"
    and c': "c' = c1 \<or> c' = schedMemSideSendEvent (nextQueueReadyTime c1) c1"
    by (auto split: if_splits)
  have "keeps good A c c1"
  proof (cases e)
    case (Some x)
    then show ?thesis
      using c1 getNextQueueEntry_ready[of "curTick cx" c x] e sendMSHRQueuePacket_keeps[OF assms(1)]
        sendWriteQueuePacket_keeps[OF assms(1)]
      by (cases x) auto
  qed (use c1 keeps_refl[OF assms(1)] in auto)
  then show ?thesis using keeps_same[of good A c c1 c'] c' by auto
qed (simp add: keeps_refl assms(1))

end
