(* ===== verification/Cache_System.thy ===== *)
theory Cache_System
  imports Cache_Handlers
begin

text \<open>
  The cache as a state machine. An event is what the simulator delivers to a cache: a request
  at the port of the requestors or at the scratchpad port, a response or a snoop from below,
  the packet queue asking for the next packet, or the retry event. \<open>handle\<close> is the handler that
  runs, \<open>cache_run\<close> a sequence of events with the time, the random numbers, the contents of
  fresh memory and the neighbours chosen anew at each of them. The properties hold in every
  state reached from a newly built cache, for every replacement policy that keeps its contract.
\<close>

section \<open>Events\<close>

datatype event =
    CpuRequest packet
  | SpmRequest packet
  | Response packet
  | Snoop packet
  | Send "packet \<Rightarrow> bool"
  | Retry

text \<open>
  The scratchpad port is a port of the same class. Nothing ever blocks it, so it is always in
  the state it was built in.
\<close>

definition spm_recvTimingReq :: "'s cx \<Rightarrow> neighbours \<Rightarrow> packet \<Rightarrow> 's cache \<Rightarrow> (bool \<times> 's cache) res" where
  "spm_recvTimingReq cx ns pkt c =
     must (isRequest (cmd pkt))
      (case tryTiming False pkt CacheResponsePort_new of (accepted, _) \<Rightarrow>
         if accepted then bindR (recvTimingReq cx ns pkt c) (\<lambda>c1. Inr (True, c1)) else Inr (False, c))"

fun handle :: "'s cx \<Rightarrow> neighbours \<Rightarrow> event \<Rightarrow> 's cache \<Rightarrow> 's cache res" where
  "handle cx ns (CpuRequest pkt) c = bindR (port_recvTimingReq cx ns pkt c) (\<lambda>(_, c1). Inr c1)"
| "handle cx ns (SpmRequest pkt) c = bindR (spm_recvTimingReq cx ns pkt c) (\<lambda>(_, c1). Inr c1)"
| "handle cx ns (Response pkt) c = recvTimingResp cx ns pkt c"
| "handle cx ns (Snoop pkt) c = bindR (recvTimingSnoopReq cx ns pkt c) (\<lambda>(_, c1). Inr c1)"
| "handle cx ns (Send conflicts) c = bindR (sendDeferredPacket cx ns conflicts c) (\<lambda>(_, c1). Inr c1)"
| "handle cx ns Retry c = Inr (c\<lparr>cpuSidePort := processSendRetry (cpuSidePort c)\<rparr>)"

text \<open>
  A response carries back the state this cache has put on the request, and the retry event
  fires only when it has been scheduled.
\<close>

fun admissible :: "'s cache \<Rightarrow> event \<Rightarrow> bool" where
  "admissible c (Response pkt) = own_response c pkt"
| "admissible c Retry = (retryScheduled (cpuSidePort c) \<noteq> None)"
| "admissible c _ = True"

fun event_slots :: "cache_cfg \<Rightarrow> indexing_policy \<Rightarrow> event \<Rightarrow> addr set" where
  "event_slots g ip (CpuRequest pkt) = req_slots g ip pkt"
| "event_slots g ip (SpmRequest pkt) = req_slots g ip pkt"
| "event_slots g ip _ = {}"

inductive cache_run :: "cache_cfg \<Rightarrow> 's policy_ops \<Rightarrow> event list \<Rightarrow> 's cache \<Rightarrow> 's cache \<Rightarrow> bool" for g po where
  idle: "cache_run g po [] c c"
| step: "cfg cx = g \<Longrightarrow> ops cx = po \<Longrightarrow> rng_ok (renv cx) \<Longrightarrow> admissible c e \<Longrightarrow> handle cx ns e c = Inr c1 \<Longrightarrow>
    cache_run g po es c1 c2 \<Longrightarrow> cache_run g po (e # es) c c2"

inductive_cases cache_run_Nil [elim!]: "cache_run g po [] c c'"
inductive_cases cache_run_Cons [elim]: "cache_run g po (e # es) c c'"

lemma cache_run_append: "cache_run g po es c c1 \<Longrightarrow> cache_run g po es' c1 c2 \<Longrightarrow> cache_run g po (es @ es') c c2"
  by (induction rule: cache_run.induct) (auto intro: cache_run.step)

section \<open>Every event keeps the invariant\<close>

lemma spm_port_accepts [simp]: "tryTiming False p CacheResponsePort_new = (True, q) \<longleftrightarrow> q = CacheResponsePort_new"
  by (auto simp: tryTiming_def CacheResponsePort_new_def)

lemma handle_evolves:
  assumes "cx_ok good cx" "sound good A c" "0 < blkSize (cfg cx)" "event_slots (cfg cx) (tagsIp (c_tags c)) e \<subseteq> A"
    and "admissible c e" "handle cx ns e c = Inr c'"
  shows "evolves good A c c'"
proof (cases e)
  case (CpuRequest p)
  then obtain b where r: "port_recvTimingReq cx ns p c = Inr (b, c')" using assms(6) by auto
  show ?thesis by (rule port_recvTimingReq_evolves[OF assms(1-3) _ r]) (use assms(4) CpuRequest in simp)
next
  case (SpmRequest p)
  then have "recvTimingReq cx ns p c = Inr c' \<or> c' = c"
    using assms(6) by (auto simp: spm_recvTimingReq_def split_def split: if_splits)
  moreover have "evolves good A c c'" if r: "recvTimingReq cx ns p c = Inr c'"
    by (rule recvTimingReq_evolves[OF assms(1-3) _ r]) (use assms(4) SpmRequest in simp)
  ultimately show ?thesis using keeps_evolves[OF keeps_refl[OF assms(2)]] by blast
next
  case (Response p)
  then show ?thesis using recvTimingResp_evolves[OF assms(1,2)] assms(5,6) by auto
next
  case (Snoop p)
  then show ?thesis using keeps_evolves[OF recvTimingSnoopReq_keeps[OF assms(1,2)]] assms(6) by auto
next
  case (Send cf)
  then show ?thesis using keeps_evolves[OF sendDeferredPacket_keeps[OF assms(2)]] assms(6) by auto
next
  case Retry
  then have "port_ok (blocked c \<noteq> 0) (processSendRetry (cpuSidePort c))"
    using sound_port[OF assms(2)] assms(5) by (auto simp: port_ok_def processSendRetry_def)
  then show ?thesis
    using Retry assms(6) keeps_evolves[OF port_step_keeps[OF assms(2)]] by auto
qed

lemma evolves_ip: "evolves good A c c' \<Longrightarrow> tagsIp (c_tags c') = tagsIp (c_tags c)"
  by (simp add: evolves_def iso_def)

lemma cache_run_evolves:
  assumes "cache_run g po es c c'" "replacement_policy po good" "0 < blkSize g" "sound good A c"
    and "(\<Union>e\<in>set es. event_slots g (tagsIp (c_tags c)) e) \<subseteq> A"
  shows "evolves good A c c'"
  using assms(1,4,5)
proof (induction rule: cache_run.induct)
  case (idle c)
  then show ?case using keeps_evolves[OF keeps_refl] by blast
next
  case (step cx c e ns c1 es c2)
  have cx: "cx_ok good cx" using step.hyps(2,3) assms(2) by (simp add: cx_ok_def)
  have e1: "evolves good A c c1"
    by (rule handle_evolves[OF cx step.prems(1) _ _ step.hyps(4,5)]) (use step.hyps(1) step.prems(2) assms(3) in auto)
  have "evolves good A c1 c2"
    by (rule step.IH[OF evolves_sound[OF e1]]) (use step.prems(2) evolves_ip[OF e1] in auto)
  with e1 show ?case by (rule evolves_trans)
qed

lemma sound_mono: "sound good A c \<Longrightarrow> A \<subseteq> B \<Longrightarrow> sound good B c"
  by (auto simp: sound_def q_ok_def mq_ok_def)

lemma queue_slots_new: "queue_slots (MSHRQueue_new n r) = {}"
  by (auto simp: queue_slots_def MSHRQueue_new_def Queue_new_def entry_at_def MSHR_new_def mshr_slots_eq
      TargetList_new_def qentry.defs)

lemma sound_new:
  assumes "tags_ok good t" "0 < n" "0 < w"
  shows "sound good {} (BaseCache_new n w t d wa mc)"
proof -
  have "mq_ok {} (MSHRQueue_new n 0)"
    using mq_inv_new[of n 0] queue_slots_new[of n 0] assms(2) by (simp add: mq_ok_def MSHRQueue_new_def Queue_new_def)
  moreover have "wq_ok (WriteQueue_new w n)"
    using wq_inv_new[of w n] assms(3) by (simp add: wq_ok_def WriteQueue_new_def Queue_new_def)
  moreover have "\<not> isFull (MSHRQueue_new n 0)" "\<not> isFull (WriteQueue_new w n)"
    using assms(2,3) by (simp_all add: isFull_def MSHRQueue_new_def WriteQueue_new_def Queue_new_def)
  ultimately show ?thesis
    using assms(1) by (simp add: sound_def q_ok_def flow_ok_def block_flags_def port_ok_def BaseCache_new_def
        CacheResponsePort_new_def flag_word_def)
qed

text \<open>The states a newly built cache can reach.\<close>

definition cache_reachable :: "cache_cfg \<Rightarrow> 's policy_ops \<Rightarrow> ('s \<Rightarrow> bool) \<Rightarrow> 's cache \<Rightarrow> bool" where
  "cache_reachable g po good c \<longleftrightarrow>
     replacement_policy po good \<and> 0 < blkSize g \<and>
     (\<exists>n w t d wa mc es. 0 < n \<and> 0 < w \<and> tags_ok good t \<and> cache_run g po es (BaseCache_new n w t d wa mc) c)"

lemma reachable_sound:
  assumes "cache_reachable g po good c"
  obtains A where "sound good A c"
proof -
  from assms obtain n w t d wa mc es where w: "replacement_policy po good" "0 < blkSize g" "0 < n" "0 < w" "tags_ok good t"
      "cache_run g po es (BaseCache_new n w t d wa mc) c"
    by (auto simp: cache_reachable_def)
  let ?c = "BaseCache_new n w t d wa mc"
  let ?A = "\<Union>e\<in>set es. event_slots g (tagsIp (c_tags ?c)) e"
  have "sound good ?A ?c" using sound_mono[OF sound_new[OF w(5,3,4)]] by blast
  from evolves_sound[OF cache_run_evolves[OF w(6,1,2) this order_refl]] show ?thesis by (rule that)
qed

lemma sound_pending: "sound good A c \<Longrightarrow> sound good (queue_slots (mshrQueue c)) c"
  by (auto simp: sound_def q_ok_def mq_ok_def)

end
