(* ===== verification/Cache_Properties.thy ===== *)
theory Cache_Properties
  imports Cache_System "HOL-Library.Code_Target_Nat"
begin

text \<open>
  What a cache guarantees in every state it can reach: data in the scratchpad is only changed
  by the commands that name its slot, flow control never deadlocks or trips its assertions,
  and an unblocked cache has room for the next request. A small second-level cache with one
  miss register is played through a scenario that meets the hypotheses: a copy into the
  scratchpad, a read that misses and fills the register, a request that has to be retried, the
  request to memory and its response.
\<close>

section \<open>Evaluation\<close>

text \<open>Aborting operations evaluate their continuation only when it is reached.\<close>

lemma bindR_code [code_unfold]: "bindR r f = (case r of Inl e \<Rightarrow> Inl e | Inr x \<Rightarrow> f x)"
  by (cases r) auto

lemma must_code [code_unfold]: "must b r = (if b then r else Inl Assertion)"
  by (simp add: must_def)

lemma panic_when_code [code_unfold]: "panic_when b r = (if b then Inl Panic else r)"
  by (simp add: panic_when_def)

text \<open>A run with its times and neighbours written out.\<close>

fun play :: "('s cx \<times> neighbours \<times> event) list \<Rightarrow> 's cache \<Rightarrow> 's cache res" where
  "play [] c = Inr c"
| "play ((cx, ns, e) # steps) c = must (admissible c e) (bindR (handle cx ns e c) (play steps))"

lemma play_run:
  assumes "play steps c = Inr c'" "\<forall>(cx, ns, e) \<in> set steps. cfg cx = g \<and> ops cx = po \<and> rng_ok (renv cx)"
  shows "cache_run g po (map (\<lambda>(cx, ns, e). e) steps) c c'"
  using assms
proof (induction steps arbitrary: c)
  case Nil
  then show ?case by (auto intro: cache_run.idle)
next
  case (Cons s steps)
  obtain cx ns e where s: "s = (cx, ns, e)" by (cases s)
  with Cons.prems(1) obtain c1 where "admissible c e" "handle cx ns e c = Inr c1" "play steps c1 = Inr c'" by auto
  then show ?case using Cons s by (auto intro: cache_run.step)
qed

section \<open>A scenario\<close>

definition sample_l2_ip :: indexing_policy where
  "sample_l2_ip = \<lparr>assoc = 2, numSets = 2, setShift = 3, setMask = 1, tagShift = 4, wayShift = 4, wayMask = 1\<rparr>"

definition sample_l2_tags :: "lru_store tags" where
  "sample_l2_tags =
     \<lparr>tagsIp = sample_l2_ip, allocAssoc = 2, tagBlks = replicate 4 (CacheBlk_new (replicate 8 0)),
      tagsBlkSize = 8, sequentialAccess = False, lookupLatency = 2, partitionManager = None,
      rpStore = (\<lambda>_. 0), warmupBound = 4, warmedUp = False, tagsInUse = 0, tagAccesses = 0,
      dataAccesses = 0, occupancies = (\<lambda>_. 0), totalRefs = 0, sampledRefs = 0, maxRequestors = 4\<rparr>"

definition sample_cfg :: cache_cfg where
  "sample_cfg =
     \<lparr>blkSize = 8, tagLatency = 2, dataLatency = 2, forwardLatency = 1, fillLatency = 1,
      responseLatency = 1, spmBandwidth = 8, seqAccess = False, numTarget = 4,
      cfg_clusivity = mostly_incl, isReadOnly = False, writebackClean = False, forwardSnoops = True,
      is_l1_cache = False, is_l2_cache = True, spmConnected = True, clockPeriod = 10,
      sysMaxRequestors = 4, cfNtBypassEnabled = False, cfNtCleanRespEnabled = False,
      cfL2PinKeepEnabled = False, cfL1PinKeepEnabled = False, cfSpmSharedBw = True,
      cfSpmHdrCharge = False, addrRanges = [\<lambda>_. True]\<rparr>"

definition sample_cx :: "tick \<Rightarrow> lru_store cx" where
  "sample_cx t = \<lparr>cfg = sample_cfg, ops = LRU_ops, renv = sample_repl_env\<lparr>now := t\<rparr>, fresh = sample_fresh\<rparr>"

definition sample_ns :: neighbours where
  "sample_ns = \<lparr>snoopAbove = (\<lambda>p. p), sendBelow = (\<lambda>p. (True, p))\<rparr>"

definition sample_l2 :: "lru_store cache" where
  "sample_l2 = BaseCache_new 1 2 sample_l2_tags (replicate 8 0) None 10"

definition sample_access :: "mem_cmd \<Rightarrow> addr \<Rightarrow> packet" where
  "sample_access c a = (Packet_blk (Request_paddr a 8 0 0) c 8)\<lparr>
     pflags := VALID_ADDR OR VALID_SIZE OR DYNAMIC_DATA, pdata := Some [1, 2, 3, 4, 5, 6, 7, 8]\<rparr>"

definition sample_copy :: packet where
  "sample_copy = (sample_access CPTOSPMReq 0x40)\<lparr>slotidx := 0x10, spm_size := 8, L1find := True\<rparr>"

definition sample_response :: packet where
  "sample_response = (sample_access ReadResp 0x80)\<lparr>senderState := [MSHR_state 0]\<rparr>"

definition sample_store :: packet where
  "sample_store = (sample_access SPMStoreReq 0x10)\<lparr>pdata := Some [8, 7, 6, 5, 4, 3, 2, 1]\<rparr>"

definition sample_steps :: "(lru_store cx \<times> neighbours \<times> event) list" where
  "sample_steps =
     [(sample_cx 110, sample_ns, CpuRequest (sample_access ReadReq 0x80)),
      (sample_cx 120, sample_ns, CpuRequest (sample_access ReadReq 0xC0)),
      (sample_cx 200, sample_ns, Send (\<lambda>_. False)),
      (sample_cx 300, sample_ns, Response sample_response)]"

text \<open>Whether a run succeeds and ends in a state with a property.\<close>

definition plays_to :: "('s cx \<times> neighbours \<times> event) list \<Rightarrow> 's cache \<Rightarrow> ('s cache \<Rightarrow> bool) \<Rightarrow> bool" where
  "plays_to steps c P = (case play steps c of Inl e \<Rightarrow> False | Inr c' \<Rightarrow> P c')"

lemma plays_toE:
  assumes "plays_to steps c P"
  shows "play steps c = Inr (projr (play steps c))" and "P (projr (play steps c))"
  using assms by (cases "play steps c"; simp add: plays_to_def)+

definition sample_copied :: "lru_store cache" where
  "sample_copied = projr (play [(sample_cx 100, sample_ns, CpuRequest sample_copy)] sample_l2)"

definition sample_refilled :: "lru_store cache" where
  "sample_refilled = projr (play sample_steps sample_copied)"

definition sample_stored :: "lru_store cache" where
  "sample_stored = projr (play [(sample_cx 110, sample_ns, SpmRequest sample_store)] sample_copied)"

definition sample_shape :: "lru_store cache \<Rightarrow> bool" where
  "sample_shape c \<longleftrightarrow> getWayAllocationMax (c_tags c) = 2 \<and> lookupLatency (c_tags c) = 2 \<and> tagsIp (c_tags c) = sample_l2_ip"

definition sample_copied_ok :: "lru_store cache \<Rightarrow> bool" where
  "sample_copied_ok c \<longleftrightarrow> sample_shape c \<and> tickInserted (tagBlks (c_tags c) ! 1) = 100 \<and>
     map (blk_isSet ScratchpadBit) (tagBlks (c_tags c)) = [False, True, False, False] \<and>
     blkData (tagBlks (c_tags c) ! 1) = [1, 2, 3, 4, 5, 6, 7, 8] \<and>
     length (allocatedList (mshrQueue c)) = 0"

definition sample_refilled_ok :: "lru_store cache \<Rightarrow> bool" where
  "sample_refilled_ok c \<longleftrightarrow> sample_shape c \<and> tickInserted (tagBlks (c_tags c) ! 1) = 100 \<and>
     blkValid (tagBlks (c_tags c) ! 0) \<and> length (blkData (tagBlks (c_tags c) ! 0)) = 8 \<and>
     length (blkData (tagBlks (c_tags c) ! 1)) = 8 \<and>
     map (blk_isSet ScratchpadBit) (tagBlks (c_tags c)) = [False, True, False, False] \<and>
     \<not> portBlocked (cpuSidePort c) \<and> mustSendRetry (cpuSidePort c) \<and>
     length (cpuResps c) = 1 \<and> map cmd (sentReqs c) = [ReadSharedReq]"

definition sample_stored_ok :: "lru_store cache \<Rightarrow> bool" where
  "sample_stored_ok c \<longleftrightarrow> sample_shape c \<and> length (allocatedList (mshrQueue c)) = 0"

definition sample_hit :: bool where
  "sample_hit = (case access (sample_cx 100) sample_copy sample_l2 of Inl e \<Rightarrow> False | Inr (b, f) \<Rightarrow> b)"

lemma sample_plays:
  "plays_to [(sample_cx 100, sample_ns, CpuRequest sample_copy)] sample_l2
     (\<lambda>c. sample_copied_ok c \<and> plays_to sample_steps c sample_refilled_ok \<and>
        plays_to [(sample_cx 110, sample_ns, SpmRequest sample_store)] c sample_stored_ok) \<and> sample_hit"
  by code_simp

lemma sample_states:
  "play [(sample_cx 100, sample_ns, CpuRequest sample_copy)] sample_l2 = Inr sample_copied"
  "sample_copied_ok sample_copied"
  "play sample_steps sample_copied = Inr sample_refilled"
  "sample_refilled_ok sample_refilled"
  "play [(sample_cx 110, sample_ns, SpmRequest sample_store)] sample_copied = Inr sample_stored"
  "sample_stored_ok sample_stored"
proof -
  note p = plays_toE[OF conjunct1[OF sample_plays], folded sample_copied_def]
  show "play [(sample_cx 100, sample_ns, CpuRequest sample_copy)] sample_l2 = Inr sample_copied" by (rule p(1))
  show "sample_copied_ok sample_copied" using p(2) by (rule conjunct1)
  note q = plays_toE[OF conjunct1[OF conjunct2[OF p(2)]], folded sample_refilled_def]
  show "play sample_steps sample_copied = Inr sample_refilled" "sample_refilled_ok sample_refilled" by (rule q)+
  note r = plays_toE[OF conjunct2[OF conjunct2[OF p(2)]], folded sample_stored_def]
  show "play [(sample_cx 110, sample_ns, SpmRequest sample_store)] sample_copied = Inr sample_stored"
    "sample_stored_ok sample_stored" by (rule r)+
qed

lemma sample_tags_ok: "tags_ok (\<lambda>_. True) sample_l2_tags"
proof -
  have "IndexingPolicy_new 2 4 3 = Inr sample_l2_ip"
    by (simp add: IndexingPolicy_new_def sample_l2_ip_def floorLog2_def log2_step_def isPowerOf2_def Let_def)
  from extractSet_less[OF this] have "\<forall>a. extractSet sample_l2_ip a < numSets sample_l2_ip" by simp
  moreover have "assoc sample_l2_ip = 2" "numSets sample_l2_ip = 2" "tagShift sample_l2_ip = 4"
    by (simp_all add: sample_l2_ip_def)
  moreover have "blk_wf (CacheBlk_new (replicate 8 0))" by (rule blk_wf_CacheBlk_new)
  ultimately show ?thesis by (simp add: tags_ok_def sample_l2_tags_def)
qed

lemma sample_cx_ok: "cfg (sample_cx t) = sample_cfg \<and> ops (sample_cx t) = LRU_ops \<and> rng_ok (renv (sample_cx t))"
  by (simp add: sample_cx_def sample_repl_env_def rng_ok_def)

lemma sample_runs:
  "cache_run sample_cfg LRU_ops [CpuRequest sample_copy] sample_l2 sample_copied"
  "cache_run sample_cfg LRU_ops (map (\<lambda>(cx, ns, e). e) sample_steps) sample_copied sample_refilled"
  "cache_run sample_cfg LRU_ops [SpmRequest sample_store] sample_copied sample_stored"
  using play_run[OF sample_states(1), of sample_cfg LRU_ops] play_run[OF sample_states(3), of sample_cfg LRU_ops]
    play_run[OF sample_states(5), of sample_cfg LRU_ops]
  by (simp_all add: sample_cx_ok sample_steps_def)

lemma sample_reachable:
  "cache_reachable sample_cfg LRU_ops (\<lambda>_. True) sample_copied"
  "cache_reachable sample_cfg LRU_ops (\<lambda>_. True) sample_refilled"
  "cache_reachable sample_cfg LRU_ops (\<lambda>_. True) sample_stored"
  "cache_reachable sample_cfg LRU_ops (\<lambda>_. True) sample_l2"
proof -
  have n: "cache_reachable sample_cfg LRU_ops (\<lambda>_. True) c" if "cache_run sample_cfg LRU_ops es sample_l2 c" for es c
    unfolding cache_reachable_def
  proof (intro conjI exI)
    show "replacement_policy LRU_ops (\<lambda>_. True)" by (rule lru.replacement_policy_axioms)
    show "0 < blkSize sample_cfg" by (simp add: sample_cfg_def)
    show "tags_ok (\<lambda>_. True) sample_l2_tags" by (rule sample_tags_ok)
    show "cache_run sample_cfg LRU_ops es (BaseCache_new 1 2 sample_l2_tags (replicate 8 0) None 10) c"
      using that by (simp only: sample_l2_def)
  qed simp_all
  show "cache_reachable sample_cfg LRU_ops (\<lambda>_. True) sample_copied" by (rule n[OF sample_runs(1)])
  show "cache_reachable sample_cfg LRU_ops (\<lambda>_. True) sample_refilled"
    by (rule n[OF cache_run_append[OF sample_runs(1,2)]])
  show "cache_reachable sample_cfg LRU_ops (\<lambda>_. True) sample_stored"
    by (rule n[OF cache_run_append[OF sample_runs(1,3)]])
  show "cache_reachable sample_cfg LRU_ops (\<lambda>_. True) sample_l2" by (rule n[OF cache_run.idle])
qed

section \<open>The scratchpad\<close>

text \<open>
  C1. Data in the scratchpad survives whatever the cache does. Take a cache in any state it can
  reach, and any further sequence of requests, responses, snoops, sends and retries: a block
  that no scratchpad copy or scratchpad store names, neither one among the requests nor one
  waiting in a miss register, neither becomes a slot nor stops being one; if it is one, its data,
  tag, coherence bits, validity and ready time are what they were. This holds for every
  replacement policy that answers with one of its candidates.
\<close>

theorem scratchpad_survives:
  assumes "cache_reachable g po good c" and "cache_run g po es c c'" and "i < length (tagBlks (c_tags c))"
    and "i \<notin> slots_of (tagsIp (c_tags c))
           (queue_slots (mshrQueue c) \<union> (\<Union>e\<in>set es. event_slots g (tagsIp (c_tags c)) e))"
  shows "(blk_isSet ScratchpadBit (blk_at (c_tags c') i) \<longleftrightarrow> blk_isSet ScratchpadBit (blk_at (c_tags c) i)) \<and>
    (blk_isSet ScratchpadBit (blk_at (c_tags c) i) \<longrightarrow>
       (let b = blk_at (c_tags c) i; b' = blk_at (c_tags c') i
        in blkData b' = blkData b \<and> blkTag b' = blkTag b \<and> coherence b' = coherence b \<and>
           blkValid b' = blkValid b \<and> blkSecure b' = blkSecure b \<and> whenReady b' = whenReady b))"
proof -
  let ?A = "queue_slots (mshrQueue c) \<union> (\<Union>e\<in>set es. event_slots g (tagsIp (c_tags c)) e)"
  obtain A where "sound good A c" using reachable_sound[OF assms(1)] .
  then have s: "sound good ?A c" by (blast intro: sound_mono[OF sound_pending])
  have "evolves good ?A c c'"
    by (rule cache_run_evolves[OF assms(2) _ _ s]) (use assms(1) in \<open>auto simp: cache_reachable_def\<close>)
  then have len: "length (tagBlks (c_tags c')) = length (tagBlks (c_tags c))"
    and k: "i \<in> slot_set (c_tags c') \<longleftrightarrow> i \<in> slot_set (c_tags c)"
      "i \<in> slot_set (c_tags c) \<longrightarrow> same_but_refs (blk_at (c_tags c) i) (blk_at (c_tags c') i)"
    using assms(3,4) by (auto simp: evolves_def iso_def)
  have "same_but_refs b b' \<Longrightarrow> blkData b' = blkData b \<and> blkTag b' = blkTag b \<and> coherence b' = coherence b \<and>
      blkValid b' = blkValid b \<and> blkSecure b' = blkSecure b \<and> whenReady b' = whenReady b" for b b'
    by (cases b; cases b') (simp add: same_but_refs_def)
  then show ?thesis using k len assms(3) by (simp add: slot_set_def Let_def)
qed

lemma no_pending_slots:
  assumes "cache_reachable g po good c" "length (allocatedList (mshrQueue c)) = 0"
  shows "queue_slots (mshrQueue c) = {}"
proof -
  obtain A where "sound good A c" using reachable_sound[OF assms(1)] .
  then have "mq_inv (mshrQueue c)" by (simp add: sound_def q_ok_def mq_ok_def)
  then have "\<forall>i < numEntries (mshrQueue c). mshr_getNumTargets (entry_at (mshrQueue c) i) = 0"
    using assms(2) by (auto simp: queue_inv_def queue_wf_def)
  then show ?thesis by (auto simp: queue_slots_def mshr_slots_eq mshr_getNumTargets_def copy_slots_def)
qed

lemma sample_slot:
  "length (tagBlks (c_tags sample_copied)) = 4" "blk_isSet ScratchpadBit (blk_at (c_tags sample_copied) 1)"
  "blkData (blk_at (c_tags sample_copied) 1) = [1, 2, 3, 4, 5, 6, 7, 8]"
  using sample_states(2) by (auto simp: sample_copied_ok_def blk_at_def map_eq_Cons_conv)

lemma sample_untouched:
  "slots_of (tagsIp (c_tags sample_copied)) (queue_slots (mshrQueue sample_copied) \<union>
     (\<Union>e\<in>set (map (\<lambda>(cx, ns, e). e) sample_steps). event_slots sample_cfg (tagsIp (c_tags sample_copied)) e)) = {}"
proof -
  have "event_slots sample_cfg ip e = {}" if "e \<in> set (map (\<lambda>(cx, ns, e). e) sample_steps)" for e ip
    using that by (auto simp: sample_steps_def sample_access_def req_slots_def Packet_blk_def Let_def)
  then show ?thesis
    using no_pending_slots[OF sample_reachable(1)] sample_states(2) by (simp add: slots_of_def sample_copied_ok_def)
qed

theorem scratchpad_survives_witness:
  "blk_isSet ScratchpadBit (blk_at (c_tags sample_refilled) 1) \<and>
   blkData (blk_at (c_tags sample_refilled) 1) = [1, 2, 3, 4, 5, 6, 7, 8]"
  using scratchpad_survives[OF sample_reachable(1) sample_runs(2), of 1] sample_untouched sample_slot
  by (simp add: Let_def)

section \<open>Flow control\<close>

lemma sound_flow:
  assumes "sound good A c"
  shows "blocked c = block_flags c" and "port_ok (blocked c \<noteq> 0) (cpuSidePort c)"
  using assms by (auto simp: sound_def q_ok_def flow_ok_def)

lemma block_flags_zero: "block_flags c = 0 \<longleftrightarrow> \<not> isFull (mshrQueue c) \<and> \<not> isFull (writeBuffer c) \<and> noTargetMSHR c = None"
  by (auto simp: block_flags_def flag_word_def or_eq_0_iff)

lemma full_outstanding:
  assumes "queue_wf q" "numReserve q < numEntries q" "isFull q"
  shows "allocatedList q \<noteq> []"
  using assms by (auto simp: queue_wf_def isFull_def)

lemma not_full_room:
  assumes "queue_wf q" "\<not> isFull q"
  shows "numReserve q < length (freeList q)"
  using queue_wf_count(2)[OF assms(1)] assms by (simp add: queue_wf_def isFull_def)

lemma sound_queues:
  assumes "sound good A c"
  shows "queue_wf (mshrQueue c)" "queue_wf (writeBuffer c)" "numReserve (mshrQueue c) < numEntries (mshrQueue c)"
    "numReserve (writeBuffer c) < numEntries (writeBuffer c)" "ready_sorted (writeBuffer c)"
    "\<forall>i. noTargetMSHR c = Some i \<longrightarrow> i \<in> set (allocatedList (mshrQueue c))"
  using assms by (auto simp: sound_def q_ok_def mq_ok_def wq_ok_def wq_inv_def queue_inv_def)

text \<open>
  C4. No request waits for ever because a retry was lost. In every reachable state the port
  refuses requests exactly when a queue is full or a miss register has run out of targets, and
  then some entry is outstanding whose completion will unblock it. When the port is not blocked
  and owes its peer a retry, the retry event is scheduled, and handling it succeeds and leaves
  the port accepting the next request.
\<close>

theorem no_lost_retry:
  assumes "cache_reachable g po good c"
  shows "(portBlocked (cpuSidePort c) \<longleftrightarrow> isBlocked c) \<and>
    (isBlocked c \<longleftrightarrow> isFull (mshrQueue c) \<or> isFull (writeBuffer c) \<or> noTargetMSHR c \<noteq> None) \<and>
    (isBlocked c \<longrightarrow> allocatedList (mshrQueue c) \<noteq> [] \<or> readyList (writeBuffer c) \<noteq> []) \<and>
    (mustSendRetry (cpuSidePort c) \<and> \<not> portBlocked (cpuSidePort c) \<longrightarrow>
       admissible c Retry \<and>
       (\<exists>c'. handle cx ns Retry c = Inr c' \<and> fst (tryTiming False pkt (cpuSidePort c'))))"
proof -
  obtain A where s: "sound good A c" using reachable_sound[OF assms] .
  note f = sound_flow[OF s] and q = sound_queues[OF s]
  have b: "isBlocked c \<longleftrightarrow> isFull (mshrQueue c) \<or> isFull (writeBuffer c) \<or> noTargetMSHR c \<noteq> None"
    using block_flags_zero[of c] f(1) unfolding isBlocked_def by auto
  have "allocatedList (mshrQueue c) \<noteq> [] \<or> readyList (writeBuffer c) \<noteq> []" if "isBlocked c"
  proof -
    have "set (readyList (writeBuffer c)) = set (allocatedList (writeBuffer c))"
      using s by (auto simp: sound_def q_ok_def wq_ok_def wq_inv_def queue_inv_def queue_wf_def)
    then show ?thesis
      using that b full_outstanding[OF q(1,3)] full_outstanding[OF q(2,4)] q(6) by auto
  qed
  moreover have "portBlocked (cpuSidePort c) \<longleftrightarrow> isBlocked c" using f(2) unfolding port_ok_def isBlocked_def by blast
  moreover have "admissible c Retry \<and>
       (\<exists>c'. handle cx ns Retry c = Inr c' \<and> fst (tryTiming False pkt (cpuSidePort c')))"
    if "mustSendRetry (cpuSidePort c) \<and> \<not> portBlocked (cpuSidePort c)"
    using f(2) that unfolding port_ok_def by (simp add: processSendRetry_def tryTiming_def)
  ultimately show ?thesis using b by blast
qed

theorem no_lost_retry_witness:
  "admissible sample_refilled Retry \<and> \<not> isBlocked sample_refilled \<and>
   (\<exists>c'. handle (sample_cx 310) sample_ns Retry sample_refilled = Inr c' \<and>
      fst (tryTiming False (sample_access ReadReq 0xC0) (cpuSidePort c')))"
  using no_lost_retry[OF sample_reachable(2), of "sample_cx 310" sample_ns "sample_access ReadReq 0xC0"]
    sample_states(4) unfolding sample_refilled_ok_def by blast

text \<open>
  C5. The structural invariant of a cache. In every reachable state the blocks are well formed
  and the replacement store keeps its contract, each queue's lists partition its entries and
  agree with its counters, the write buffer is ordered by ready time, the mask of blocked
  causes says exactly which of them hold, blocking for any cause never trips the port's
  assertion and unblocking a blocked cache does not either, and a cache that is not blocked has
  a free miss register and, in the write buffer, more free entries than its reserve.
\<close>

theorem reachable_invariant:
  assumes "cache_reachable g po good c"
  shows "(\<forall>b \<in> set (tagBlks (c_tags c)). blk_wf b) \<and> good (rpStore (c_tags c)) \<and>
    queue_wf (mshrQueue c) \<and> queue_wf (writeBuffer c) \<and> ready_sorted (writeBuffer c) \<and>
    blocked c = flag_word (isFull (mshrQueue c)) (isFull (writeBuffer c)) (noTargetMSHR c \<noteq> None) \<and>
    (\<forall>cause. \<exists>c'. setBlocked cause c = Inr c') \<and>
    (isBlocked c \<longrightarrow> (\<forall>tk cause. \<exists>c'. clearBlocked tk cause c = Inr c')) \<and>
    (\<not> isBlocked c \<longrightarrow> freeList (mshrQueue c) \<noteq> [] \<and>
       numReserve (writeBuffer c) < length (freeList (writeBuffer c)))"
proof -
  obtain A where s: "sound good A c" using reachable_sound[OF assms] .
  note f = sound_flow[OF s] and q = sound_queues[OF s]
  have t: "\<forall>b \<in> set (tagBlks (c_tags c)). blk_wf b" "good (rpStore (c_tags c))"
    using sound_tags[OF s] by (auto simp: tags_ok_def)
  have sb: "\<exists>c'. setBlocked cause c = Inr c'" for cause
    using f(2) by (auto simp: setBlocked_def port_setBlocked_def port_ok_def must_def Let_def)
  have cb: "\<exists>c'. clearBlocked tk cause c = Inr c'" if "isBlocked c" for tk cause
    using f(2) that by (auto simp: clearBlocked_def port_clearBlocked_def port_ok_def must_def Let_def isBlocked_def)
  have room: "freeList (mshrQueue c) \<noteq> [] \<and> numReserve (writeBuffer c) < length (freeList (writeBuffer c))"
    if "\<not> isBlocked c"
  proof -
    have "\<not> isFull (mshrQueue c)" "\<not> isFull (writeBuffer c)"
      using that f(1) block_flags_zero[of c] by (simp_all add: isBlocked_def)
    then show ?thesis using not_full_room[OF q(1)] not_full_room[OF q(2)] by auto
  qed
  show ?thesis using t q f(1)[unfolded block_flags_def] sb cb room by blast
qed

theorem reachable_invariant_witness:
  "freeList (mshrQueue sample_refilled) \<noteq> [] \<and> (\<exists>c'. setBlocked Blocked_NoMSHRs sample_refilled = Inr c')"
proof -
  have "\<not> isBlocked sample_refilled \<longrightarrow> freeList (mshrQueue sample_refilled) \<noteq> []"
    "\<forall>cause. \<exists>c'. setBlocked cause sample_refilled = Inr c'"
    using reachable_invariant[OF sample_reachable(2)] by blast+
  moreover obtain A where "sound (\<lambda>_. True) A sample_refilled" using reachable_sound[OF sample_reachable(2)] .
  then have "\<not> isBlocked sample_refilled"
    using sound_flow(2) sample_states(4) unfolding port_ok_def sample_refilled_ok_def isBlocked_def by blast
  ultimately show ?thesis by blast
qed

end
