(* ===== verification/Scratchpad_Data.thy ===== *)
theory Scratchpad_Data
  imports Cache_Properties
begin

text \<open>
  The scratchpad as a memory. \<open>slot_holds\<close> says what a slot address holds; a copy and a store
  establish it (\<open>l2_copy_found\<close>, \<open>spm_store_loop\<close>), every run that does not name the slot keeps
  it, and a load returns it, from the request at the port to the response on the scratchpad
  bus.
\<close>

section \<open>Slot addresses\<close>

lemma drop_bit_aligned: "k \<le> m \<Longrightarrow> drop_bit m (push_bit k (drop_bit k a)) = drop_bit m (a :: addr)"
  by (rule bit_word_eqI) (auto simp: bit_simps dest: bit_imp_le_length)

lemma align_down: "k < 64 \<Longrightarrow> (a div of_nat (2 ^ k)) * of_nat (2 ^ k) = push_bit k (drop_bit k (a :: addr))"
  by (simp add: push_bit_eq_mult drop_bit_eq_div)

lemma extract_aligned:
  "k \<le> wayShift ip \<Longrightarrow> extractWay ip (push_bit k (drop_bit k a)) = extractWay ip a"
  "k \<le> setShift ip \<Longrightarrow> extractSet ip (push_bit k (drop_bit k a)) = extractSet ip a"
  by (simp_all add: extractWay_def extractSet_def drop_bit_aligned)

lemma slot_idx_aligned:
  "k \<le> wayShift ip \<Longrightarrow> k \<le> setShift ip \<Longrightarrow> slot_idx ip (push_bit k (drop_bit k a)) = slot_idx ip a"
  by (simp add: slot_idx_def extract_aligned getPossibleEntries_def)

lemma slot_addr_first: "a OR push_bit (wayShift ip) (of_nat (extractWay ip a)) = (a :: addr)"
  by (rule bit_word_eqI) (auto simp: extractWay_def bit_simps)

lemma blk_mask_power: "k < 32 \<Longrightarrow> blk_mask (2 ^ k) = mask k"
proof -
  assume k: "k < 32"
  have "blk_mask (2 ^ k) = (ucast (mask k :: 32 word) :: addr)" by (simp add: blk_mask_def mask_eq_exp_minus_1)
  also have "\<dots> = mask k" by (rule bit_word_eqI) (use k in \<open>auto simp: bit_simps\<close>)
  finally show ?thesis .
qed

lemma offset_power: "k < 32 \<Longrightarrow> unat (a mod of_nat (2 ^ k)) = unat (a AND blk_mask (2 ^ k) :: addr)"
  by (simp add: blk_mask_power take_bit_eq_mask[symmetric] take_bit_eq_mod)

lemma num_slots_one:
  assumes "0 < n" "off + n \<le> blkSize (cfg cx)"
  shows "num_slots cx off n = 1"
  unfolding num_slots_def using assms by (intro div_nat_eqI) auto

section \<open>What a slot holds\<close>

definition slot_holds :: "cache_cfg \<Rightarrow> 's tags \<Rightarrow> addr \<Rightarrow> byte list \<Rightarrow> bool" where
  "slot_holds g t a d \<longleftrightarrow>
     (case slot_idx (tagsIp t) a of
        None \<Rightarrow> False
      | Some s \<Rightarrow>
          let b = blk_at t s; off = unat (a AND blk_mask (blkSize g))
          in s < length (tagBlks t) \<and> blk_isSet ScratchpadBit b \<and> whenReady b \<noteq> MaxTick \<and>
             off + length d \<le> blkSize g \<and> off + length d \<le> length (blkData b) \<and>
             slice (blkData b) off (length d) = d)"

lemma slot_holdsE:
  assumes "slot_holds g t a d"
  obtains s where "slot_idx (tagsIp t) a = Some s" "s < length (tagBlks t)" "blk_isSet ScratchpadBit (blk_at t s)"
    "whenReady (blk_at t s) \<noteq> MaxTick" "unat (a AND blk_mask (blkSize g)) + length d \<le> blkSize g"
    "unat (a AND blk_mask (blkSize g)) + length d \<le> length (blkData (blk_at t s))"
    "slice (blkData (blk_at t s)) (unat (a AND blk_mask (blkSize g))) (length d) = d"
  using assms by (auto simp: slot_holds_def Let_def split: option.splits)

lemma same_but_refs_fields:
  "same_but_refs b b' \<Longrightarrow> blkData b' = blkData b \<and> coherence b' = coherence b \<and> blkValid b' = blkValid b \<and>
     whenReady b' = whenReady b \<and> tickInserted b' = tickInserted b \<and> blkTag b' = blkTag b"
  by (cases b; cases b') (simp add: same_but_refs_def)

lemma slot_holds_cong:
  assumes "slot_holds g t a d" "tagsIp t' = tagsIp t" "length (tagBlks t') = length (tagBlks t)"
    and "\<And>s. slot_idx (tagsIp t) a = Some s \<Longrightarrow> same_but_refs (blk_at t s) (blk_at t' s)"
  shows "slot_holds g t' a d"
proof -
  obtain s where s: "slot_idx (tagsIp t) a = Some s" using assms(1) by (rule slot_holdsE)
  show ?thesis using assms(1) same_but_refs_fields[OF assms(4)[OF s]] s assms(2,3)
    by (simp add: slot_holds_def Let_def blk_isSet_def)
qed

lemma slot_holds_evolves:
  assumes "slot_holds g (c_tags c) a d" "evolves good A c c'" "slot_idx (tagsIp (c_tags c)) a = Some s"
    and "s \<notin> slots_of (tagsIp (c_tags c)) A"
  shows "slot_holds g (c_tags c') a d"
proof -
  have "s < length (tagBlks (c_tags c)) \<and> blk_isSet ScratchpadBit (blk_at (c_tags c) s)"
    using assms(1,3) by (auto elim: slot_holdsE)
  then show ?thesis
    using assms by (intro slot_holds_cong[OF assms(1)]) (auto simp: evolves_def iso_def slot_set_def)
qed

section \<open>Loads\<close>

text \<open>The requests the second level receives on the scratchpad port for one slot.\<close>

definition spm_request :: "cache_cfg \<Rightarrow> mem_cmd \<Rightarrow> packet \<Rightarrow> addr \<Rightarrow> byte list \<Rightarrow> bool" where
  "spm_request g cm p a d \<longleftrightarrow>
     cmd p = cm \<and> getAddr p = a \<and> getSize p = length d \<and> pdata p = Some d \<and> d \<noteq> [] \<and>
     flag_isSet (pflags p) VALID_ADDR \<and> flag_isSet (pflags p) (STATIC_DATA OR DYNAMIC_DATA) \<and>
     \<not> cacheResponding p \<and> \<not> isUncacheable (req p) \<and>
     is_l2_cache g \<and> \<not> is_l1_cache g \<and> \<not> isReadOnly g \<and> spmConnected g"

text \<open>The geometry the slot addresses rely on: a line is a power of two below the set bits.\<close>

definition line_geometry :: "cache_cfg \<Rightarrow> indexing_policy \<Rightarrow> bool" where
  "line_geometry g ip \<longleftrightarrow> (\<exists>k < 32. blkSize g = 2 ^ k \<and> k \<le> setShift ip \<and> k \<le> wayShift ip)"

lemma geometry_facts:
  assumes "line_geometry g ip"
  shows "slot_idx ip ((a div of_nat (blkSize g)) * of_nat (blkSize g)) = slot_idx ip a"
    and "extractWay ip ((a div of_nat (blkSize g)) * of_nat (blkSize g)) = extractWay ip a"
    and "unat (a mod of_nat (blkSize g)) = unat (a AND blk_mask (blkSize g))"
proof -
  obtain k where k: "k < 32" "blkSize g = 2 ^ k" "k \<le> setShift ip" "k \<le> wayShift ip"
    using assms by (auto simp: line_geometry_def)
  have b: "(a div of_nat (blkSize g)) * of_nat (blkSize g) = push_bit k (drop_bit k a)"
    unfolding k(2) using k(1) by (intro align_down) simp
  show "slot_idx ip ((a div of_nat (blkSize g)) * of_nat (blkSize g)) = slot_idx ip a"
    "extractWay ip ((a div of_nat (blkSize g)) * of_nat (blkSize g)) = extractWay ip a"
    unfolding b using k(3,4) by (simp_all add: slot_idx_aligned extract_aligned)
  show "unat (a mod of_nat (blkSize g)) = unat (a AND blk_mask (blkSize g))"
    unfolding k(2) by (rule offset_power[OF k(1)])
qed

lemma load_slot_found:
  assumes "tags_ok good (f_tags f)" "slot_holds (cfg cx) (f_tags f) a d" "flag_isSet (pflags (f_pkt f)) VALID_ADDR"
    and "slot_idx (tagsIp (f_tags f)) base = slot_idx (tagsIp (f_tags f)) a"
    and "extractWay (tagsIp (f_tags f)) base = w" "w < getWayAllocationMax (f_tags f)"
  shows "\<exists>s l f1. spm_load_slots cx base w [0] [] tlat f = Inr (Some [s], l, f1) \<and>
    slot_idx (tagsIp (f_tags f1)) a = Some s \<and> slot_holds (cfg cx) (f_tags f1) a d \<and>
    f_pkt f1 = (f_pkt f)\<lparr>slotidx := base\<rparr> \<and> f_wbs f1 = f_wbs f \<and> spmResps (f_cache f1) = spmResps (f_cache f)"
proof -
  let ?p = "(f_pkt f)\<lparr>slotidx := base\<rparr>"
  have addr: "slot_addr_of cx base (w + 0) f = base" using slot_addr_first[of base "tagsIp (f_tags f)"] assms(5) by (simp add: slot_addr_of_def)
  obtain s where s: "slot_idx (tagsIp (f_tags f)) a = Some s" using assms(2) by (rule slot_holdsE)
  obtain r l f1 where f1: "f_findSPMSlot (f\<lparr>f_pkt := ?p\<rparr>) = (r, l, f1)" by (metis prod_cases3)
  have i: "iso good {} (f_tags f) (f_tags f1)" "r = Some s" "f_pkt f1 = ?p" "f_wbs f1 = f_wbs f"
      "\<And>j. same_but_refs (blk_at (f_tags f) j) (blk_at (f_tags f1) j)"
    using f_findSPMSlot_iso[OF _ f1, of good "{}"] assms(1,4) s by (auto simp: getSlot_def)
  have h: "slot_holds (cfg cx) (f_tags f1) a d"
    by (rule slot_holds_cong[OF assms(2)]) (use i in \<open>auto simp: iso_def\<close>)
  have ip: "tagsIp (f_tags f1) = tagsIp (f_tags f)" using i(1) by (simp add: iso_def)
  have "blk_isSet ScratchpadBit (blk_at (f_tags f1) s)" using h s ip by (auto elim: slot_holdsE)
  then have "spm_load_slots cx base w [0] [] tlat f = Inr (Some [s], l, f1)"
    using assms(3,6) f1 i(2) addr by (simp add: setSlot_def must_def blk_isSet_def)
  moreover have "spmResps (f_cache f1) = spmResps (f_cache f)"
    using f1 by (auto simp: f_findSPMSlot_def f_with_tags_def split: prod.splits)
  moreover have "slot_idx (tagsIp (f_tags f1)) a = Some s" using s ip by simp
  ultimately show ?thesis using h i(3,4) by blast
qed

lemma load_access:
  assumes "tags_ok good (f_tags f)" "slot_holds (cfg cx) (f_tags f) a d" "line_geometry (cfg cx) (tagsIp (f_tags f))"
    and "spm_request (cfg cx) SPMLoadReq (f_pkt f) a buf" "length buf = length d"
    and "extractWay (tagsIp (f_tags f)) a < getWayAllocationMax (f_tags f)"
  shows "\<exists>f'. l2_ldst_access cx tlat f = Inr (True, f') \<and> f_pkt f' = (f_pkt f)\<lparr>SPM_LDST_resp := True, slotidx := a, pdata := Some d\<rparr> \<and>
    f_wbs f' = f_wbs f \<and> spmResps (f_cache f') = spmResps (f_cache f)"
proof -
  let ?bs = "blkSize (cfg cx)" and ?ip = "tagsIp (f_tags f)"
  let ?base = "(a div of_nat ?bs) * of_nat ?bs" and ?off = "unat (a AND blk_mask ?bs)"
  note r = assms(4)[unfolded spm_request_def]
  note g = geometry_facts[OF assms(3), of a]
  have d: "0 < length d" "?off + length d \<le> ?bs" using r assms(2,5) by (auto elim: slot_holdsE)
  let ?f = "f\<lparr>f_pkt := (f_pkt f)\<lparr>SPM_LDST_resp := True, slotidx := a\<rparr>\<rparr>"
  obtain s l f1 where f1: "spm_load_slots cx ?base (extractWay ?ip a) [0] [] tlat ?f = Inr (Some [s], l, f1)"
      "slot_idx (tagsIp (f_tags f1)) a = Some s" "slot_holds (cfg cx) (f_tags f1) a d"
      "f_pkt f1 = (f_pkt ?f)\<lparr>slotidx := ?base\<rparr>" "f_wbs f1 = f_wbs f" "spmResps (f_cache f1) = spmResps (f_cache f)"
    using load_slot_found[of good ?f cx a d ?base "extractWay ?ip a" tlat] assms(1,2,6) g r by auto
  let ?b = "blk_at (f_tags f1) s"
  have b: "whenReady ?b \<noteq> MaxTick" "?off + length d \<le> length (blkData ?b)" "slice (blkData ?b) ?off (length d) = d"
    using f1(2,3) by (auto elim: slot_holdsE)
  then obtain lt where lt: "calculateAccessLatency cx (Some ?b) (headerDelay (f_pkt f)) l = Inr lt"
    by (simp add: calculateAccessLatency_def getWhenReady_def Let_def)
  have cp: "memcpy buf 0 (drop ?off (blkData ?b)) (length d) = d"
    using assms(5) b(2,3) by (simp add: memcpy_def slice_def)
  have n: "num_slots cx ?off (length d) = Suc 0" using num_slots_one[OF d] by simp
  have "min (?bs - ?off) (length d) = length d" using d by simp
  then have "l2_ldst_access cx tlat f =
      Inr (True, f1\<lparr>f_pkt := (f_pkt f)\<lparr>SPM_LDST_resp := True, slotidx := a, pdata := Some d\<rparr>, f_lat := lt\<rparr>)"
    using r f1 g n lt cp assms(5)
    by (simp add: l2_ldst_access_def l2_load_access_def setSlot_def must_def Let_def chunk_at_def getSlot_def getAddr_def
        getSize_def getPtr_def getConstPtr_def isMaskedWrite_def hasRespData_def cmd_table)
  then show ?thesis using f1(5,6) by simp
qed

text \<open>From the port to the response on the scratchpad bus.\<close>

lemma lookup_succeeds:
  assumes "cx_ok good cx" "tags_ok good t"
  shows "\<exists>r l t'. accessBlock (ops cx) (renv cx) p t = Inr (r, l, t')"
proof (cases "findBlock (getAddr p) (isSecure p) t")
  case (Some i)
  obtain rp where "rp_touch (ops cx) (renv cx) i (rpStore t) = Inr rp"
    using replacement_policy.wf_touch[of "ops cx" good "rpStore t" "renv cx" i] assms by (auto simp: cx_ok_def tags_ok_def)
  then show ?thesis using Some by (simp add: accessBlock_def Let_def)
qed (simp add: accessBlock_def Let_def)

lemma accessBlock_ways: "accessBlock po e p t = Inr (r, l, t') \<Longrightarrow> getWayAllocationMax t' = getWayAllocationMax t"
  by (auto simp: accessBlock_def getWayAllocationMax_def Let_def upd_blk_def split: option.splits)

lemma slot_holds_lookup:
  assumes "cx_ok good cx" "tags_ok good t" "accessBlock (ops cx) (renv cx) p t = Inr (r, l, t')" "slot_holds g t a d"
  shows "slot_holds g t' a d"
proof (rule slot_holds_cong[OF assms(4)])
  have i: "iso good {} t t'" using accessBlock_iso[OF assms(1-3)] by blast
  then show "tagsIp t' = tagsIp t" "length (tagBlks t') = length (tagBlks t)" by (simp_all add: iso_def)
  fix s assume "slot_idx (tagsIp t) a = Some s"
  then have "s < length (tagBlks t) \<and> s \<in> slot_set t" using assms(4) by (auto simp: slot_set_def elim: slot_holdsE)
  then show "same_but_refs (blk_at t s) (blk_at t' s)" using i by (simp add: iso_def)
qed

lemma spmSchedResp_resps:
  "spmConnected g \<Longrightarrow> \<exists>t'. spmResps (spmSchedResp g p t c) = spmResps c @ [(p, t')]"
  by (auto simp: spmSchedResp_def sharedReadEgress_def Let_def split_def)

lemma spm_request_misc:
  assumes "spm_request g cm p a d" "isSPMcmd cm"
  shows "promoteWholeLineWrites g p = p" "unlock_blk p c = Inr c" "isRequest (cmd p)" "needsResponse (cmd p)"
    "\<not> isLockedRMW (cmd p)" "isSPMcmd (cmd p)" "\<not> isMaskedWrite p"
  using assms
  by (auto simp: spm_request_def isSPMcmd_def promoteWholeLineWrites_def unlock_blk_def isMaskedWrite_def cmd_table)

text \<open>An access that hits is answered on the scratchpad bus; the tags stay as the access left them.\<close>

lemma spm_hit_handled:
  assumes "spm_request (cfg cx) cm p a d" "isSPMcmd cm" "access cx p c = Inr (True, f)" "f_wbs f = []"
    and "cmd (f_pkt f) = cm" "\<not> isUncacheable (req (f_pkt f))"
  shows "handle cx ns (SpmRequest p) c = Inr (spmSchedResp (cfg cx) ((f_pkt f)\<lparr>headerDelay := 0, payloadDelay := 0,
      cmd := responseCommand cm, pflags := flag_clear (pflags (f_pkt f)) EXPRESS_SNOOP\<rparr>) (clockEdge cx (f_lat f)) (f_cache f))"
proof -
  note q = spm_request_misc[OF assms(1,2)] and r = assms(1)[unfolded spm_request_def]
  let ?p = "(f_pkt f)\<lparr>headerDelay := 0, payloadDelay := 0\<rparr>"
  have "handle cx ns (SpmRequest p) c = bindR (handleTimingReqHit cx ns ?p (f_blk f) (clockEdge cx (f_lat f)) (f_cache f)) Inr"
    using q(1) q(2)[of c] q(3) r assms(3,4)
    by (simp add: spm_recvTimingReq_def tryTiming_def CacheResponsePort_new_def must_def recvTimingReq_def base_recvTimingReq_def
        Let_def bindR_assoc)
  then show ?thesis
    using r q(3,4,5) assms(2,5,6)
    by (simp add: handleTimingReqHit_def respond_hit_def must_def makeResponse_def Let_def)
qed

lemma load_returns:
  assumes "cx_ok good cx" "tags_ok good (c_tags c)" "slot_holds (cfg cx) (c_tags c) a d"
    and "line_geometry (cfg cx) (tagsIp (c_tags c))" "spm_request (cfg cx) SPMLoadReq p a buf" "length buf = length d"
    and "extractWay (tagsIp (c_tags c)) a < getWayAllocationMax (c_tags c)"
  shows "\<exists>c' r t. handle cx ns (SpmRequest p) c = Inr c' \<and> spmResps c' = spmResps c @ [(r, t)] \<and>
    cmd r = ReadResp \<and> pdata r = Some d"
proof -
  have m: "isSPMcmd SPMLoadReq" by (simp add: isSPMcmd_def)
  note q = spm_request_misc[OF assms(5) m] and r = assms(5)[unfolded spm_request_def]
  obtain blk tlat t where t: "accessBlock (ops cx) (renv cx) p (c_tags c) = Inr (blk, tlat, t)"
    using lookup_succeeds[OF assms(1,2)] by blast
  define f where "f = \<lparr>f_pkt = p, f_blk = blk, f_lat = 0, f_wbs = [], f_cache = c\<lparr>c_tags := t\<rparr>\<rparr>"
  have i: "iso good {} (c_tags c) t" using accessBlock_iso[OF assms(1,2) t] by blast
  then have ip: "tagsIp t = tagsIp (c_tags c)" by (simp add: iso_def)
  have "\<exists>f'. l2_ldst_access cx tlat f = Inr (True, f') \<and> f_pkt f' = (f_pkt f)\<lparr>SPM_LDST_resp := True, slotidx := a, pdata := Some d\<rparr> \<and>
    f_wbs f' = f_wbs f \<and> spmResps (f_cache f') = spmResps (f_cache f)"
    by (rule load_access[of good _ _ _ _ buf])
      (use iso_ok[OF i] slot_holds_lookup[OF assms(1,2) t assms(3)] assms(4-7) ip accessBlock_ways[OF t] in \<open>auto simp: f_def\<close>)
  then obtain f' where f': "l2_ldst_access cx tlat f = Inr (True, f')"
      "f_pkt f' = p\<lparr>SPM_LDST_resp := True, slotidx := a, pdata := Some d\<rparr>" "f_wbs f' = []" "spmResps (f_cache f') = spmResps c"
    by (auto simp: f_def)
  have a: "access cx p c = Inr (True, f')"
    using r t f'(1) q(3,6)
    by (simp add: access_def base_access_def must_def Let_def access_spm_l2_def l2_copy_source_def f_def)
  have rc: "responseCommand SPMLoadReq = ReadResp" by (simp add: cmd_table)
  from spm_hit_handled[OF assms(5) m a f'(3)] r f'(2)
  have h: "handle cx ns (SpmRequest p) c = Inr (spmSchedResp (cfg cx) ((f_pkt f')\<lparr>headerDelay := 0, payloadDelay := 0,
      cmd := responseCommand SPMLoadReq, pflags := flag_clear (pflags (f_pkt f')) EXPRESS_SNOOP\<rparr>) (clockEdge cx (f_lat f')) (f_cache f'))"
    by simp
  obtain t' where "spmResps (spmSchedResp (cfg cx) ((f_pkt f')\<lparr>headerDelay := 0, payloadDelay := 0,
      cmd := responseCommand SPMLoadReq, pflags := flag_clear (pflags (f_pkt f')) EXPRESS_SNOOP\<rparr>) (clockEdge cx (f_lat f')) (f_cache f')) =
      spmResps (f_cache f') @ [((f_pkt f')\<lparr>headerDelay := 0, payloadDelay := 0,
      cmd := responseCommand SPMLoadReq, pflags := flag_clear (pflags (f_pkt f')) EXPRESS_SNOOP\<rparr>, t')]"
    using spmSchedResp_resps[of "cfg cx"] r by blast
  then show ?thesis unfolding h using f'(2,4) rc by auto
qed

section \<open>Stores and copies\<close>

lemma findSPMSlot_latency: "f_findSPMSlot f = (r, l, f') \<Longrightarrow> l = lookupLatency (f_tags f)"
  by (auto simp: f_findSPMSlot_def findSPMSlot_def Let_def split: prod.splits option.splits)

lemma clockEdge_now: "0 < clockPeriod (cfg cx) \<Longrightarrow> curTick cx \<le> clockEdge cx n"
proof -
  assume p: "0 < clockPeriod (cfg cx)"
  let ?p = "clockPeriod (cfg cx)" and ?x = "curTick cx + clockPeriod (cfg cx) - 1"
  have "?p * (?x div ?p) + ?x mod ?p = ?x" "?x mod ?p < ?p" using p by auto
  then have "curTick cx \<le> ?p * (?x div ?p)" using p by linarith
  then show ?thesis by (simp add: clockEdge_def ticksToCycles_def)
qed

text \<open>Writing bytes into a slot makes it hold them.\<close>

lemma fill_slot_holds:
  assumes "slot_idx (tagsIp (f_tags f)) a = Some s" "s < length (tagBlks (f_tags f))"
    and "blk_isSet ScratchpadBit (blk_at (f_tags f) s)" "length (blkData (blk_at (f_tags f) s)) = blkSize g"
    and "unat (a AND blk_mask (blkSize g)) + n \<le> blkSize g" "n \<le> length src" "ready < MaxTick"
    and "f_with_blk s (fill_slot (unat (a AND blk_mask (blkSize g))) src n ready) f = Inr f'"
  shows "slot_holds g (f_tags f') a (take n src)"
proof -
  from assms(8) have "f_tags f' = upd_blk s ((blk_at (f_tags f) s)\<lparr>blkData :=
      memcpy (blkData (blk_at (f_tags f) s)) (unat (a AND blk_mask (blkSize g))) src n, whenReady := ready\<rparr>) (f_tags f)"
    by (auto simp: f_with_blk_def with_blk_def fill_slot_def setWhenReady_def)
  then show ?thesis
    using assms by (simp add: slot_holds_def Let_def upd_blk_def blk_at_def blk_isSet_def)
qed

lemma store_access:
  assumes "tags_ok good (f_tags f)" "line_geometry (cfg cx) (tagsIp (f_tags f))" "spm_request (cfg cx) SPMStoreReq (f_pkt f) a d"
    and "slot_idx (tagsIp (f_tags f)) a = Some s" "blk_isSet ScratchpadBit (blk_at (f_tags f) s)"
    and "length (blkData (blk_at (f_tags f) s)) = blkSize (cfg cx)" "unat (a AND blk_mask (blkSize (cfg cx))) + length d \<le> blkSize (cfg cx)"
    and "extractWay (tagsIp (f_tags f)) a < getWayAllocationMax (f_tags f)"
    and "tickInserted (blk_at (f_tags f) s) \<le> slot_ready_at cx (lookupLatency (f_tags f)) (f_pkt f)"
    and "slot_ready_at cx (lookupLatency (f_tags f)) (f_pkt f) < MaxTick"
  shows "\<exists>f'. l2_ldst_access cx tlat f = Inr (True, f') \<and> slot_holds (cfg cx) (f_tags f') a d \<and>
    f_pkt f' = (f_pkt f)\<lparr>SPM_LDST_resp := True, slotidx := a\<rparr> \<and> f_wbs f' = f_wbs f"
proof -
  let ?bs = "blkSize (cfg cx)" and ?ip = "tagsIp (f_tags f)" and ?rd = "slot_ready_at cx (lookupLatency (f_tags f)) (f_pkt f)"
  let ?base = "(a div of_nat ?bs) * of_nat ?bs" and ?off = "unat (a AND blk_mask ?bs)"
  note r = assms(3)[unfolded spm_request_def]
  note g = geometry_facts[OF assms(2), of a]
  have n: "num_slots cx ?off (length d) = Suc 0" using num_slots_one[of "length d" ?off cx] assms(7) r by simp
  let ?f = "f\<lparr>f_pkt := (f_pkt f)\<lparr>SPM_LDST_resp := True, slotidx := ?base\<rparr>\<rparr>"
  have addr: "slot_addr_of cx ?base (extractWay ?ip a) (f\<lparr>f_pkt := q\<rparr>) = ?base" for q
    using slot_addr_first[of ?base ?ip] g(2) by (simp add: slot_addr_of_def)
  obtain o1 l f1 where f1: "f_findSPMSlot ?f = (o1, l, f1)" by (metis prod_cases3)
  have l: "l = lookupLatency (f_tags f)" using findSPMSlot_latency[OF f1] by simp
  have i: "iso good {} (f_tags f) (f_tags f1)" "o1 = Some s" "s < length (tagBlks (f_tags f1))" "f_pkt f1 = f_pkt ?f"
      "f_wbs f1 = f_wbs f" "same_but_refs (blk_at (f_tags f) s) (blk_at (f_tags f1) s)"
    using f_findSPMSlot_iso[OF _ f1, of good "{}"] assms(1,4) g(1) by (auto simp: getSlot_def)
  note b = same_but_refs_fields[OF i(6)]
  have set: "blk_isSet ScratchpadBit (blk_at (f_tags f1) s)" "blkValid (blk_at (f_tags f1) s)"
    using assms(5) b by (auto simp: blk_isSet_def)
  obtain f2 where f2: "f_with_blk s (fill_slot ?off d (length d) ?rd) f1 = Inr f2" "f_pkt f2 = f_pkt f1" "f_wbs f2 = f_wbs f1"
    using assms(9) b by (simp add: f_with_blk_def with_blk_def fill_slot_def setWhenReady_def must_def)
  have ip: "tagsIp (f_tags f1) = ?ip" using i(1) by (simp add: iso_def)
  have h: "slot_holds (cfg cx) (f_tags f2) a d"
    using fill_slot_holds[OF _ i(3) set(1) _ assms(7) _ assms(10) f2(1)] assms(4,6) ip b by simp
  have mn: "min (?bs - ?off) (length d) = length d" using assms(7) by simp
  have rd: "slot_ready_at cx l ((f_pkt f)\<lparr>SPM_LDST_resp := True, slotidx := ?base\<rparr>) = ?rd"
    by (simp add: slot_ready_at_def l)
  have "l2_ldst_access cx tlat f = Inr (True, tag_only cx l (f2\<lparr>f_pkt := (f_pkt f)\<lparr>SPM_LDST_resp := True, slotidx := a\<rparr>\<rparr>))"
    using r f1 i(2,4) set f2(1,2) g n assms(8) mn rd
    by (simp add: l2_ldst_access_def setSlot_def must_def Let_def chunk_at_def getSlot_def getAddr_def getSize_def
        getConstPtr_def addr)
  then show ?thesis using h f2(3) i(5) by (simp add: tag_only_def)
qed

lemma store_handled:
  assumes "cx_ok good cx" "tags_ok good (c_tags c)" "line_geometry (cfg cx) (tagsIp (c_tags c))"
    and "spm_request (cfg cx) SPMStoreReq p a d" "slot_idx (tagsIp (c_tags c)) a = Some s"
    and "blk_isSet ScratchpadBit (blk_at (c_tags c) s)" "length (blkData (blk_at (c_tags c) s)) = blkSize (cfg cx)"
    and "unat (a AND blk_mask (blkSize (cfg cx))) + length d \<le> blkSize (cfg cx)"
    and "extractWay (tagsIp (c_tags c)) a < getWayAllocationMax (c_tags c)"
    and "tickInserted (blk_at (c_tags c) s) \<le> curTick cx" "0 < clockPeriod (cfg cx)"
    and "slot_ready_at cx (lookupLatency (c_tags c)) p < MaxTick"
  shows "\<exists>c1. handle cx ns (SpmRequest p) c = Inr c1 \<and> slot_holds (cfg cx) (c_tags c1) a d"
proof -
  have m: "isSPMcmd SPMStoreReq" by (simp add: isSPMcmd_def)
  note q = spm_request_misc[OF assms(4) m] and r = assms(4)[unfolded spm_request_def]
  obtain blk tlat t where t: "accessBlock (ops cx) (renv cx) p (c_tags c) = Inr (blk, tlat, t)"
    using lookup_succeeds[OF assms(1,2)] by blast
  define f where "f = \<lparr>f_pkt = p, f_blk = blk, f_lat = 0, f_wbs = [], f_cache = c\<lparr>c_tags := t\<rparr>\<rparr>"
  have i: "iso good {} (c_tags c) t" using accessBlock_iso[OF assms(1,2) t] by blast
  have s: "s < length (tagBlks (c_tags c))"
    using possible_entry_ok[OF assms(2)] find_Some_mem[of _ _ s] assms(5) unfolding slot_idx_def by blast
  have b: "same_but_refs (blk_at (c_tags c) s) (blk_at t s)"
    using i s assms(6) by (simp add: iso_def slot_set_def)
  note bf = same_but_refs_fields[OF b]
  have ip: "tagsIp t = tagsIp (c_tags c)" using i by (simp add: iso_def)
  have lat: "lookupLatency t = lookupLatency (c_tags c)"
    using t by (auto simp: accessBlock_def Let_def upd_blk_def split: option.splits)
  have "tickInserted (blk_at (c_tags c) s) \<le> slot_ready_at cx (lookupLatency (c_tags c)) p"
    using assms(10) clockEdge_now[OF assms(11), of "fillLatency (cfg cx)"] by (simp add: slot_ready_at_def)
  then have "\<exists>f'. l2_ldst_access cx tlat f = Inr (True, f') \<and> slot_holds (cfg cx) (f_tags f') a d \<and>
      f_pkt f' = (f_pkt f)\<lparr>SPM_LDST_resp := True, slotidx := a\<rparr> \<and> f_wbs f' = f_wbs f"
    by (intro store_access[of good _ _ _ _ s])
      (use iso_ok[OF i] assms(3-9,12) ip bf accessBlock_ways[OF t] lat in \<open>auto simp: f_def blk_isSet_def\<close>)
  then obtain f' where f': "l2_ldst_access cx tlat f = Inr (True, f')" "slot_holds (cfg cx) (f_tags f') a d"
      "f_pkt f' = p\<lparr>SPM_LDST_resp := True, slotidx := a\<rparr>" "f_wbs f' = []"
    by (auto simp: f_def)
  have "access cx p c = Inr (True, f')"
    using r t f'(1) q(3,6)
    by (simp add: access_def base_access_def must_def Let_def access_spm_l2_def l2_copy_source_def f_def)
  from spm_hit_handled[OF assms(4) m this f'(4), of ns] r f'(3)
  obtain x y where h: "handle cx ns (SpmRequest p) c = Inr (spmSchedResp (cfg cx) x y (f_cache f'))" by auto
  show ?thesis by (intro exI conjI, rule h) (simp add: f'(2))
qed

lemma set_blk_data [simp]:
  "i < length (tagBlks (c_tags c)) \<Longrightarrow> blk_at (c_tags (set_blk (InTags i) b c)) i = b"
  by (simp add: blk_at_def upd_blk_def)

lemma invalidate_data:
  assumes "i < length (tagBlks (c_tags c))" "invalidateBlock cx (InTags i) c = Inr c'"
  shows "blkData (blk_at (c_tags c') i) = blkData (blk_at (c_tags c) i)"
proof -
  from assms(2) obtain b where "blk_invalidate (blk_at (c_tags c) i) = Inr b"
      "tagBlks (c_tags c') = (tagBlks (c_tags c))[i := b]"
    by (auto simp: invalidateBlock_def tags_invalidate_def base_invalidate_def blk_at_def upd_blk_def Let_def split: option.splits)
  then show ?thesis
    using assms(1) by (auto simp: blk_at_def blk_invalidate_def setWhenReady_def tagged_invalidate_def clearCoherenceBits_def
        clearPrefetched_def Let_def)
qed

lemma evict_data:
  assumes "i < length (tagBlks (c_tags c))" "evictBlock cx (InTags i) c = Inr (p, c')"
  shows "blkData (blk_at (c_tags c') i) = blkData (blk_at (c_tags c) i)"
proof -
  from assms(2) obtain p1 c1 where "c1 = c \<or> writebackBlk cx (InTags i) c = Inr (p1, c1)"
      and i: "invalidateBlock cx (InTags i) c1 = Inr c'"
    by (auto simp: evictBlock_def split: if_splits)
  then have "blkData (blk_at (c_tags c1) i) = blkData (blk_at (c_tags c) i) \<and>
      length (tagBlks (c_tags c1)) = length (tagBlks (c_tags c))"
    using assms(1)
    by (auto simp: writebackBlk_def Let_def pass_state_def clearCoherenceBits_def blk_at_def upd_blk_def split: if_splits)
  then show ?thesis using invalidate_data[OF _ i] assms(1) by simp
qed

lemma vacate_data:
  assumes "s < length (tagBlks (f_tags f))" "vacate_slot cx s f = Inr (True, f')"
  shows "blkData (blk_at (f_tags f') s) = blkData (blk_at (f_tags f) s)"
proof -
  from assms(2) have "f_cache f' = f_cache f \<or> (\<exists>p. evictBlock cx (InTags s) (f_cache f) = Inr (p, f_cache f'))"
    by (auto simp: vacate_slot_def handleEvictions_def Let_def split: if_splits)
  then show ?thesis using evict_data[OF assms(1)] by auto
qed

lemma insert_data:
  assumes "s < length (tagBlks t)" "insertBlock po e p s t = Inr t'"
  shows "blkData (blk_at t' s) = blkData (blk_at t s)" "length (tagBlks t') = length (tagBlks t)"
proof -
  from assms(2) obtain b where "blk_insert (now e) (tagsIp t) (getAddr p) (isSecure p) (requestorId (req p)) (taskId (req p))
      (case partitionManager t of None \<Rightarrow> 0 | Some pm \<Rightarrow> readPacketPartitionID p) (blk_at t s) = Inr b"
      and t': "tagBlks t' = (tagBlks t)[s := b]"
    by (auto simp: insertBlock_def base_insertBlock_def upd_blk_def Let_def split: option.splits)
  then have "blkData b = blkData (blk_at t s)"
    by (auto simp: blk_insert_def tagged_insert_def setValid_def increaseRefCount_def Let_def)
  with t' assms(1) show "blkData (blk_at t' s) = blkData (blk_at t s)" "length (tagBlks t') = length (tagBlks t)"
    by (simp_all add: blk_at_def)
qed

lemma make_slot_result: "make_slot b = Inr b' \<Longrightarrow> blkData b' = blkData b \<and> blk_isSet ScratchpadBit b'"
  by (auto simp: make_slot_def setCoherenceBits_def clearCoherenceBits_def setValid_def blk_isSet_def ScratchpadBit_def
      bit.conj_disj_distrib2 split: if_splits)

lemma copy_found_holds:
  assumes "cx_ok good cx" "tags_ok good (f_tags f)" "slot_idx (tagsIp (f_tags f)) (getSlot (f_pkt f)) = Some s"
    and "s < length (tagBlks (f_tags f))" "length (blkData (blk_at (f_tags f) s)) = blkSize (cfg cx)"
    and "pdata (f_pkt f) = Some src" "getSpmSize (f_pkt f) \<le> length src" "slot_ready_at cx sl (f_pkt f) < MaxTick"
    and "l2_copy_found cx sl s f = Inr (True, f')"
  shows "slot_holds (cfg cx) (f_tags f') (getSlot (f_pkt f)) (take (getSpmSize (f_pkt f)) src)"
proof -
  let ?a = "getSlot (f_pkt f)" and ?n = "getSpmSize (f_pkt f)" and ?rd = "slot_ready_at cx sl (f_pkt f)"
  let ?off = "unat (?a AND blk_mask (blkSize (cfg cx)))"
  have fit: "?off + ?n \<le> blkSize (cfg cx)"
    using assms(9) by (auto simp: l2_copy_found_def line_offset_def Let_def)
  have gp: "getPtr (f_pkt f) = Inr src" if "getPtr (f_pkt f) = Inr x" for x
    using that assms(6) by (auto simp: getPtr_def getConstPtr_def)
  have fin: "slot_holds (cfg cx) (f_tags f') ?a (take ?n src)"
    if g: "f_with_blk s (fill_slot ?off src ?n ?rd) h = Inr f2" "f_tags f' = f_tags f2" "tagsIp (f_tags h) = tagsIp (f_tags f)"
      "s < length (tagBlks (f_tags h))" "blk_isSet ScratchpadBit (blk_at (f_tags h) s)"
      "blkData (blk_at (f_tags h) s) = blkData (blk_at (f_tags f) s)" for h f2
    using fill_slot_holds[OF _ g(4,5) _ fit assms(7,8) g(1)] g(2,3,6) assms(3,5) by simp
  show ?thesis
  proof (cases "blk_isSet ScratchpadBit (blk_at (f_tags f) s)")
    case True
    then obtain f2 where "f_with_blk s (fill_slot ?off src ?n ?rd) f = Inr f2" "f_tags f' = f_tags f2"
      using assms(9) gp by (auto simp: l2_copy_found_def line_offset_def Let_def)
    then show ?thesis using fin[of f] True assms(4) by simp
  next
    case False
    note u = assms(9)[unfolded l2_copy_found_def Let_def line_offset_def]
    from u False obtain f1 where v: "vacate_slot cx s f = Inr (True, f1)"
      by (auto split: if_splits)
    with u False gp obtain t h f2 where t: "insertBlock (ops cx) (renv cx) (f_pkt f) s (f_tags f1) = Inr t"
        "f_with_blk s make_slot (f_with_tags t f1) = Inr h" "f_with_blk s (fill_slot ?off src ?n ?rd) h = Inr f2" "f_tags f' = f_tags f2"
      by auto
    have p: "plain_idx (f_tags f) s" using False assms(4) by (simp add: plain_idx_def slot_set_def)
    have i: "iso good {} (f_tags f) (f_tags f1)" "plain_idx (f_tags f1) s" using vacate_slot_iso[OF assms(1,2) p v] by auto
    have i1: "iso good {} (f_tags f1) t" using insertBlock_iso[OF assms(1) iso_ok[OF i(1)] i(2) t(1)] by blast
    have len: "s < length (tagBlks (f_tags f1))" using iso_length[OF i(1)] assms(4) by simp
    note d = insert_data[OF len t(1)]
    from t(2) obtain b where b: "make_slot (blk_at t s) = Inr b" "f_tags h = upd_blk s b t"
      by (auto simp: f_with_blk_def with_blk_def f_with_tags_def)
    show ?thesis
      by (rule fin[OF t(3,4)])
        (use b make_slot_result[OF b(1)] d vacate_data[OF assms(4) v] len i i1 in \<open>auto simp: upd_blk_def blk_at_def iso_def\<close>)
  qed
qed

text \<open>A copy that arrives from the first level with its bytes.\<close>

definition spm_copy :: "cache_cfg \<Rightarrow> packet \<Rightarrow> byte list \<Rightarrow> bool" where
  "spm_copy g p src \<longleftrightarrow>
     cmd p = CPTOSPMReq \<and> L1find p \<and> pdata p = Some src \<and> getSpmSize p = length src \<and>
     \<not> cacheResponding p \<and> \<not> isUncacheable (req p) \<and> is_l2_cache g \<and> \<not> is_l1_cache g"

lemma accessBlock_data:
  assumes "accessBlock po e p t = Inr (r, l, t')" "j < length (tagBlks t)"
  shows "blkData (blk_at t' j) = blkData (blk_at t j)"
  using assms
  by (auto simp: accessBlock_def Let_def upd_blk_def blk_at_def nth_update_any increaseRefCount_def split: option.splits)

lemma copy_access_holds:
  assumes "cx_ok good cx" "tags_ok good (c_tags c)" "spm_copy (cfg cx) p src" "slot_idx (tagsIp (c_tags c)) (getSlot p) = Some s"
    and "length (blkData (blk_at (c_tags c) s)) = blkSize (cfg cx)" "slot_ready_at cx 0 p < MaxTick"
    and "access cx p c = Inr (True, f)"
  shows "slot_holds (cfg cx) (f_tags f) (getSlot p) src"
proof -
  note r = assms(3)[unfolded spm_copy_def]
  have m: "isSPMcmd CPTOSPMReq" by (simp add: isSPMcmd_def)
  obtain blk tlat t where t: "accessBlock (ops cx) (renv cx) p (c_tags c) = Inr (blk, tlat, t)"
    using lookup_succeeds[OF assms(1,2)] by blast
  define f0 where "f0 = \<lparr>f_pkt = p\<lparr>SPMresp := True\<rparr>, f_blk = blk, f_lat = 0, f_wbs = [], f_cache = c\<lparr>c_tags := t\<rparr>\<rparr>"
  obtain o1 l f1 where f1: "f_findSPMSlot f0 = (o1, l, f1)" by (metis prod_cases3)
  have i: "iso good {} (c_tags c) t" using accessBlock_iso[OF assms(1,2) t] by blast
  then have ip: "tagsIp t = tagsIp (c_tags c)" and ln: "length (tagBlks t) = length (tagBlks (c_tags c))" by (simp_all add: iso_def)
  have s: "s < length (tagBlks (c_tags c))"
    using possible_entry_ok[OF assms(2)] find_Some_mem[of _ _ s] assms(4) unfolding slot_idx_def by blast
  have j: "iso good {} t (f_tags f1)" "o1 = Some s" "f_pkt f1 = f_pkt f0" "same_but_refs (blk_at t s) (blk_at (f_tags f1) s)"
    using f_findSPMSlot_iso[OF _ f1, of good "{}"] iso_ok[OF i] assms(4) ip by (auto simp: f0_def getSlot_def)
  have ip1: "tagsIp (f_tags f1) = tagsIp (c_tags c)" "length (tagBlks (f_tags f1)) = length (tagBlks (c_tags c))"
    using j(1) ip ln by (simp_all add: iso_def)
  have d: "length (blkData (blk_at (f_tags f1) s)) = blkSize (cfg cx)"
    using same_but_refs_fields[OF j(4)] accessBlock_data[OF t s] assms(5) by simp
  have "l2_copy_found cx 0 s f1 = Inr (True, f)"
    using assms(7) r t m f1 j(2,3)
    by (auto simp: access_def base_access_def Let_def access_spm_l2_def l2_copy_source_def l2_copy_access_def f0_def)
  from copy_found_holds[OF assms(1) iso_ok[OF j(1)] _ _ d _ _ _ this, of src] show ?thesis
    using assms(4,6) r s ip1 j(3) by (simp add: f0_def getSlot_def getSpmSize_def slot_ready_at_def)
qed

lemma doWritebacks_tags: "doWritebacks cx ns wbs t c = Inr c' \<Longrightarrow> c_tags c' = c_tags c"
proof (induction wbs arbitrary: c)
  case (Cons wb wbs)
  from Cons.prems obtain c1 where c1: "c1 = c \<or> (\<exists>p. allocateWriteBuffer cx p t c = Inr c1)" "doWritebacks cx ns wbs t c1 = Inr c'"
    by (auto split: if_splits)
  then show ?case using Cons.IH[OF c1(2)] by (auto dest: allocateWriteBuffer_tags)
qed simp

lemma copy_handled:
  assumes "cx_ok good cx" "tags_ok good (c_tags c)" "spm_copy (cfg cx) p src" "slot_idx (tagsIp (c_tags c)) (getSlot p) = Some s"
    and "length (blkData (blk_at (c_tags c) s)) = blkSize (cfg cx)" "slot_ready_at cx 0 p < MaxTick"
    and "access cx p c = Inr (True, f)" "recvTimingReq cx ns p c = Inr c1"
  shows "slot_holds (cfg cx) (c_tags c1) (getSlot p) src"
proof -
  note r = assms(3)[unfolded spm_copy_def]
  have q: "promoteWholeLineWrites (cfg cx) p = p" "unlock_blk p c = Inr c" "\<not> isLockedRMW CPTOSPMReq"
    using r by (simp_all add: promoteWholeLineWrites_def unlock_blk_def locked_rmw_cmd)
  have cm: "cmd (f_pkt f) = CPTOSPMReq" using access_frame(1)[OF assms(1,2,7)] r by simp
  from assms(8) q(1,2) r assms(7) obtain c0 where c0: "doWritebacks cx ns (f_wbs f) (clockEdge cx (f_lat f + forwardLatency (cfg cx))) (f_cache f) = Inr c0"
      "handleTimingReqHit cx ns ((f_pkt f)\<lparr>headerDelay := 0, payloadDelay := 0\<rparr>) (f_blk f) (clockEdge cx (f_lat f)) c0 = Inr c1"
    by (auto simp: recvTimingReq_def base_recvTimingReq_def Let_def)
  have "c_tags c1 = c_tags c0"
    using c0(2) q(3) cm by (auto simp: handleTimingReqHit_def respond_hit_def Let_def split: if_splits)
  then show ?thesis using doWritebacks_tags[OF c0(1)] copy_access_holds[OF assms(1-7)] by simp
qed

section \<open>Round trips\<close>

lemma holds_after_run:
  assumes "sound good A c1" "replacement_policy po good" "0 < blkSize g" "cache_run g po es c1 c2"
    and "slot_holds h (c_tags c1) a d" "slot_idx (tagsIp (c_tags c1)) a = Some s"
    and "s \<notin> slots_of (tagsIp (c_tags c1)) (queue_slots (mshrQueue c1) \<union> (\<Union>e\<in>set es. event_slots g (tagsIp (c_tags c1)) e))"
  shows "slot_holds h (c_tags c2) a d \<and> tags_ok good (c_tags c2) \<and> tagsIp (c_tags c2) = tagsIp (c_tags c1)"
proof -
  let ?A = "queue_slots (mshrQueue c1) \<union> (\<Union>e\<in>set es. event_slots g (tagsIp (c_tags c1)) e)"
  have s: "sound good ?A c1" by (rule sound_mono[OF sound_pending[OF assms(1)]]) blast
  have e: "evolves good ?A c1 c2" by (rule cache_run_evolves[OF assms(4,2,3) s]) blast
  show ?thesis
    using slot_holds_evolves[OF assms(5) e assms(6,7)] sound_tags[OF evolves_sound[OF e]] evolves_ip[OF e] by blast
qed

text \<open>
  C2. What is stored in the scratchpad is loaded from it. A store to an existing slot, at the
  scratchpad port of a second-level cache in any reachable state, succeeds; after any further
  events that do not name the slot, a load of the same address and size succeeds, and the
  response it puts on the scratchpad bus carries the stored bytes.
\<close>

theorem store_load_roundtrip:
  fixes c :: "'s cache"
  assumes "cache_reachable g po good c" "cfg cx = g" "ops cx = po" "rng_ok (renv cx)"
    and "line_geometry g (tagsIp (c_tags c))" "spm_request g SPMStoreReq st a d" "slot_idx (tagsIp (c_tags c)) a = Some s"
    and "blk_isSet ScratchpadBit (blk_at (c_tags c) s)" "length (blkData (blk_at (c_tags c) s)) = blkSize g"
    and "unat (a AND blk_mask (blkSize g)) + length d \<le> blkSize g"
    and "extractWay (tagsIp (c_tags c)) a < getWayAllocationMax (c_tags c)"
    and "tickInserted (blk_at (c_tags c) s) \<le> curTick cx" "0 < clockPeriod g"
    and "slot_ready_at cx (lookupLatency (c_tags c)) st < MaxTick"
  shows "\<exists>c1. handle cx ns (SpmRequest st) c = Inr c1 \<and>
    (\<forall>es c2 cx' ns' ld buf.
       cache_run g po es c1 c2 \<and>
       s \<notin> slots_of (tagsIp (c_tags c1)) (queue_slots (mshrQueue c1) \<union> (\<Union>e\<in>set es. event_slots g (tagsIp (c_tags c1)) e)) \<and>
       cfg cx' = g \<and> ops cx' = po \<and> rng_ok (renv cx') \<and>
       spm_request g SPMLoadReq ld a buf \<and> length buf = length d \<and>
       extractWay (tagsIp (c_tags c2)) a < getWayAllocationMax (c_tags c2) \<longrightarrow>
       (\<exists>c3 r t. handle cx' ns' (SpmRequest ld) c2 = Inr c3 \<and> spmResps c3 = spmResps c2 @ [(r, t)] \<and>
          cmd r = ReadResp \<and> pdata r = Some d))"
proof -
  obtain A where snd0: "sound good A c" using reachable_sound[OF assms(1)] .
  have rp: "replacement_policy po good" "0 < blkSize g" using assms(1) by (auto simp: cache_reachable_def)
  have cx: "cx_ok good cx" using rp assms(3,4) by (simp add: cx_ok_def)
  note ok = sound_tags[OF snd0]
  obtain c1 where c1: "handle cx ns (SpmRequest st) c = Inr c1" "slot_holds g (c_tags c1) a d"
    using store_handled[OF cx ok, of st a d s ns] assms(2,5-14) by auto
  have e: "evolves good (A \<union> event_slots g (tagsIp (c_tags c)) (SpmRequest st)) c c1"
    by (rule handle_evolves[OF cx sound_mono[OF snd0] _ _ _ c1(1)]) (use assms(2) rp in auto)
  have ip1: "tagsIp (c_tags c1) = tagsIp (c_tags c)" by (rule evolves_ip[OF e])
  show ?thesis
  proof (rule exI[of _ c1], rule conjI, rule c1(1), intro allI impI, elim conjE)
    fix es c2 and cx' :: "'s cx" and ns' ld buf
    assume h: "cache_run g po es c1 c2"
      "s \<notin> slots_of (tagsIp (c_tags c1)) (queue_slots (mshrQueue c1) \<union> (\<Union>e\<in>set es. event_slots g (tagsIp (c_tags c1)) e))"
      "cfg cx' = g" "ops cx' = po" "rng_ok (renv cx')" "spm_request g SPMLoadReq ld a buf" "length buf = length d"
      "extractWay (tagsIp (c_tags c2)) a < getWayAllocationMax (c_tags c2)"
    have k: "slot_holds g (c_tags c2) a d \<and> tags_ok good (c_tags c2) \<and> tagsIp (c_tags c2) = tagsIp (c_tags c1)"
      by (rule holds_after_run[OF evolves_sound[OF e] rp h(1) c1(2) _ h(2)]) (use assms(7) ip1 in simp)
    have "cx_ok good cx'" using rp h(4,5) by (simp add: cx_ok_def)
    from load_returns[OF this, of c2 a d ld buf ns'] k h(3,6,7,8) assms(5) ip1
    show "\<exists>c3 r t. handle cx' ns' (SpmRequest ld) c2 = Inr c3 \<and> spmResps c3 = spmResps c2 @ [(r, t)] \<and>
        cmd r = ReadResp \<and> pdata r = Some d" by simp
  qed
qed

definition sample_load :: packet where
  "sample_load = (sample_access SPMLoadReq 0x10)\<lparr>pdata := Some (replicate 8 0)\<rparr>"

lemma sample_requests:
  "spm_request sample_cfg SPMLoadReq sample_load 0x10 (replicate 8 0)"
  "spm_request sample_cfg SPMStoreReq sample_store 0x10 [8, 7, 6, 5, 4, 3, 2, 1]"
  "spm_copy sample_cfg sample_copy [1, 2, 3, 4, 5, 6, 7, 8]" "getSlot sample_copy = 0x10"
  by code_simp+

lemma sample_geometry:
  "line_geometry sample_cfg sample_l2_ip" "slot_idx sample_l2_ip 0x10 = Some 1" "extractWay sample_l2_ip 0x10 = 1"
  "blkSize sample_cfg = 8" "clockPeriod sample_cfg = 10" "unat (0x10 AND blk_mask (blkSize sample_cfg)) = 0"
proof -
  show "line_geometry sample_cfg sample_l2_ip"
    unfolding line_geometry_def by (rule exI[of _ 3]) (simp add: sample_cfg_def sample_l2_ip_def)
qed (code_simp+)

theorem store_load_roundtrip_witness:
  "\<exists>c3 r t. handle (sample_cx 120) sample_ns (SpmRequest sample_load) sample_stored = Inr c3 \<and>
     spmResps c3 = spmResps sample_stored @ [(r, t)] \<and> pdata r = Some [8, 7, 6, 5, 4, 3, 2, 1]"
proof -
  have st: "handle (sample_cx 110) sample_ns (SpmRequest sample_store) sample_copied = Inr sample_stored"
    using sample_states(5) by simp
  have sh: "sample_shape sample_copied" "sample_shape sample_stored" "tickInserted (blk_at (c_tags sample_copied) 1) = 100"
    using sample_states(2,6) by (simp_all add: sample_copied_ok_def sample_stored_ok_def blk_at_def)
  have none: "slots_of ip (queue_slots (mshrQueue sample_stored) \<union> (\<Union>e\<in>set []. event_slots sample_cfg ip e)) = {}" for ip
    using no_pending_slots[OF sample_reachable(3)] sample_states(6) by (simp add: slots_of_def sample_stored_ok_def)
  have ready: "slot_ready_at (sample_cx 110) (lookupLatency (c_tags sample_copied)) sample_store < MaxTick"
  proof -
    have "slot_ready_at (sample_cx 110) 2 sample_store < MaxTick" by code_simp
    then show ?thesis using sh(1) by (simp add: sample_shape_def)
  qed
  have p: "line_geometry sample_cfg (tagsIp (c_tags sample_copied))" "slot_idx (tagsIp (c_tags sample_copied)) 0x10 = Some 1"
      "extractWay (tagsIp (c_tags sample_copied)) 0x10 < getWayAllocationMax (c_tags sample_copied)"
      "length (blkData (blk_at (c_tags sample_copied) 1)) = blkSize sample_cfg" "0 < clockPeriod sample_cfg"
      "unat (0x10 AND blk_mask (blkSize sample_cfg)) + length [8, 7, 6, 5, 4, 3, 2, 1 :: byte] \<le> blkSize sample_cfg"
      "tickInserted (blk_at (c_tags sample_copied) 1) \<le> curTick (sample_cx 110)"
    using sh sample_geometry sample_slot(3) unfolding sample_shape_def by (simp_all add: sample_cx_def)
  note cx = sample_cx_ok[of 110, THEN conjunct1] sample_cx_ok[of 110, THEN conjunct2, THEN conjunct1]
    sample_cx_ok[of 110, THEN conjunct2, THEN conjunct2]
  from store_load_roundtrip[OF sample_reachable(1) cx p(1) sample_requests(2) p(2) sample_slot(2) p(4,6,3,7,5) ready, of sample_ns]
  obtain c1 where c1: "handle (sample_cx 110) sample_ns (SpmRequest sample_store) sample_copied = Inr c1"
    and rt: "\<And>es c2 cx' ns' ld buf. cache_run sample_cfg LRU_ops es c1 c2 \<and>
       1 \<notin> slots_of (tagsIp (c_tags c1)) (queue_slots (mshrQueue c1) \<union> (\<Union>e\<in>set es. event_slots sample_cfg (tagsIp (c_tags c1)) e)) \<and>
       cfg cx' = sample_cfg \<and> ops cx' = LRU_ops \<and> rng_ok (renv cx') \<and>
       spm_request sample_cfg SPMLoadReq ld 0x10 buf \<and> length buf = length [8, 7, 6, 5, 4, 3, 2, 1 :: byte] \<and>
       extractWay (tagsIp (c_tags c2)) 0x10 < getWayAllocationMax (c_tags c2) \<Longrightarrow>
       (\<exists>c3 r t. handle cx' ns' (SpmRequest ld) c2 = Inr c3 \<and> spmResps c3 = spmResps c2 @ [(r, t)] \<and>
          cmd r = ReadResp \<and> pdata r = Some [8, 7, 6, 5, 4, 3, 2, 1])"
    by blast
  have "c1 = sample_stored" using c1 st by (simp del: handle.simps)
  with rt[of "[]" sample_stored "sample_cx 120" sample_load "replicate 8 0" sample_ns]
    cache_run.idle[of sample_cfg LRU_ops sample_stored] none sample_cx_ok[of 120] sample_requests(1) sample_geometry(3) sh(2)
  show ?thesis unfolding sample_shape_def by (auto simp del: handle.simps)
qed

text \<open>
  C3. What is copied into the scratchpad is loaded from it. When a copy that carries its bytes
  reaches the second level and the block it names can be vacated, then after any further events
  that do not name the slot, a load of the slot succeeds and returns the copied bytes, whatever
  the block held before.
\<close>

theorem copy_load_roundtrip:
  assumes "cache_reachable g po good c" "cfg cx = g" "ops cx = po" "rng_ok (renv cx)"
    and "spm_copy g cp src" "slot_idx (tagsIp (c_tags c)) (getSlot cp) = Some s"
    and "length (blkData (blk_at (c_tags c) s)) = blkSize g" "slot_ready_at cx 0 cp < MaxTick"
    and "access cx cp c = Inr (True, f)" "recvTimingReq cx ns cp c = Inr c1" "cache_run g po es c1 c2"
    and "s \<notin> slots_of (tagsIp (c_tags c1)) (queue_slots (mshrQueue c1) \<union> (\<Union>e\<in>set es. event_slots g (tagsIp (c_tags c1)) e))"
    and "cfg cx' = g" "ops cx' = po" "rng_ok (renv cx')" "line_geometry g (tagsIp (c_tags c))"
    and "spm_request g SPMLoadReq ld (getSlot cp) buf" "length buf = length src"
    and "extractWay (tagsIp (c_tags c)) (getSlot cp) < getWayAllocationMax (c_tags c2)"
  shows "\<exists>c3 r t. handle cx' ns' (SpmRequest ld) c2 = Inr c3 \<and> spmResps c3 = spmResps c2 @ [(r, t)] \<and>
    cmd r = ReadResp \<and> pdata r = Some src"
proof -
  obtain A where snd0: "sound good A c" using reachable_sound[OF assms(1)] .
  have rp: "replacement_policy po good" "0 < blkSize g" using assms(1) by (auto simp: cache_reachable_def)
  have cx: "cx_ok good cx" "cx_ok good cx'" using rp assms(3,4,14,15) by (simp_all add: cx_ok_def)
  have h1: "slot_holds g (c_tags c1) (getSlot cp) src"
    using copy_handled[OF cx(1) sound_tags[OF snd0] _ assms(6) _ assms(8-10)] assms(2,5,7) by simp
  have e: "evolves good (A \<union> req_slots g (tagsIp (c_tags c)) cp) c c1"
    by (rule recvTimingReq_evolves[OF cx(1) sound_mono[OF snd0] _ _ assms(10)]) (use assms(2) rp in auto)
  have ip1: "tagsIp (c_tags c1) = tagsIp (c_tags c)" by (rule evolves_ip[OF e])
  have "slot_holds g (c_tags c2) (getSlot cp) src \<and> tags_ok good (c_tags c2) \<and> tagsIp (c_tags c2) = tagsIp (c_tags c1)"
    by (rule holds_after_run[OF evolves_sound[OF e] rp assms(11) h1 _ assms(12)]) (use assms(6) ip1 in simp)
  then show ?thesis
    using load_returns[OF cx(2), of c2 "getSlot cp" src ld buf ns'] assms(13,16-19) ip1 by simp
qed

theorem copy_load_roundtrip_witness:
  "\<exists>c3 r t. handle (sample_cx 400) sample_ns (SpmRequest sample_load) sample_refilled = Inr c3 \<and>
     spmResps c3 = spmResps sample_refilled @ [(r, t)] \<and> pdata r = Some [1, 2, 3, 4, 5, 6, 7, 8]"
proof -
  have "sample_hit" using sample_plays by (rule conjunct2)
  then obtain f where f: "access (sample_cx 100) sample_copy sample_l2 = Inr (True, f)"
    by (auto simp: sample_hit_def split: sum.splits prod.splits)
  have cp: "recvTimingReq (sample_cx 100) sample_ns sample_copy sample_l2 = Inr sample_copied"
  proof -
    have e: "sample_l2\<lparr>cpuSidePort := CacheResponsePort_new\<rparr> = sample_l2" "cpuSidePort sample_l2 = CacheResponsePort_new"
      by (simp_all add: sample_l2_def BaseCache_new_def)
    have t: "tryTiming False sample_copy CacheResponsePort_new = (True, CacheResponsePort_new)" by simp
    have "port_recvTimingReq (sample_cx 100) sample_ns sample_copy sample_l2 = must (isRequest (cmd sample_copy))
        (bindR (recvTimingReq (sample_cx 100) sample_ns sample_copy sample_l2) (\<lambda>c2. Inr (True, c2)))"
      unfolding port_recvTimingReq_def e(2) t by (simp only: prod.case Let_def e(1) if_True)
    then show ?thesis using sample_states(1) by auto
  qed
  have l2: "tagsIp (c_tags sample_l2) = sample_l2_ip" "length (blkData (blk_at (c_tags sample_l2) 1)) = 8" by code_simp+
  have ready: "slot_ready_at (sample_cx 100) 0 sample_copy < MaxTick" by code_simp
  have sh: "sample_shape sample_copied" "sample_shape sample_refilled"
    using sample_states(2,4) by (simp_all add: sample_copied_ok_def sample_refilled_ok_def)
  note rt = copy_load_roundtrip[OF sample_reachable(4) _ _ _ sample_requests(3) _ _ ready f cp sample_runs(2), of 1 "sample_cx 400" sample_load "replicate 8 0" sample_ns]
  show ?thesis
    using rt sample_cx_ok[of 100] sample_cx_ok[of 400] sample_geometry sample_requests(1,4) l2 sh sample_untouched
    unfolding sample_shape_def by (auto simp del: handle.simps)
qed

end
