(* ===== verification/Cache_Behaviour.thy ===== *)
theory Cache_Behaviour
  imports Scratchpad_Data
begin

text \<open>
  The behaviour of single paths of the cache: a copy that is served when its line arrives
  (\<open>service_copy\<close>), evictions (\<open>evictBlock\<close>), the request sent for a miss
  (\<open>createMissPacket\<close>), the choice between the queues (\<open>getNextQueueEntry\<close>), the shared read
  port (\<open>sharedReadEgress\<close>), and two paths of the scratchpad commands that do not do what they
  should.
\<close>

section \<open>Copies served from memory\<close>

lemma demote_source_result:
  assumes "cx_ok good cx" "tags_ok good (c_tags c)" "blkValid (get_blk c bp)"
  shows "\<exists>c1. demote_source cx bp c = Inr c1 \<and> tagBlks (c_tags c1) = tagBlks (c_tags c) \<and>
    tagsIp (c_tags c1) = tagsIp (c_tags c) \<and> spmResps c1 = spmResps c \<and> tags_ok good (c_tags c1)"
proof (cases bp)
  case (InTags i)
  obtain rp where "rp_invalidate (ops cx) i (rpStore (c_tags c)) = Inr rp"
    using replacement_policy.wf_invalidate[of "ops cx" good "rpStore (c_tags c)" i] assms(1,2)
    by (auto simp: cx_ok_def tags_ok_def)
  then have "demoteToLRU (ops cx) i (c_tags c) = Inr ((c_tags c)\<lparr>rpStore := rp\<rparr>)"
    using InTags assms(3) by (simp add: demoteToLRU_def)
  from this iso_ok[of good "{}", OF conjunct1[OF demoteToLRU_iso[OF assms(1,2) this]]] show ?thesis
    using InTags by (simp add: demote_source_def)
qed (use assms(2) in \<open>simp add: demote_source_def\<close>)

text \<open>
  C7. A copy that missed in both levels is completed by the response: when the line arrives,
  the bytes go from the line into the slot, which then holds them, and the requestor is
  answered on the scratchpad bus. The bytes are those at the offset of the slot address, not
  at the offset of the source address.
\<close>

theorem service_copy_fills_slot:
  assumes "cx_ok good cx" "tags_ok good (c_tags c)" "is_l2_cache (cfg cx)" "spmConnected (cfg cx)"
    and "cmd tgt = CPTOSPMReq" "pdata tgt = Some buf" "length buf = getSpmSize tgt" "flag_isSet (pflags tgt) (STATIC_DATA OR DYNAMIC_DATA)"
    and "blkValid (get_blk c bp)"
    and "slot_idx (tagsIp (c_tags c)) (getSlot tgt) = Some s" "blk_isSet ScratchpadBit (blk_at (c_tags c) s)"
    and "length (blkData (get_blk c bp)) = blkSize (cfg cx)" "length (blkData (blk_at (c_tags c) s)) = blkSize (cfg cx)"
    and "line_offset cx (getSlot tgt) + getSpmSize tgt \<le> blkSize (cfg cx)"
    and "tickInserted (blk_at (c_tags c) s) \<le> curTick cx" "0 < clockPeriod (cfg cx)" "clockEdge cx (fillLatency (cfg cx)) < MaxTick"
  shows "\<exists>c' r t. service_copy cx pkt tgt (Some bp) c = Inr c' \<and>
    slot_holds (cfg cx) (c_tags c') (getSlot tgt)
      (slice (blkData (get_blk c bp)) (line_offset cx (getSlot tgt)) (getSpmSize tgt)) \<and>
    spmResps c' = spmResps c @ [(r, t)] \<and> cmd r = WriteResp"
proof -
  let ?off = "line_offset cx (getSlot tgt)" and ?n = "getSpmSize tgt" and ?rd = "clockEdge cx (fillLatency (cfg cx))"
  let ?d = "slice (blkData (get_blk c bp)) ?off ?n"
  let ?t1 = "tgt\<lparr>pdata := Some ?d\<rparr>"
  have "memcpy buf 0 (drop ?off (blkData (get_blk c bp))) ?n = ?d"
    using assms(7,12,14) by (simp add: memcpy_def slice_def)
  then have cp: "copy_from_line cx (get_blk c bp) tgt = Inr ?t1"
    using assms(5,6,8,14) by (simp add: copy_from_line_def Let_def panic_when_def getPtr_def getConstPtr_def isMaskedWrite_def)
  obtain c1 where c1: "demote_source cx bp c = Inr c1" "tagBlks (c_tags c1) = tagBlks (c_tags c)"
      "tagsIp (c_tags c1) = tagsIp (c_tags c)" "spmResps c1 = spmResps c" "tags_ok good (c_tags c1)"
    using demote_source_result[OF assms(1,2,9)] by blast
  obtain o1 l t where t: "findSPMSlot ?t1 (c_tags c1) = (o1, l, t)" by (metis prod_cases3)
  have i: "iso good {} (c_tags c1) t" "o1 = Some s" "s < length (tagBlks t)" "same_but_refs (blk_at (c_tags c) s) (blk_at t s)"
    using findSPMSlot_iso[OF c1(5) t, of "{}"] assms(10) c1(2,3) by (auto simp: slot_idx_def getSlot_def blk_at_def)
  note b = same_but_refs_fields[OF i(4)]
  have ip: "tagsIp t = tagsIp (c_tags c)" using i(1) c1(3) by (simp add: iso_def)
  have set: "blk_isSet ScratchpadBit (blk_at t s)" using assms(11) b by (simp add: blk_isSet_def)
  have fit: "unat (getSlot tgt AND blk_mask (blkSize (cfg cx))) + ?n \<le> blkSize (cfg cx)" and ln: "length ?d = ?n"
    using assms(12,14) by (simp_all add: line_offset_def)
  define f where "f = \<lparr>f_pkt = tgt, f_blk = None, f_lat = 0, f_wbs = [], f_cache = c1\<lparr>c_tags := t\<rparr>\<rparr>"
  have tick: "tickInserted (blk_at t s) \<le> ?rd" using assms(15) b clockEdge_now[OF assms(16), of "fillLatency (cfg cx)"] by simp
  then obtain c3 where c3: "with_blk (InTags s) (fill_slot ?off ?d ?n ?rd) (c1\<lparr>c_tags := t\<rparr>) = Inr c3" "spmResps c3 = spmResps c1"
    by (simp add: with_blk_def fill_slot_def setWhenReady_def must_def)
  have "f_with_blk s (fill_slot ?off ?d ?n ?rd) f = Inr (f\<lparr>f_cache := c3\<rparr>)" using c3(1) by (simp add: f_with_blk_def f_def)
  from fill_slot_holds[OF _ _ _ _ fit _ assms(17) this[unfolded line_offset_def]] have h: "slot_holds (cfg cx) (c_tags c3) (getSlot tgt) ?d"
    using assms(10,13) ip i(3) set b ln by (simp add: f_def line_offset_def)
  have "needsResponse CPTOSPMReq" "isRequest CPTOSPMReq" "responseCommand CPTOSPMReq = WriteResp" "hasData CPTOSPMReq"
    by (simp_all add: cmd_table)
  then obtain x y where sc: "service_copy cx pkt tgt (Some bp) c = Inr (spmSchedResp (cfg cx) x y c3)" "cmd x = WriteResp"
    using assms(3,5,8,9) cp c1(1) t i(2) set c3(1)
    by (simp add: service_copy_def must_def Let_def getPtr_def getConstPtr_def isMaskedWrite_def respond_spm_def makeResponse_def
        getSlot_def getSpmSize_def)
  obtain t' where "spmResps (spmSchedResp (cfg cx) x y c3) = spmResps c3 @ [(x, t')]"
    using spmSchedResp_resps[OF assms(4)] by blast
  then show ?thesis using sc h c3(2) c1(4) by auto
qed

theorem service_copy_fills_slot_witness:
  "\<exists>c' r t. service_copy (sample_cx 400) sample_response sample_copy (Some (InTags 0)) sample_refilled = Inr c' \<and>
     slot_holds sample_cfg (c_tags c') 0x10 (blkData (blk_at (c_tags sample_refilled) 0)) \<and>
     spmResps c' = spmResps sample_refilled @ [(r, t)] \<and> cmd r = WriteResp"
proof -
  obtain A where "sound (\<lambda>_. True) A sample_refilled" using reachable_sound[OF sample_reachable(2)] .
  note ok = sound_tags[OF this]
  have cx: "cx_ok (\<lambda>_. True) (sample_cx 400)"
    using sample_cx_ok[of 400] lru.replacement_policy_axioms by (simp add: cx_ok_def)
  have sh: "sample_shape sample_refilled" "tickInserted (blk_at (c_tags sample_refilled) 1) = 100"
      "blkValid (get_blk sample_refilled (InTags 0))" "length (blkData (get_blk sample_refilled (InTags 0))) = 8"
      "length (blkData (blk_at (c_tags sample_refilled) 1)) = 8" "blk_isSet ScratchpadBit (blk_at (c_tags sample_refilled) 1)"
    using sample_states(4) by (auto simp: sample_refilled_ok_def blk_at_def map_eq_Cons_conv)
  have p: "cmd sample_copy = CPTOSPMReq" "pdata sample_copy = Some [1, 2, 3, 4, 5, 6, 7, 8]" "getSpmSize sample_copy = 8"
      "flag_isSet (pflags sample_copy) (STATIC_DATA OR DYNAMIC_DATA)" "line_offset (sample_cx 400) (getSlot sample_copy) = 0"
      "clockEdge (sample_cx 400) (fillLatency (cfg (sample_cx 400))) < MaxTick" "is_l2_cache sample_cfg" "spmConnected sample_cfg"
    by code_simp+
  have tick: "curTick (sample_cx 400) = 400" by (simp add: sample_cx_def)
  show ?thesis
    using service_copy_fills_slot[OF cx ok _ _ p(1,2) _ p(4) sh(3) _ sh(6), of sample_response] sample_cx_ok[of 400] p sh
      sample_geometry sample_requests(4) tick unfolding sample_shape_def by (simp add: slice_def)
qed

section \<open>Evictions\<close>

lemma regenerated_offset:
  assumes "line_geometry g ip" "setShift ip \<le> tagShift ip"
  shows "regenerateAddr ip tag n AND blk_mask (blkSize g) = 0"
proof -
  obtain k where k: "k < 32" "blkSize g = 2 ^ k" "k \<le> setShift ip" using assms(1) by (auto simp: line_geometry_def)
  show ?thesis unfolding k(2) blk_mask_power[OF k(1)]
    by (rule bit_word_eqI) (use k assms(2) in \<open>auto simp: regenerateAddr_def bit_simps\<close>)
qed

lemma evicted_request:
  "\<exists>r. blk_request cx bp c = Inr r \<and> hasPaddr r \<and> hasSize r \<and> \<not> isHTMCmd r \<and> paddr r = cache_regenerateBlkAddr bp c \<and>
     rsize r = blkSize (cfg cx) \<and> (req_isSecure r \<longleftrightarrow> blkSecure (get_blk c bp))"
  by (rule exI[of _ "(Request_paddr (cache_regenerateBlkAddr bp c) (blkSize (cfg cx)) 0 wbRequestorId)\<lparr>
        rflags := (if blkSecure (get_blk c bp) then SECURE else 0), taskId := blkTaskId (get_blk c bp)\<rparr>"])
    (simp add: blk_request_def Request_paddr_def setFlags_def must_def hasPaddr_def hasSize_def isHTMCmd_def req_isSecure_def
      isHTMStart_def isHTMCommit_def isHTMCancel_def isHTMAbort_def flag_defs request_flag_defs REQ_VALID_PADDR_def REQ_VALID_SIZE_def Let_def)

text \<open>
  C8. Evicting a dirty line loses nothing: the eviction succeeds, and the packet it produces is
  a dirty writeback of the line's address, security and bytes, announcing sharers exactly when
  the line was not writable; the block is invalid afterwards.
\<close>

theorem evict_dirty_writes_back:
  assumes "cx_ok good cx" "tags_ok good (c_tags c)" "i < length (tagBlks (c_tags c))" "partitionManager (c_tags c) = None"
    and "blk_isSet DirtyBit (blk_at (c_tags c) i)"
    and "length (blkData (blk_at (c_tags c) i)) = blkSize (cfg cx)" "\<not> isReadOnly (cfg cx)"
    and "tickInserted (blk_at (c_tags c) i) \<le> MaxTick" "\<forall>n. length (fresh cx n) = n"
    and "line_geometry (cfg cx) (tagsIp (c_tags c))" "setShift (tagsIp (c_tags c)) \<le> tagShift (tagsIp (c_tags c))"
  shows "\<exists>pkt c'. evictBlock cx (InTags i) c = Inr (pkt, c') \<and> cmd pkt = WritebackDirty \<and>
    getAddr pkt = regenerateBlkAddr i (c_tags c) \<and> isSecure pkt = blkSecure (blk_at (c_tags c) i) \<and>
    pdata pkt = Some (blkData (blk_at (c_tags c) i)) \<and>
    (hasSharers pkt \<longleftrightarrow> \<not> blk_isSet WritableBit (blk_at (c_tags c) i)) \<and> \<not> blkValid (blk_at (c_tags c') i)"
proof -
  let ?b = "blk_at (c_tags c) i" and ?a = "regenerateBlkAddr i (c_tags c)"
  have v: "blkValid ?b" using assms(5) by (simp add: blk_isSet_def)
  obtain r where r: "blk_request cx (InTags i) c = Inr r" "hasPaddr r" "hasSize r" "\<not> isHTMCmd r" "paddr r = ?a"
      "rsize r = blkSize (cfg cx)" "req_isSecure r \<longleftrightarrow> blkSecure ?b"
    using evicted_request[of cx "InTags i" c] by auto
  obtain p0 where p0: "Packet_new r WritebackDirty = Inr p0" "cmd p0 = WritebackDirty" "pkt_addr p0 = ?a" "pkt_size p0 = blkSize (cfg cx)"
      "pkt_secure p0 = blkSecure ?b" "pflags p0 = flag_set VALID_ADDR VALID_SIZE"
    using r by (simp add: Packet_new_def must_def)
  obtain p1 b1 where pb: "pass_state ?b p0 = (p1, b1)" by (metis surj_pair)
  have p1: "cmd p1 = WritebackDirty" "pkt_addr p1 = ?a" "pkt_size p1 = blkSize (cfg cx)" "pkt_secure p1 = blkSecure ?b"
      "hasSharers p1 \<longleftrightarrow> \<not> blk_isSet WritableBit ?b" "\<not> flag_isSet (pflags p1) (STATIC_DATA OR DYNAMIC_DATA)"
      "blkData b1 = blkData ?b" "blkValid b1" "tickInserted b1 = tickInserted ?b"
    using pb p0 v by (auto simp: pass_state_def setHasSharers_def hasSharers_def clearCoherenceBits_def flag_defs packet_flag_defs
        split: if_splits)
  let ?p2 = "p1\<lparr>pflags := flag_set (pflags p1) DYNAMIC_DATA, pdata := Some (fresh cx (blkSize (cfg cx)))\<rparr>"
  have al: "allocate (fresh cx) p1 = Inr ?p2" using p1(1,3,6) by (simp add: allocate_def must_def getSize_def cmd_table)
  have off: "getOffset (blkSize (cfg cx)) ?p2 = 0"
    using regenerated_offset[OF assms(10,11)] p1(2) by (simp add: getOffset_def getAddr_def regenerateBlkAddr_def)
  have dyn: "flag_isSet (flag_set x DYNAMIC_DATA) (STATIC_DATA OR DYNAMIC_DATA)" for x :: flags32
    by (simp add: flag_defs packet_flag_defs bit.conj_disj_distrib2 or_eq_0_iff)
  have sd: "setDataFromBlock (blkData b1) (blkSize (cfg cx)) ?p2 = Inr (?p2\<lparr>pdata := Some (blkData ?b)\<rparr>)"
    using off dyn[of "pflags p1"] p1(1,3,7) assms(6,9)
    by (simp add: setDataFromBlock_def setData_def getPtr_def getConstPtr_def must_def isMaskedWrite_def getSize_def memcpy_def)
  let ?c1 = "set_blk (InTags i) b1 c"
  have wb: "writebackBlk cx (InTags i) c = Inr (?p2\<lparr>pdata := Some (blkData ?b)\<rparr>, ?c1)"
    using v assms(5,7) r(1) p0(1) pb al sd p1(7) by (simp add: writebackBlk_def must_def Let_def)
  have b1: "blk_at (c_tags ?c1) i = b1" using assms(3) by (simp add: blk_at_def upd_blk_def)
  obtain rp where rp: "rp_invalidate (ops cx) i (rpStore (c_tags c)) = Inr rp"
    using replacement_policy.wf_invalidate[of "ops cx" good "rpStore (c_tags c)" i] assms(1,2) by (auto simp: cx_ok_def tags_ok_def)
  then obtain c2 where c2: "invalidateBlock cx (InTags i) ?c1 = Inr c2" "\<not> blkValid (blk_at (c_tags c2) i)"
    using b1 p1(8,9) assms(3,4,8)
    by (simp add: invalidateBlock_def tags_invalidate_def base_invalidate_def blk_invalidate_def must_def Let_def upd_blk_def blk_at_def
        setWhenReady_def tagged_invalidate_def clearPrefetched_def clearCoherenceBits_def)
  have "evictBlock cx (InTags i) c = Inr (?p2\<lparr>pdata := Some (blkData ?b)\<rparr>, c2)"
    using assms(5) wb c2(1) by (simp add: evictBlock_def)
  then show ?thesis
    using c2(2) p1(1-5) by (auto simp: getAddr_def isSecure_def hasSharers_def flag_defs packet_flag_defs bit.conj_disj_distrib2)
qed

definition sample_dirty :: "flags32 \<Rightarrow> cache_blk" where
  "sample_dirty bits = (CacheBlk_new [7, 7, 7, 7, 7, 7, 7, 7])\<lparr>blkValid := True, blkTag := 8, coherence := bits\<rparr>"

definition sample_modified :: "flags32 \<Rightarrow> lru_store cache" where
  "sample_modified bits = set_blk (InTags 0) (sample_dirty bits) sample_l2"

lemma sample_modified_tags:
  "tags_ok (\<lambda>_. True) (c_tags (sample_modified (ReadableBit OR DirtyBit)))"
  "blk_at (c_tags (sample_modified bits)) 0 = sample_dirty bits" "tagsIp (c_tags (sample_modified bits)) = sample_l2_ip"
  "length (tagBlks (c_tags (sample_modified bits))) = 4" "partitionManager (c_tags (sample_modified bits)) = None"
proof -
  have w: "blk_wf (sample_dirty (ReadableBit OR DirtyBit))"
    by (simp add: blk_wf_def sample_dirty_def CacheBlk_new_def coherence_defs)
  have t: "c_tags (sample_modified bits) = upd_blk 0 (sample_dirty bits) sample_l2_tags" for bits
    by (simp add: sample_modified_def sample_l2_def BaseCache_new_def)
  show "blk_at (c_tags (sample_modified bits)) 0 = sample_dirty bits" "tagsIp (c_tags (sample_modified bits)) = sample_l2_ip"
    "length (tagBlks (c_tags (sample_modified bits))) = 4" "partitionManager (c_tags (sample_modified bits)) = None"
    by (simp_all add: t upd_blk_def blk_at_def sample_l2_tags_def)
  show "tags_ok (\<lambda>_. True) (c_tags (sample_modified (ReadableBit OR DirtyBit)))"
    using sample_tags_ok w unfolding t by (auto simp: tags_ok_def upd_blk_def dest!: set_update_subset_insert[THEN subsetD])
qed

lemma sample_cx_good: "cx_ok (\<lambda>_. True) (sample_cx t)"
  using sample_cx_ok[of t] lru.replacement_policy_axioms by (simp add: cx_ok_def)

theorem evict_dirty_writes_back_witness:
  "\<exists>pkt c'. evictBlock (sample_cx 100) (InTags 0) (sample_modified (ReadableBit OR DirtyBit)) = Inr (pkt, c') \<and>
     cmd pkt = WritebackDirty \<and> getAddr pkt = 0x80 \<and> pdata pkt = Some [7, 7, 7, 7, 7, 7, 7, 7] \<and> hasSharers pkt \<and>
     \<not> blkValid (blk_at (c_tags c') 0)"
proof -
  let ?c = "sample_modified (ReadableBit OR DirtyBit)"
  have a: "regenerateBlkAddr 0 (c_tags ?c) = 0x80"
    by (simp add: regenerateBlkAddr_def sample_modified_tags sample_dirty_def) code_simp
  have b: "blk_isSet DirtyBit (blk_at (c_tags ?c) 0)" "\<not> blk_isSet WritableBit (blk_at (c_tags ?c) 0)"
      "blkData (blk_at (c_tags ?c) 0) = [7, 7, 7, 7, 7, 7, 7, 7]" "tickInserted (blk_at (c_tags ?c) 0) \<le> MaxTick"
    by (simp_all add: sample_modified_tags sample_dirty_def CacheBlk_new_def blk_isSet_def coherence_defs)
  have f: "\<forall>n. length (fresh (sample_cx 100) n) = n" by (simp add: sample_cx_def sample_fresh_def)
  have g: "setShift sample_l2_ip \<le> tagShift sample_l2_ip" "\<not> isReadOnly sample_cfg"
    by (simp_all add: sample_l2_ip_def sample_cfg_def)
  show ?thesis
    using evict_dirty_writes_back[OF sample_cx_good sample_modified_tags(1) _ sample_modified_tags(5) b(1) _ _ b(4) f]
      a b sample_modified_tags(3,4) sample_cx_ok[of 100] sample_geometry g by auto
qed

section \<open>The shared read port\<close>

text \<open>Responses with data, in the order they are scheduled: when each starts to leave, and for how long.\<close>

definition shares_port :: "cache_cfg \<Rightarrow> packet \<Rightarrow> bool" where
  "shares_port g p \<longleftrightarrow> hasData (cmd p) \<and> \<not> isWrite (cmd p) \<and> \<not> (SPMresp p \<and> \<not> SPM_LDST_resp p)"

definition port_time :: "cache_cfg \<Rightarrow> packet \<Rightarrow> tick" where
  "port_time g p = cyclesToTicks g (divCeil (getSize p) 64 + (if cfSpmHdrCharge g \<and> SPM_LDST_resp p then 1 else 0))"

fun egress_run :: "cache_cfg \<Rightarrow> (tick \<times> packet) list \<Rightarrow> 's cache \<Rightarrow> (tick \<times> tick) list" where
  "egress_run g [] c = []"
| "egress_run g ((t, p) # rs) c =
     (case sharedReadEgress g t p c of (start, c1) \<Rightarrow> (start, start + port_time g p) # egress_run g rs c1)"

lemma egress_step:
  assumes "cfSpmSharedBw g" "is_l2_cache g" "shares_port g p"
  shows "\<exists>c1. sharedReadEgress g t p c = (max t (spmPortFreeAt c), c1) \<and>
    spmPortFreeAt c1 = max t (spmPortFreeAt c) + port_time g p"
  using assms by (auto simp: sharedReadEgress_def shares_port_def port_time_def Let_def)

lemma egress_after_free:
  assumes "cfSpmSharedBw g" "is_l2_cache g" "\<forall>(t, p) \<in> set rs. shares_port g p"
  shows "sorted_wrt (\<lambda>(s, e) (s', e'). e \<le> s') (egress_run g rs c) \<and> (\<forall>(s, e) \<in> set (egress_run g rs c). spmPortFreeAt c \<le> s \<and> s \<le> e)"
  using assms(3)
proof (induction rs arbitrary: c)
  case (Cons r rs)
  obtain t p where r: "r = (t, p)" by (cases r)
  obtain c1 where c1: "sharedReadEgress g t p c = (max t (spmPortFreeAt c), c1)"
      "spmPortFreeAt c1 = max t (spmPortFreeAt c) + port_time g p"
    using egress_step[OF assms(1,2), of p t c] Cons.prems r by auto
  from Cons.IH[of c1] Cons.prems show ?case using r c1 by fastforce
qed simp

text \<open>
  C11. With the shared port enabled, the data responses of the second level, to the CPU side and
  to the scratchpad bus alike, leave one after the other: for any sequence of them, none starts
  before its own time, none starts before an earlier one has finished, and the port is never
  left idle while a response that is due waits.
\<close>

theorem shared_port_serialises:
  assumes "cfSpmSharedBw g" "is_l2_cache g" "\<forall>(t, p) \<in> set rs. shares_port g p"
  shows "length (egress_run g rs c) = length rs \<and>
    (\<forall>i < length rs. fst (rs ! i) \<le> fst (egress_run g rs c ! i) \<and>
       snd (egress_run g rs c ! i) = fst (egress_run g rs c ! i) + port_time g (snd (rs ! i))) \<and>
    (\<forall>i j. i < j \<and> j < length rs \<longrightarrow> snd (egress_run g rs c ! i) \<le> fst (egress_run g rs c ! j)) \<and>
    (\<forall>i < length rs. fst (egress_run g rs c ! i) =
       max (fst (rs ! i)) (if i = 0 then spmPortFreeAt c else snd (egress_run g rs c ! (i - 1))))"
proof -
  have n: "length (egress_run g rs c) = length rs" for c :: "'a cache"
    by (induction rs arbitrary: c) (auto simp: split_def)
  have st: "fst (rs ! i) \<le> fst (egress_run g rs c ! i) \<and>
       snd (egress_run g rs c ! i) = fst (egress_run g rs c ! i) + port_time g (snd (rs ! i)) \<and>
       fst (egress_run g rs c ! i) = max (fst (rs ! i)) (if i = 0 then spmPortFreeAt c else snd (egress_run g rs c ! (i - 1)))"
    if "i < length rs" for i
    using assms(3) that
  proof (induction rs arbitrary: c i)
    case (Cons r rs)
    obtain t p where r: "r = (t, p)" by (cases r)
    obtain c1 where c1: "sharedReadEgress g t p c = (max t (spmPortFreeAt c), c1)"
        "spmPortFreeAt c1 = max t (spmPortFreeAt c) + port_time g p"
      using egress_step[OF assms(1,2), of p t c] Cons.prems r by auto
    show ?case
    proof (cases i)
      case (Suc j)
      with Cons.IH[of j c1] Cons.prems show ?thesis using r c1 by (cases j) auto
    qed (use r c1 in simp)
  qed simp
  have "snd (egress_run g rs c ! i) \<le> fst (egress_run g rs c ! j)" if "i < j" "j < length rs" for i j
    using egress_after_free[OF assms, of c] n[of c] that unfolding sorted_wrt_iff_nth_less by (auto simp: split_def)
  then show ?thesis using n st by blast
qed

theorem shared_port_serialises_witness:
  "let rs = [(100, sample_access ReadResp 0x80), (100, sample_access ReadResp 0xC0)]
   in snd (egress_run sample_cfg rs sample_l2 ! 0) \<le> fst (egress_run sample_cfg rs sample_l2 ! 1)"
proof -
  have "shares_port sample_cfg (sample_access ReadResp a)" for a
    by (simp add: shares_port_def sample_access_def Packet_blk_def cmd_table)
  then show ?thesis
    using shared_port_serialises[of sample_cfg "[(100, sample_access ReadResp 0x80), (100, sample_access ReadResp 0xC0)]" sample_l2]
    by (simp add: sample_cfg_def Let_def)
qed

section \<open>Sending\<close>

lemma findR_none: "findR P xs = Inr None \<Longrightarrow> \<forall>x \<in> set xs. P x = Inr False"
  by (induction xs) (auto split: if_splits)

lemma findR_some: "findR P xs = Inr (Some x) \<Longrightarrow> P x = Inr True \<and> x \<in> set xs"
  by (induction xs) (auto split: if_splits)

text \<open>
  C9. The choice of the next packet to send. Nothing is chosen exactly when neither queue has a
  ready entry, and what is chosen is pending in its queue. A miss is chosen only when no write
  to its line is pending, or when the write whose turn it would be is to the same line and is
  younger than the miss. A write is chosen although a miss is ready only when the write buffer
  is full or the write is to the line of that miss.
\<close>

theorem next_entry_ordered:
  assumes "getNextQueueEntry tk c = Inr r"
  shows "(r = None \<longleftrightarrow> getNext tk (mshrQueue c) = None \<and> getNext tk (writeBuffer c) = None) \<and>
    (\<forall>i. r = Some (MissEntry i) \<longrightarrow> i \<in> set (readyList (mshrQueue c)) \<and>
       ((\<forall>k \<in> set (readyList (writeBuffer c)).
           e_conflictAddr wq_hasTargets mshr_hasTargets (entry_at (mshrQueue c) i) (entry_at (writeBuffer c) k) = Inr False) \<or>
        (\<exists>j. getNext tk (writeBuffer c) = Some j \<and>
           e_conflictAddr mshr_hasTargets wq_hasTargets (entry_at (writeBuffer c) j) (entry_at (mshrQueue c) i) = Inr True \<and>
           e_order (entry_at (mshrQueue c) i) < e_order (entry_at (writeBuffer c) j)))) \<and>
    (\<forall>j. r = Some (WriteEntry j) \<longrightarrow> j \<in> set (readyList (writeBuffer c)) \<and>
       (\<forall>i. getNext tk (mshrQueue c) = Some i \<and> \<not> isFull (writeBuffer c) \<longrightarrow>
          e_conflictAddr wq_hasTargets mshr_hasTargets (entry_at (mshrQueue c) i) (entry_at (writeBuffer c) j) = Inr True))"
proof (cases "getNext tk (writeBuffer c)")
  case None
  show ?thesis
  proof (cases "getNext tk (mshrQueue c)")
    case (Some i)
    with None assms obtain k where k: "findPending wq_hasTargets mshr_hasTargets (entry_at (mshrQueue c) i) (writeBuffer c) = Inr k"
        "r = Some (case k of Some k \<Rightarrow> WriteEntry k | None \<Rightarrow> MissEntry i)"
      by (auto simp: getNextQueueEntry_def)
    then show ?thesis using Some None getNext_ready[OF Some]
      by (cases k) (auto simp: findPending_def dest: findR_none findR_some)
  qed (use None assms in \<open>auto simp: getNextQueueEntry_def\<close>)
next
  case (Some j)
  note w = Some
  show ?thesis
  proof (cases "isFull (writeBuffer c) \<or> getNext tk (mshrQueue c) = None")
    case True
    with Some assms obtain k where k: "findPending mshr_hasTargets wq_hasTargets (entry_at (writeBuffer c) j) (mshrQueue c) = Inr k"
        "r = Some (case k of Some i \<Rightarrow> if e_order (entry_at (mshrQueue c) i) < e_order (entry_at (writeBuffer c) j)
            then MissEntry i else WriteEntry j | None \<Rightarrow> WriteEntry j)"
      by (auto simp: getNextQueueEntry_def Let_def)
    then show ?thesis using True Some getNext_ready[OF Some]
      by (cases k) (auto simp: findPending_def dest: findR_some split: if_splits)
  next
    case False
    then obtain i where i: "getNext tk (mshrQueue c) = Some i" by auto
    with False Some assms obtain k where k: "findPending wq_hasTargets mshr_hasTargets (entry_at (mshrQueue c) i) (writeBuffer c) = Inr k"
        "r = Some (case k of Some k \<Rightarrow> WriteEntry k | None \<Rightarrow> MissEntry (the (Some i)))"
      by (auto simp: getNextQueueEntry_def Let_def)
    then show ?thesis using i Some getNext_ready[OF i]
      by (cases k) (auto simp: findPending_def dest: findR_none findR_some)
  qed
qed

definition sample_pending :: "lru_store cache" where
  "sample_pending = sample_l2\<lparr>mshrQueue := sample_mq2\<rparr>"

lemma sample_pending_next: "getNextQueueEntry 1000 sample_pending = Inr (Some (MissEntry 0))"
  by code_simp

theorem next_entry_ordered_witness:
  "0 \<in> set (readyList sample_mq2) \<and> getNext 1000 (mshrQueue sample_pending) \<noteq> None"
proof -
  have "getNext 1000 (writeBuffer sample_pending) = None"
    by (simp add: sample_pending_def sample_l2_def BaseCache_new_def WriteQueue_new_def Queue_new_def getNext_def)
  then show ?thesis using next_entry_ordered[OF sample_pending_next] by (auto simp: sample_pending_def)
qed



section \<open>Scratchpad commands that go wrong\<close>

lemma invalidated_not_ready:
  assumes "i < length (tagBlks (c_tags c))" "invalidateBlock cx (InTags i) c = Inr c'"
  shows "whenReady (blk_at (c_tags c') i) = MaxTick"
proof -
  from assms(2) obtain t where t: "tags_invalidate (ops cx) i (c_tags c) = Inr t" "c_tags c' = t"
    by (auto simp: invalidateBlock_def)
  obtain b where "blk_invalidate (blk_at (c_tags c) i) = Inr b" "tagBlks t = (tagBlks (c_tags c))[i := b]"
    using tags_invalidate_blks[OF t(1)] by blast
  then show ?thesis using assms(1) t(2) by (auto simp: blk_at_def blk_invalidate_def setWhenReady_def Let_def)
qed

lemma evicted_not_ready:
  assumes "i < length (tagBlks (c_tags c))" "evictBlock cx (InTags i) c = Inr (p, c')"
  shows "whenReady (blk_at (c_tags c') i) = MaxTick"
proof -
  from assms(2) obtain p1 c1 where "c1 = c \<or> writebackBlk cx (InTags i) c = Inr (p1, c1)" "invalidateBlock cx (InTags i) c1 = Inr c'"
    by (auto simp: evictBlock_def split: if_splits)
  moreover have "length (tagBlks (c_tags c1)) = length (tagBlks (c_tags c))" if "writebackBlk cx (InTags i) c = Inr (p1, c1)"
    using that by (auto simp: writebackBlk_def Let_def split_def upd_blk_def)
  ultimately show ?thesis using assms(1) invalidated_not_ready by metis
qed

lemma victim_not_ready:
  assumes "allocateBlock cx p wbs c = Inr (Some v, wbs', c')"
    and "\<forall>j < length (tagBlks (c_tags c)). \<not> blkValid (blk_at (c_tags c) j) \<longrightarrow> whenReady (blk_at (c_tags c) j) = MaxTick"
    and "cx_ok good cx" "tags_ok good (c_tags c)"
  shows "whenReady (blk_at (c_tags c') v) = MaxTick \<and> v < length (tagBlks (c_tags c'))"
proof -
  note u = assms(1)[unfolded allocateBlock_def Let_def]
  from u obtain pid es t wbs1 c2 t2 where t: "findVictim (ops cx) (renv cx) (getAddr p) pid (c_tags c) = Inr (Some v, es, t)"
    and c2: "handleEvictions cx [v] wbs (c\<lparr>c_tags := t\<rparr>) = Inr (True, wbs1, c2)"
      "insertBlock (ops cx) (renv cx) p v (c_tags c2) = Inr t2" "c' = c2\<lparr>c_tags := t2\<rparr>"
    by (auto split: option.splits if_splits)
  have i: "tagBlks t = tagBlks (c_tags c)" "v < length (tagBlks t)"
    using findVictim_iso[OF assms(3,4) t, of "{}"] by (auto simp: plain_idx_def)
  have "c2 = c\<lparr>c_tags := t\<rparr> \<and> \<not> blkValid (blk_at t v) \<or> (\<exists>q. evictBlock cx (InTags v) (c\<lparr>c_tags := t\<rparr>) = Inr (q, c2))"
    using c2(1) by (auto simp: handleEvictions_def split: if_splits)
  then have rd: "whenReady (blk_at (c_tags c2) v) = MaxTick"
    using assms(2) i evicted_not_ready[of v "c\<lparr>c_tags := t\<rparr>" cx] by (auto simp: blk_at_def)
  obtain b part where b: "blk_insert (now (renv cx)) (tagsIp (c_tags c2)) (getAddr p) (isSecure p) (requestorId (req p))
       (taskId (req p)) part (blk_at (c_tags c2) v) = Inr b" "tagBlks t2 = (tagBlks (c_tags c2))[v := b]"
    using insertBlock_blks[OF c2(2)] by blast
  have w: "whenReady b = MaxTick"
    using b(1) rd by (auto simp: blk_insert_def tagged_insert_def setValid_def increaseRefCount_def Let_def)
  have "v < length (tagBlks (c_tags c'))"
    using allocateBlock_iso[OF assms(3,4,1), of "{}"] by (auto simp: plain_idx_def)
  then show ?thesis using c2(3) b(2) w by (simp add: blk_at_def)
qed

text \<open>
  C12. Writing a whole line back from the scratchpad always fails when the line is not in the
  second level: the block allocated for it has no ready time yet, which the latency calculation
  asserts. (Invalid blocks have the largest tick as their ready time, as construction and
  invalidation leave it.)
\<close>

theorem full_line_writeback_fails:
  assumes "cx_ok good cx" "tags_ok good (f_tags f)"
    and "\<forall>j < length (tagBlks (f_tags f)). \<not> blkValid (blk_at (f_tags f) j) \<longrightarrow> whenReady (blk_at (f_tags f) j) = MaxTick"
    and "valid_blk f = None" "getSpmSize (f_pkt f) = blkSize (cfg cx)" "line_offset cx (getAddr (f_pkt f)) = 0"
    and "allocateBlock cx (f_pkt f) (f_wbs f) (f_cache f) = Inr (Some v, wbs, c)"
  shows "l2_writeback_line cx dst tlat f = Inl Assertion"
proof -
  note v = victim_not_ready[OF assms(7,3,1,2)]
  let ?f1 = "f\<lparr>f_wbs := wbs, f_cache := c, f_blk := Some v\<rparr>"
  have fl: "b' = b\<lparr>blkData := blkData b', coherence := coherence b'\<rparr>" if "fill_line cx dst b = Inr b'" for b b'
    using that by (auto simp: fill_line_def setCoherenceBits_def ReadableBit_def DirtyBit_def ScratchpadBit_def)
  have "l2_writeback_alloc cx dst tlat f = Inl Assertion"
  proof (cases "fill_line cx dst (blk_at (c_tags c) v)")
    case (Inl e)
    then have "e = Assertion"
      by (auto simp: fill_line_def setCoherenceBits_def must_def bindR_Inl ReadableBit_def DirtyBit_def ScratchpadBit_def split: if_splits)
    then show ?thesis using assms(7) Inl by (simp add: l2_writeback_alloc_def f_with_blk_def with_blk_def)
  next
    case (Inr b)
    have "whenReady b = MaxTick" using arg_cong[OF fl[OF Inr], of whenReady] v by simp
    then show ?thesis
      using assms(7) Inr v
      by (simp add: l2_writeback_alloc_def f_with_blk_def with_blk_def found_blk_def calculateAccessLatency_def getWhenReady_def must_def
          Let_def blk_at_def upd_blk_def)
  qed
  then show ?thesis using assms(4,5,6) by (auto simp: l2_writeback_line_def valid_blk_def split: option.splits if_splits)
qed

definition sample_line_frame :: "lru_store frame" where
  "sample_line_frame = \<lparr>f_pkt = (sample_access SPMWritebackReq 0x80)\<lparr>spm_size := 8\<rparr>, f_blk = None, f_lat = 0, f_wbs = [],
     f_cache = sample_l2\<rparr>"

theorem full_line_writeback_fails_witness:
  "l2_writeback_line (sample_cx 100) [1, 2, 3, 4, 5, 6, 7, 8] 2 sample_line_frame = Inl Assertion"
proof -
  let ?f = sample_line_frame
  have "case allocateBlock (sample_cx 100) (f_pkt ?f) (f_wbs ?f) (f_cache ?f) of Inr (Some v, w) \<Rightarrow> True | _ \<Rightarrow> False"
    by code_simp
  then obtain v wbs c where a: "allocateBlock (sample_cx 100) (f_pkt ?f) (f_wbs ?f) (f_cache ?f) = Inr (Some v, wbs, c)"
    by (auto split: sum.splits prod.splits option.splits)
  have t: "f_tags ?f = sample_l2_tags" by (simp add: sample_line_frame_def sample_l2_def BaseCache_new_def)
  have ok: "tags_ok (\<lambda>_. True) (f_tags ?f)" unfolding t by (rule sample_tags_ok)
  have r: "\<forall>j < length (tagBlks (f_tags ?f)). \<not> blkValid (blk_at (f_tags ?f) j) \<longrightarrow> whenReady (blk_at (f_tags ?f) j) = MaxTick"
    unfolding t by (simp add: sample_l2_tags_def blk_at_def CacheBlk_new_def)
  have n: "valid_blk ?f = None" by (simp add: valid_blk_def sample_line_frame_def)
  have p: "getSpmSize (f_pkt ?f) = blkSize (cfg (sample_cx 100))" "line_offset (sample_cx 100) (getAddr (f_pkt ?f)) = 0" by code_simp+
  show ?thesis by (rule full_line_writeback_fails[OF sample_cx_good ok r n p a])
qed

text \<open>
  C13. A copy that misses turns a line it cannot evict into a slot. When the block a copy names
  holds a dirty line with an outstanding request, the eviction is given up, but the block is
  made a slot all the same: it keeps the line's bytes and its dirty bit, loses the line's tag
  so that no address finds it any more, and no writeback is issued.
\<close>

theorem missing_copy_loses_line:
  assumes "pending_eviction cx [s] (f_cache f) = Inr True" "s < length (tagBlks (f_tags f))"
    and "blk_isSet DirtyBit (blk_at (f_tags f) s)" "\<not> blk_isSet ScratchpadBit (blk_at (f_tags f) s)"
    and "hasPaddr (req (f_pkt f))" "0 < tagShift (tagsIp (f_tags f))"
  shows "\<exists>f'. l2_copy_missing cx slat s f = Inr (False, f') \<and> f_wbs f' = f_wbs f \<and>
    blk_isSet ScratchpadBit (blk_at (f_tags f') s) \<and> blk_isSet DirtyBit (blk_at (f_tags f') s) \<and>
    blkData (blk_at (f_tags f') s) = blkData (blk_at (f_tags f) s) \<and>
    (\<forall>a sec. \<not> blk_match (tagsIp (f_tags f')) a sec (blk_at (f_tags f') s))"
proof -
  let ?b = "blk_at (f_tags f) s"
  have v: "blkValid ?b" "coherence ?b AND DirtyBit \<noteq> 0" using assms(3) by (auto simp: blk_isSet_def)
  let ?b1 = "?b\<lparr>coherence := (coherence ?b AND NOT WritableBit) OR WaitBit\<rparr>"
  let ?b2 = "?b1\<lparr>blkTag := MaxAddr, coherence := coherence ?b1 OR ScratchpadBit\<rparr>"
  have m: "mark_waiting ?b = Inr ?b1" "setCoherenceBits ScratchpadBit ?b1 = Inr ?b2"
    using v(1) by (simp_all add: mark_waiting_def setCoherenceBits_def clearCoherenceBits_def must_def WaitBit_def ScratchpadBit_def)
  have h: "handleEvictions cx [s] (f_wbs f) (f_cache f) = Inr (False, f_wbs f, f_cache f)"
    using assms(1) by (simp add: handleEvictions_def)
  obtain r where r: "setFlags SPMCP_NOALLOC (req (f_pkt f)) = Inr r" using assms(5) by (simp add: setFlags_def must_def)
  let ?f' = "f\<lparr>f_cache := (f_cache f)\<lparr>c_tags := upd_blk s ?b2 (f_tags f)\<rparr>, f_lat := slat, f_pkt := (f_pkt f)\<lparr>req := r\<rparr>\<rparr>"
  have e: "l2_copy_missing cx slat s f = Inr (False, ?f')"
    using assms(2,4) h m r
    by (simp add: l2_copy_missing_def vacate_slot_def f_with_blk_def with_blk_def upd_blk_def blk_at_def)
  have b: "blk_at (f_tags ?f') s = ?b2" using assms(2) by (simp add: blk_at_def upd_blk_def)
  have dirty: "coherence ?b2 AND DirtyBit \<noteq> 0" "coherence ?b2 AND ScratchpadBit \<noteq> 0"
    using v(2) by (simp_all add: bit.conj_disj_distrib2 or_eq_0_iff and.assoc WaitBit_def DirtyBit_def WritableBit_def ScratchpadBit_def)
  have "\<not> blk_match (tagsIp (f_tags f)) a sec ?b2" for a sec
    using extractTag_not_MaxAddr[OF assms(6), of a] by (auto simp: blk_match_def)
  then show ?thesis
    using e b dirty v(1) by (intro exI[of _ ?f']) (simp add: blk_isSet_def upd_blk_def)
qed

definition sample_busy_frame :: "lru_store frame" where
  "sample_busy_frame = \<lparr>f_pkt = sample_copy, f_blk = None, f_lat = 0, f_wbs = [],
     f_cache = (sample_modified (ReadableBit OR DirtyBit))\<lparr>mshrQueue := snd (snd (projr
       (mq_allocate 90 0x80 8 (sample_access WriteReq 0x80) 100 0 True {} (MSHRQueue_new 1 0))))\<rparr>\<rparr>"

theorem missing_copy_loses_line_witness:
  "\<exists>f'. l2_copy_missing (sample_cx 100) 2 0 sample_busy_frame = Inr (False, f') \<and> f_wbs f' = [] \<and>
     blkData (blk_at (f_tags f') 0) = [7, 7, 7, 7, 7, 7, 7, 7] \<and> (\<forall>a sec. \<not> blk_match (tagsIp (f_tags f')) a sec (blk_at (f_tags f') 0))"
proof -
  let ?f = sample_busy_frame
  have p: "pending_eviction (sample_cx 100) [0] (f_cache ?f) = Inr True" by code_simp
  have t: "f_tags ?f = c_tags (sample_modified (ReadableBit OR DirtyBit))" by (simp add: sample_busy_frame_def)
  have b: "blk_isSet DirtyBit (blk_at (f_tags ?f) 0)" "\<not> blk_isSet ScratchpadBit (blk_at (f_tags ?f) 0)"
      "blkData (blk_at (f_tags ?f) 0) = [7, 7, 7, 7, 7, 7, 7, 7]"
    unfolding t by (simp_all add: sample_modified_tags sample_dirty_def CacheBlk_new_def blk_isSet_def coherence_defs)
  have q: "hasPaddr (req (f_pkt ?f))" "f_wbs ?f = []" "0 < tagShift sample_l2_ip"
    by (simp_all add: sample_busy_frame_def sample_copy_def sample_access_def Packet_blk_def sample_defs flag_defs sample_l2_ip_def)
  show ?thesis
    using missing_copy_loses_line[OF p _ b(1,2) q(1), of 2] b(3) q t sample_modified_tags(3,4) by auto
qed

end
