(* ===== verification/Spec2Isabelle.thy ===== *)
theory Spec2Isabelle
  imports Prelude Mem_Cmd Request Packet Int_Math Indexing Cache_Blk Repl_Policies Partitioning
    Set_Assoc_Tags Queue Write_Queue MSHR MSHR_Queue Cache_State Cache_Access Cache_Snoop Cache_Fill
    Cache_Request Isolation Cache_Queues Cache_Invariant Cache_Handlers Cache_System Cache_Properties Scratchpad_Data
    Cache_Behaviour
begin

text \<open>
  Verification of the CacheFlex memory hierarchy.

  \<^bold>\<open>The program.\<close> CacheFlex (src/gem5) changes the classic caches of the gem5 simulator so that
  ways of the second-level cache can serve as a scratchpad. A core sends scratchpad commands
  next to its loads and stores: copy a line into a slot (\<^verbatim>\<open>CPTOSPMReq\<close>), write a slot back
  (\<^verbatim>\<open>SPMWritebackReq\<close>), load from and store to slots (\<^verbatim>\<open>SPMLoadReq\<close>, \<^verbatim>\<open>SPMStoreReq\<close>). A slot is a block with the coherence bit
  \<^verbatim>\<open>ScratchpadBit\<close>; it is found by the set and way bits of its address instead of by tag, it is
  never a victim, and it is invisible to ordinary lookups. The first level passes copies
  and writebacks on, with the bytes of the line when it has it; the second level executes the
  commands, a copy at once when the source line is at hand and otherwise when the response to
  its miss arrives. Requests enter at the port of the requestors
  or at the scratchpad port, misses and evictions leave through the miss registers and the write
  buffer, responses and snoops come back from below, and a full queue blocks the port until
  the requestor is told to retry.

  \<^bold>\<open>Theories and sources\<close>, in the order of the imports; paths are below src/gem5/src.

  \<^item> Prelude: machine types, the result type \<open>'a res = abort + 'a\<close> in which every \<^verbatim>\<open>assert\<close>,
    \<^verbatim>\<open>panic\<close> and \<^verbatim>\<open>fatal\<close> is a value, byte copies, flag words (base/flags.hh).
  \<^item> Mem_Cmd, Request, Packet: the command enumeration with its attribute table, request flags
    and fields, packets with their constructors, response conversion, data movement and
    functional satisfaction (mem/packet.hh, packet.cc, packet_access.hh, request.hh).
  \<^item> Int_Math: \<^verbatim>\<open>floorLog2\<close>, \<^verbatim>\<open>isPowerOf2\<close>, \<^verbatim>\<open>divCeil\<close>, saturating counters (base/intmath.hh,
    base/sat_counter.hh).
  \<^item> Indexing, Cache_Blk: set, tag and way of an address; the block with its coherence bits,
    locks and temporary states (mem/cache/tags/indexing_policies/base.hh, tagged_entry.hh,
    mem/cache/cache_blk.hh, cache_blk.cc).
  \<^item> Repl_Policies: ten replacement policies (mem/cache/replacement_policies) behind the
    record \<open>policy_ops\<close> of their operations; Partitioning: the partition manager with the way
    and capacity policies (mem/cache/tags/partitioning_policies).
  \<^item> Set_Assoc_Tags: lookup, slot lookup, victim selection, insertion, invalidation, moves and
    demotion (mem/cache/tags/base.hh, base.cc, base_set_assoc.hh, base_set_assoc.cc).
  \<^item> Queue, Write_Queue, MSHR, MSHR_Queue: the queue template and its two instances, target
    lists, deferral, promotion and snoops of miss registers (mem/cache/queue.hh,
    queue_entry.hh, write_queue.cc, write_queue_entry.cc, mshr.cc, mshr_queue.cc).
  \<^item> Cache_State: the records \<open>cache_cfg\<close> (constants) and \<open>cache\<close> (variables) of \<^verbatim>\<open>BaseCache\<close>,
    flow control, latencies, the temporary block, the operations on one block, evictions and
    allocation (mem/cache/base.hh, base.cc, cache.cc).
  \<^item> Cache_Access: \<^verbatim>\<open>BaseCache::access\<close> and \<^verbatim>\<open>Cache::access\<close>, one definition per command group,
    with the scratchpad commands of both levels (\<open>l1_spm_access\<close>, \<open>l2_copy_access\<close>,
    \<open>l2_writeback_access\<close>, \<open>l2_ldst_access\<close>).
  \<^item> Cache_Snoop: responses on both ports with the shared read bandwidth (\<open>sharedReadEgress\<close>,
    \<open>spmSchedResp\<close>), \<open>doWritebacks\<close>, \<open>handleSnoop\<close>, \<open>recvTimingSnoopReq\<close>.
  \<^item> Cache_Fill: \<open>handleFill\<close>, \<open>serviceMSHRTargets\<close> with the copies and writebacks that waited
    for a line, \<open>recvTimingResp\<close>.
  \<^item> Cache_Request: \<open>recvTimingReq\<close> with hit, miss and coalescing, \<open>createMissPacket\<close>,
    \<open>getNextQueueEntry\<close>, \<open>sendMSHRQueuePacket\<close>, \<open>sendWriteQueuePacket\<close>, \<open>sendDeferredPacket\<close>.
  \<^item> Cache_System: the events the simulator delivers to a cache, the handler of each (\<open>handle\<close>),
    runs (\<open>cache_run\<close>) and reachable states (\<open>cache_reachable\<close>).

  \<^bold>\<open>How code is rendered.\<close> A pointer to a block, a miss register or a buffer entry is its index;
  reference parameters are results or fields of a frame; an operation that can abort returns a
  \<open>res\<close>. Addresses and flags are words of their width, so address arithmetic wraps as in the
  code; bytes are 8-bit words; ticks and cycles are natural numbers, as a simulation does not
  run to the end of 64-bit time. Code outside the caches is a parameter: the answers of the
  caches above and of the memory below (record \<open>neighbours\<close>), the random numbers and the
  current tick (\<open>repl_env\<close>), the contents of fresh memory, all chosen anew at each event.
  Options from the process environment are fields of the configuration.

  \<^bold>\<open>What is proved.\<close>

  \<^item> The whole cache (Isolation, Cache_Queues, Cache_Invariant, Cache_Handlers, Cache_System,
    Cache_Properties): every operation and every handler keeps the tag store well formed, both
    queues sound and the flow control in agreement with them, and touches no scratchpad slot
    but those its command names. By induction over runs, in every reachable state, for every
    replacement policy with the contract of the locale \<open>replacement_policy\<close>: the contents of a
    slot survive any traffic that does not name it, a refused requestor is owed a retry that
    is scheduled as soon as it can be taken, and an unblocked cache has room for a request.
  \<^item> The scratchpad as a memory (Scratchpad_Data): what a store or a copy puts into a slot is
    what a later load returns, across any run in between that does not name the slot, from
    the request at the port to the response.
  \<^item> Single paths (Cache_Behaviour): the copy served by a fill, dirty evictions, the packet
    sent for a miss, the order between the two queues, the shared read port; and two paths
    that do not do what they should, a full-line writeback that misses and a copy onto a block
    that cannot be evicted.
  \<^item> Components: insertion, lookup and invalidation, victim selection that spares slots,
    demotion, load-locked and store-conditional, service in order and deferral in a miss
    register, soundness of the queues in every reachable state (locale \<open>queue_entries\<close>,
    interpreted for both instances), address decomposition and its inverse, functional
    accesses, the command table, the policies (locales \<open>replacement_policy\<close> and
    \<open>invalid_first_policy\<close>, interpreted for nine of them; tree PLRU does not satisfy it once candidates are filtered)
    and the integer helpers.

  \<^bold>\<open>Bounds and termination.\<close> No definition uses fuel. Loops over lists, bytes and slots are
  structural; the loop of \<^verbatim>\<open>SecondChance::getVictim\<close> ends because each turn takes a second
  chance away, the two of the PLRU tree because the node index falls and rises to its bound. The definitions are executable, and the hypotheses of the
  theorems are met by concrete inputs: for the whole cache by \<open>sample_l2\<close>, a second-level
  cache of two sets and two ways with one miss register, played through a copy, a miss, a
  refused request, the request to memory and its response.

  \<^bold>\<open>Not modelled.\<close>

  \<^item> Atomic and functional accesses of whole caches, \<^verbatim>\<open>bypassCaches\<close> mode, and
    \<^verbatim>\<open>recvTimingSnoopResp\<close> with \<^verbatim>\<open>outstandingSnoop\<close>: modes and forwarding the scratchpad path
    does not use. Functional access of packets, queues and miss registers is modelled.
  \<^item> Prefetchers and the upward snoop of \<^verbatim>\<open>HardPFReq\<close> in \<^verbatim>\<open>Cache::sendMSHRQueuePacket\<close>,
    compression, and the sector, compressed and fully associative tags: the modelled cache has
    no prefetcher and no compressor, and slots exist only in the set-associative store.
  \<^item> SHiP and dueling replacement: they take the packet or a monitor at each operation, outside
    the interface of \<open>policy_ops\<close>.
  \<^item> Statistics, probes, printing and checkpoints: they only observe, or are pure input and
    output. Counters that feed back into the state are kept.
  \<^item> Crossbars, port queues, memory controllers, Ruby and the event queue: they appear as the
    parameters and events above. The noncoherent cache is not changed by CacheFlex.
  \<^item> The out-of-order core and its load-store queue, which issue the commands: the model
    accepts every sequence of requests. The instruction definitions are input of a generator
    whose output is not in the repository.
  \<^item> Configuration scripts, kernels, the scratchpad compiler and the experiment scripts
    (src/gem5/configs, src/kernels, src/spm_tools, src/scripts): inputs and outputs of the
    simulation.
\<close>

end
